(* ===== verification/Prelude.thy ===== *)
theory Prelude
  imports Main "HOL-Library.Word"
begin

text \<open>
  Shared vocabulary of the development: Go's bytes, errors and panics as values, counted loops,
  big-endian integers, and the list and word facts the components use.

  \<^item> \<open>byte\<close> is an 8-bit word, \<open>bytes\<close> the contents of a byte slice.
  \<^item> \<open>'a res\<close> is what a Go call ends with: a value with a nil error, a non-nil error, or a
    run-time panic (index out of range, slice bounds, division by zero).
  \<^item> \<open>for_range\<close> and \<open>for_step\<close> are the counted loops \<^verbatim>\<open>for i := a; i < b; i++\<close> and
    \<^verbatim>\<open>for i := a; i < b; i += k\<close>.
\<close>

unbundle bit_operations_syntax

type_synonym byte = "8 word"
type_synonym bytes = "byte list"

named_theorems go_defs \<open>definitions of the operations, for symbolic execution\<close>
named_theorems go_inv \<open>preservation of the invariants by the operations\<close>

datatype goerr =
    EOF
  | UnexpectedEOF
  | ShortBuffer
  | NetErr string
  | ErrNew string

datatype 'a res = Ret 'a | Fail goerr | Panic

fun bind_res :: "'a res \<Rightarrow> ('a \<Rightarrow> 'b res) \<Rightarrow> 'b res" where
  "bind_res (Ret a) f = f a"
| "bind_res (Fail e) f = Fail e"
| "bind_res Panic f = Panic"

lemma map_le_by_values: "(\<And>k v. f k = Some v \<Longrightarrow> g k = Some v) \<Longrightarrow> f \<subseteq>\<^sub>m g"
  by (auto simp: map_le_def)

section \<open>Counted loops\<close>

definition for_range :: "nat \<Rightarrow> nat \<Rightarrow> (nat \<Rightarrow> 's \<Rightarrow> 's) \<Rightarrow> 's \<Rightarrow> 's" where
  "for_range a b body s = fold body [a..<b] s"

function for_step :: "nat \<Rightarrow> nat \<Rightarrow> nat \<Rightarrow> (nat \<Rightarrow> 's \<Rightarrow> 's) \<Rightarrow> 's \<Rightarrow> 's" where
  "for_step a b k body s =
     (if a < b \<and> 0 < k then for_step (a + k) b k body (body a s) else s)"
  by pat_completeness auto
termination
  by (relation "measure (\<lambda>(a, b, k, body, s). b - a)") auto

declare for_step.simps [simp del]

lemma for_range_empty [simp]: "b \<le> a \<Longrightarrow> for_range a b body s = s"
  by (simp add: for_range_def)

lemma for_range_Suc: "a \<le> b \<Longrightarrow> for_range a (Suc b) body s = body b (for_range a b body s)"
  by (simp add: for_range_def)

lemma for_range_invariant:
  assumes "I a s" and "a \<le> b"
    and "\<And>i t. a \<le> i \<Longrightarrow> i < b \<Longrightarrow> I i t \<Longrightarrow> I (Suc i) (body i t)"
  shows "I b (for_range a b body s)"
  using assms(2,1,3)
proof (induction b rule: dec_induct)
  case base
  then show ?case by simp
next
  case (step n)
  then show ?case by (simp add: for_range_Suc)
qed

lemma for_step_invariant:
  assumes "I a s" and "0 < k"
    and "\<And>i t. a \<le> i \<Longrightarrow> i + k \<le> a + m * k \<Longrightarrow> k dvd (i - a) \<Longrightarrow> I i t \<Longrightarrow> I (i + k) (body i t)"
  shows "I (a + m * k) (for_step a (a + m * k) k body s)"
  using assms(1,3)
proof (induction m arbitrary: a s)
  case 0
  then show ?case by (simp add: for_step.simps)
next
  case (Suc m)
  have "I (a + k) (body a s)"
    using Suc.prems assms(2) by simp
  moreover have "I (i + k) (body i t)"
    if "a + k \<le> i" "i + k \<le> a + k + m * k" "k dvd (i - (a + k))" "I i t" for i t
  proof -
    have "i - a = (i - (a + k)) + k"
      using that(1) by simp
    then have "k dvd (i - a)"
      using that(3) by simp
    then show ?thesis
      using that Suc.prems(2) by simp
  qed
  ultimately have "I (a + k + m * k) (for_step (a + k) (a + k + m * k) k body (body a s))"
    by (rule Suc.IH)
  then show ?case
    using assms(2) by (subst for_step.simps) (simp add: add.assoc)
qed

corollary for_step_invariant_dvd:
  assumes "I 0 s" and "0 < k" and "k dvd n"
    and "\<And>i t. i + k \<le> n \<Longrightarrow> k dvd i \<Longrightarrow> I i t \<Longrightarrow> I (i + k) (body i t)"
  shows "I n (for_step 0 n k body s)"
proof -
  from \<open>k dvd n\<close> obtain m where "n = 0 + m * k"
    by (auto simp: dvd_def mult.commute)
  then show ?thesis
    using for_step_invariant [of I 0 s k m body] assms by simp
qed

section \<open>Big-endian integers (encoding/binary.BigEndian)\<close>

definition putUint32 :: "32 word \<Rightarrow> bytes" where
  "putUint32 v = [ucast (drop_bit 24 v), ucast (drop_bit 16 v), ucast (drop_bit 8 v), ucast v]"

fun getUint32 :: "bytes \<Rightarrow> 32 word" where
  "getUint32 (b0 # b1 # b2 # b3 # _) =
     ucast b3 OR push_bit 8 (ucast b2) OR push_bit 16 (ucast b1) OR push_bit 24 (ucast b0)"
| "getUint32 _ = 0"

definition putUint16 :: "16 word \<Rightarrow> bytes" where
  "putUint16 v = [ucast (drop_bit 8 v), ucast v]"

fun getUint16 :: "bytes \<Rightarrow> 16 word" where
  "getUint16 (b0 # b1 # _) = ucast b1 OR push_bit 8 (ucast b0)"
| "getUint16 _ = 0"

lemma unat_of_nat_small: "x < 2 ^ LENGTH('a) \<Longrightarrow> unat (word_of_nat x :: 'a::len word) = x"
  by (simp add: unat_of_nat)

lemma length_putUint32 [simp]: "length (putUint32 v) = 4"
  by (simp add: putUint32_def)

lemma length_putUint16 [simp]: "length (putUint16 v) = 2"
  by (simp add: putUint16_def)

lemma getUint32_putUint32 [simp]: "getUint32 (putUint32 v @ xs) = v"
proof -
  have "bit (getUint32 (putUint32 v @ xs)) n = bit v n" if "n < 32" for n
  proof -
    consider "n < 8" | "8 \<le> n" "n < 16" | "16 \<le> n" "n < 24" | "24 \<le> n"
      by linarith
    then show ?thesis
      using that by cases (auto simp: putUint32_def bit_simps)
  qed
  then show ?thesis
    by (intro bit_word_eqI) simp
qed

lemma getUint16_putUint16 [simp]: "getUint16 (putUint16 v @ xs) = v"
proof -
  have "bit (getUint16 (putUint16 v @ xs)) n = bit v n" if "n < 16" for n
    using that by (auto simp: putUint16_def bit_simps)
  then show ?thesis
    by (intro bit_word_eqI) simp
qed

end
