(* ===== verification/Go_Strings.thy ===== *)
theory Go_Strings
  imports Prelude
begin

text \<open>
  What the sources use of Go's strings and of the packages \<^verbatim>\<open>strings\<close> and \<^verbatim>\<open>strconv\<close>. A Go string is a
  sequence of bytes; here it is a \<open>string\<close>, whose characters are the 256 byte values, and
  \<open>string_of\<close> and \<open>bytes_of\<close> are Go's conversions \<^verbatim>\<open>string(b)\<close> and \<^verbatim>\<open>[]byte(s)\<close>.
\<close>

definition string_of :: "bytes \<Rightarrow> string" where
  "string_of bs = map (\<lambda>b. char_of (unat b)) bs"

definition bytes_of :: "string \<Rightarrow> bytes" where
  "bytes_of s = map (\<lambda>c. of_nat (of_char c)) s"

lemma uint_lt2p_nat: "unat (b :: byte) < 256"
  using unsigned_less [of b] by simp

lemma of_char_less: "of_char c < (256::nat)"
  by (metis of_char_mod_256 mod_less_divisor zero_less_numeral)

lemma string_of_bytes_of [simp]: "string_of (bytes_of s) = s"
proof -
  have "of_char c < (2::nat) ^ LENGTH(8)" for c
    using of_char_less [of c] by simp
  then show ?thesis
    by (simp add: string_of_def bytes_of_def comp_def unat_of_nat_small map_idI)
qed

lemma bytes_of_string_of [simp]: "bytes_of (string_of bs) = bs"
proof -
  have "(of_nat (of_char (char_of (unat b) :: char)) :: byte) = b" for b :: byte
    using uint_lt2p_nat [of b] by (simp add: of_char_of)
  then show ?thesis
    by (simp add: string_of_def bytes_of_def comp_def map_idI)
qed

lemma length_conversions [simp]: "length (string_of bs) = length bs" "length (bytes_of s) = length s"
  by (simp_all add: string_of_def bytes_of_def)

section \<open>Package strings\<close>

text \<open>Positions: \<open>None\<close> stands for Go's \<open>-1\<close>.\<close>

fun IndexByte :: "string \<Rightarrow> char \<Rightarrow> nat option" where
  "IndexByte [] c = None"
| "IndexByte (x # xs) c = (if x = c then Some 0 else map_option Suc (IndexByte xs c))"

definition LastIndexByte :: "string \<Rightarrow> char \<Rightarrow> nat option" where
  "LastIndexByte s c = map_option (\<lambda>i. length s - 1 - i) (IndexByte (rev s) c)"

definition HasPrefix :: "string \<Rightarrow> string \<Rightarrow> bool" where
  "HasPrefix s p \<longleftrightarrow> take (length p) s = p"

definition TrimPrefix :: "string \<Rightarrow> string \<Rightarrow> string" where
  "TrimPrefix s p = (if HasPrefix s p then drop (length p) s else s)"

text \<open>\<^verbatim>\<open>strings.Split(s, sep)\<close> for a non-empty separator.\<close>

function Split :: "string \<Rightarrow> string \<Rightarrow> string \<Rightarrow> string list" where
  "Split sep cur [] = [rev cur]"
| "Split sep cur (x # xs) =
     (if sep \<noteq> [] \<and> HasPrefix (x # xs) sep
      then rev cur # Split sep [] (drop (length sep) (x # xs))
      else Split sep (x # cur) xs)"
  by pat_completeness auto
termination
  by (relation "measure (\<lambda>(sep, cur, s). length s)") (auto simp: not_less_eq_eq Suc_leI)

definition strings_Split :: "string \<Rightarrow> string \<Rightarrow> string list" where
  "strings_Split s sep = Split sep [] s"

lemma IndexByte_None: "IndexByte s c = None \<longleftrightarrow> c \<notin> set s"
  by (induction s) auto

lemma IndexByte_app: "c \<notin> set xs \<Longrightarrow> IndexByte (xs @ c # ys) c = Some (length xs)"
  by (induction xs) auto

lemma LastIndexByte_app: "c \<notin> set ys \<Longrightarrow> LastIndexByte (xs @ c # ys) c = Some (length xs)"
  using IndexByte_app [of c "rev ys" "rev xs"] by (simp add: LastIndexByte_def)

lemma LastIndexByte_None: "LastIndexByte s c = None \<longleftrightarrow> c \<notin> set s"
  by (simp add: LastIndexByte_def IndexByte_None)

section \<open>Package strconv\<close>

definition ErrSyntax :: goerr where
  "ErrSyntax = ErrNew ''invalid syntax''"

definition ErrRange :: goerr where
  "ErrRange = ErrNew ''value out of range''"

definition is_digit :: "char \<Rightarrow> bool" where
  "is_digit c \<longleftrightarrow> (48::nat) \<le> of_char c \<and> of_char c \<le> (57::nat)"

definition digit :: "char \<Rightarrow> nat" where
  "digit c = of_char c - 48"

text \<open>\<^verbatim>\<open>ParseUint(s, 10, 64)\<close>: the loop leaves at the first character that is no digit or at the
  first digit that exceeds 64 bits.\<close>

fun ParseUint_loop :: "nat \<Rightarrow> string \<Rightarrow> nat \<times> goerr option" where
  "ParseUint_loop n [] = (n, None)"
| "ParseUint_loop n (c # cs) =
     (if \<not> is_digit c then (0, Some ErrSyntax)
      else if 2 ^ 64 \<le> n * 10 + digit c then (2 ^ 64 - 1, Some ErrRange)
      else ParseUint_loop (n * 10 + digit c) cs)"

definition ParseUint :: "string \<Rightarrow> nat \<times> goerr option" where
  "ParseUint s = (if s = [] then (0, Some ErrSyntax) else ParseUint_loop 0 s)"

definition ParseInt :: "string \<Rightarrow> int \<times> goerr option" where
  "ParseInt s =
     (if s = [] then (0, Some ErrSyntax)
      else
        let neg = (hd s = CHR ''-'');
            (un, err) = ParseUint (if hd s = CHR ''+'' \<or> neg then tl s else s)
        in if err = Some ErrSyntax then (0, err)
           else if \<not> neg \<and> 2 ^ 63 \<le> un then (2 ^ 63 - 1, Some ErrRange)
           else if neg \<and> 2 ^ 63 < un then (- (2 ^ 63), Some ErrRange)
           else (if neg then - int un else int un, None))"

definition Atoi :: "string \<Rightarrow> int res" where
  "Atoi s = (case ParseInt s of (n, None) \<Rightarrow> Ret n | (n, Some e) \<Rightarrow> Fail e)"

fun FormatUint :: "nat \<Rightarrow> string" where
  "FormatUint n =
     (if n < 10 then [char_of (48 + n)] else FormatUint (n div 10) @ [char_of (48 + n mod 10)])"

declare FormatUint.simps [simp del]

definition FormatInt :: "int \<Rightarrow> string" where
  "FormatInt i = (if i < 0 then CHR ''-'' # FormatUint (nat (- i)) else FormatUint (nat i))"

lemma digit_char [simp]:
  assumes "d < 10"
  shows "is_digit (char_of (48 + d))" "digit (char_of (48 + d)) = d"
  using assms by (simp_all add: is_digit_def digit_def of_char_of)

lemma FormatUint_digits: "c \<in> set (FormatUint n) \<Longrightarrow> is_digit c"
proof (induction n rule: FormatUint.induct)
  case (1 n)
  then show ?case
    by (auto simp: FormatUint.simps [of n] split: if_splits)
qed

lemma FormatUint_nonempty [simp]: "FormatUint n \<noteq> []"
  by (subst FormatUint.simps) simp

lemma ParseUint_loop_app:
  "ParseUint_loop n xs = (m, None) \<Longrightarrow> ParseUint_loop n (xs @ ys) = ParseUint_loop m ys"
  by (induction n xs rule: ParseUint_loop.induct) (auto split: if_splits)

lemma ParseUint_FormatUint: "n < 2 ^ 64 \<Longrightarrow> ParseUint_loop 0 (FormatUint n) = (n, None)"
proof (induction n rule: FormatUint.induct)
  case (1 n)
  show ?case
  proof (cases "n < 10")
    case True
    then show ?thesis
      by (subst FormatUint.simps) simp
  next
    case False
    then have "ParseUint_loop 0 (FormatUint (n div 10)) = (n div 10, None)"
      using 1 by simp
    then show ?thesis
      using False \<open>n < 2 ^ 64\<close> by (subst FormatUint.simps) (simp add: ParseUint_loop_app)
  qed
qed

lemma not_digit: "\<not> is_digit CHR ''+''" "\<not> is_digit CHR ''-''" "\<not> is_digit CHR '':''" "\<not> is_digit CHR ''[''"
  "\<not> is_digit CHR '']''" "\<not> is_digit CHR ''.''"
  by (simp_all add: is_digit_def)

lemma FormatUint_not_in: "\<not> is_digit c \<Longrightarrow> c \<notin> set (FormatUint n)"
  using FormatUint_digits by blast

lemma ParseInt_FormatUint: "n < 2 ^ 63 \<Longrightarrow> ParseInt (FormatUint n) = (int n, None)"
proof -
  assume n: "n < 2 ^ 63"
  have "is_digit (hd (FormatUint n))"
    using FormatUint_digits [of "hd (FormatUint n)" n] by simp
  then have "hd (FormatUint n) \<noteq> CHR ''-''" "hd (FormatUint n) \<noteq> CHR ''+''"
    using not_digit by metis+
  then show ?thesis
    using ParseUint_FormatUint [of n] n by (simp add: ParseInt_def ParseUint_def)
qed

lemma ParseInt_FormatInt:
  assumes "- (2 ^ 63) \<le> i" and "i < 2 ^ 63"
  shows "ParseInt (FormatInt i) = (i, None)"
proof (cases "i < 0")
  case True
  have "nat (- i) < 2 ^ 64" "\<not> 2 ^ 63 < nat (- i)"
    using assms(1) True by (auto simp: nat_less_iff)
  then show ?thesis
    using True ParseUint_FormatUint [of "nat (- i)"] by (simp add: FormatInt_def ParseInt_def ParseUint_def)
next
  case False
  then have "nat i < 2 ^ 63"
    using assms(2) by (simp add: nat_less_iff)
  from ParseInt_FormatUint [OF this] show ?thesis
    using False by (simp add: FormatInt_def)
qed

lemma ParseInt_range: "- (2 ^ 63) \<le> fst (ParseInt s) \<and> fst (ParseInt s) < 2 ^ 63"
proof -
  obtain un err where U: "ParseUint (if hd s = CHR ''+'' \<or> hd s = CHR ''-'' then tl s else s) = (un, err)"
    by fastforce
  have le: "un < 2 ^ 63 \<Longrightarrow> int un < 2 ^ 63" "un \<le> 2 ^ 63 \<Longrightarrow> int un \<le> 2 ^ 63"
    by simp_all
  show ?thesis
    using le U by (auto simp: ParseInt_def not_le not_less split: if_splits)
qed

section \<open>More of package strings\<close>

fun strings_Index :: "string \<Rightarrow> string \<Rightarrow> nat option" where
  "strings_Index [] sub = (if sub = [] then Some 0 else None)"
| "strings_Index (x # xs) sub = (if HasPrefix (x # xs) sub then Some 0 else map_option Suc (strings_Index xs sub))"

lemma HasPrefix_hd: "sep \<noteq> [] \<Longrightarrow> hd sep \<noteq> x \<Longrightarrow> \<not> HasPrefix (x # xs) sep"
  by (cases sep) (auto simp: HasPrefix_def)

lemma Split_sep:
  assumes "sep \<noteq> []" and "hd sep \<notin> set x"
  shows "Split sep cur (x @ sep @ y) = (rev cur @ x) # Split sep [] y"
  using assms(2)
proof (induction x arbitrary: cur)
  case Nil
  then show ?case
    using assms(1) by (cases sep) (auto simp: HasPrefix_def)
next
  case (Cons a x)
  then show ?case
    using assms(1) HasPrefix_hd [of sep a "x @ sep @ y"] by auto
qed

lemma Split_none:
  assumes "sep \<noteq> []" and "hd sep \<notin> set x"
  shows "Split sep cur x = [rev cur @ x]"
  using assms(2)
proof (induction x arbitrary: cur)
  case (Cons a x)
  then show ?case
    using assms(1) HasPrefix_hd [of sep a x] by auto
qed simp

lemma strings_Split_sep: "sep \<noteq> [] \<Longrightarrow> hd sep \<notin> set x \<Longrightarrow> strings_Split (x @ sep @ y) sep = x # strings_Split y sep"
  by (simp add: strings_Split_def Split_sep)

lemma strings_Split_none: "sep \<noteq> [] \<Longrightarrow> hd sep \<notin> set x \<Longrightarrow> strings_Split x sep = [x]"
  by (simp add: strings_Split_def Split_none)

lemma strings_Split_lines:
  assumes "sep \<noteq> []" and "\<forall>l \<in> set ls. hd sep \<notin> set l"
  shows "strings_Split (concat (map (\<lambda>l. l @ sep) ls) @ y) sep = ls @ strings_Split y sep"
  using assms by (induction ls) (auto simp: strings_Split_sep)

section \<open>Package encoding/base64\<close>

definition b64_val :: "char \<Rightarrow> nat option" where
  "b64_val c =
     (let n = of_char c in
      if 65 \<le> n \<and> n \<le> 90 then Some (n - 65)
      else if 97 \<le> n \<and> n \<le> 122 then Some (n - 97 + 26)
      else if 48 \<le> n \<and> n \<le> 57 then Some (n - 48 + 52)
      else if c = CHR ''+'' then Some 62
      else if c = CHR ''/'' then Some 63
      else None)"

definition b64_bytes :: "nat \<Rightarrow> nat \<Rightarrow> nat \<Rightarrow> nat \<Rightarrow> bytes" where
  "b64_bytes a b c d =
     (let v = a * 2 ^ 18 + b * 2 ^ 12 + c * 2 ^ 6 + d
      in [of_nat (v div 2 ^ 16), of_nat (v div 2 ^ 8 mod 256), of_nat (v mod 256)])"

fun b64_quanta :: "string \<Rightarrow> bytes option" where
  "b64_quanta [] = Some []"
| "b64_quanta (a # b # c # d # rest) =
     (if d = CHR ''='' \<and> rest \<noteq> [] then None
      else if d = CHR ''='' \<and> c = CHR ''='' then
        (case (b64_val a, b64_val b) of (Some x, Some y) \<Rightarrow> Some (take 1 (b64_bytes x y 0 0)) | _ \<Rightarrow> None)
      else if d = CHR ''='' then
        (case (b64_val a, b64_val b, b64_val c) of
           (Some x, Some y, Some z) \<Rightarrow> Some (take 2 (b64_bytes x y z 0)) | _ \<Rightarrow> None)
      else
        (case (b64_val a, b64_val b, b64_val c, b64_val d) of
           (Some x, Some y, Some z, Some w) \<Rightarrow> map_option ((@) (b64_bytes x y z w)) (b64_quanta rest)
         | _ \<Rightarrow> None))"
| "b64_quanta _ = None"

text \<open>\<^verbatim>\<open>base64.StdEncoding.DecodeString\<close>: line breaks are skipped.\<close>

definition base64_Decode :: "string \<Rightarrow> bytes option" where
  "base64_Decode s = b64_quanta (filter (\<lambda>c. c \<noteq> CHR 0x0A \<and> c \<noteq> CHR 0x0D) s)"

lemma bytes_of_empty [simp]: "bytes_of s = [] \<longleftrightarrow> s = ''''"
  by (simp add: bytes_of_def)


section \<open>Error texts\<close>

text \<open>The method \<^verbatim>\<open>Error\<close> of the errors of the model, and \<^verbatim>\<open>fmt.Errorf("%w: %s", e, s)\<close>, whose text is all
  the sources use of it.\<close>

fun goerr_Error :: "goerr \<Rightarrow> string" where
  "goerr_Error EOF = ''EOF''"
| "goerr_Error UnexpectedEOF = ''unexpected EOF''"
| "goerr_Error ShortBuffer = ''short buffer''"
| "goerr_Error (NetErr s) = s"
| "goerr_Error (ErrNew s) = s"

definition Errorf_w :: "goerr \<Rightarrow> string \<Rightarrow> goerr" where
  "Errorf_w e s = ErrNew (goerr_Error e @ '': '' @ s)"

definition HasSuffix :: "string \<Rightarrow> string \<Rightarrow> bool" where
  "HasSuffix s p \<longleftrightarrow> HasPrefix (rev s) (rev p)"

text \<open>\<^verbatim>\<open>strings.Cut\<close> and \<^verbatim>\<open>strings.TrimSuffix\<close>.\<close>

definition strings_Cut :: "string \<Rightarrow> string \<Rightarrow> string \<times> string \<times> bool" where
  "strings_Cut s sep = (case strings_Index s sep of
     Some i \<Rightarrow> (take i s, drop (i + length sep) s, True) | None \<Rightarrow> (s, '''', False))"

definition TrimSuffix :: "string \<Rightarrow> string \<Rightarrow> string" where
  "TrimSuffix s p = (if HasSuffix s p then take (length s - length p) s else s)"

lemma strings_Index_Some:
  "strings_Index s sub = Some i \<Longrightarrow> s = take i s @ sub @ drop (i + length sub) s"
proof (induction s sub arbitrary: i rule: strings_Index.induct)
  case (2 x xs sub)
  show ?case
  proof (cases "HasPrefix (x # xs) sub")
    case True
    then have "i = 0" "take (length sub) (x # xs) = sub"
      using 2(2) by (auto simp: HasPrefix_def)
    then show ?thesis
      using append_take_drop_id [of "length sub" "x # xs"] by simp
  next
    case False
    then obtain j where "strings_Index xs sub = Some j" "i = Suc j"
      using 2(2) by auto
    then show ?thesis
      using 2(1) [OF False] by simp
  qed
qed (auto split: if_splits)

lemma strings_Index_first:
  assumes "sep \<noteq> []" and "hd sep \<notin> set x"
  shows "strings_Index (x @ sep @ y) sep = Some (length x)"
  using assms(2)
proof (induction x)
  case Nil
  then show ?case
    using assms(1) by (cases sep) (auto simp: HasPrefix_def)
next
  case (Cons a x)
  then show ?case
    using HasPrefix_hd [OF assms(1), of a "x @ sep @ y"] by auto
qed

lemma strings_Cut_sep:
  "sep \<noteq> [] \<Longrightarrow> hd sep \<notin> set x \<Longrightarrow> strings_Cut (x @ sep @ y) sep = (x, y, True)"
  by (simp add: strings_Cut_def strings_Index_first)

lemma strings_Cut_found: "strings_Cut s sep = (a, b, True) \<Longrightarrow> s = a @ sep @ b"
  by (auto simp: strings_Cut_def dest: strings_Index_Some split: option.splits)

end
