(* ===== verification/Go_Net.thy ===== *)
theory Go_Net
  imports Go_Strings
begin

text \<open>
  What the sources use of package \<^verbatim>\<open>net\<close> (Go 1.20) without touching the network: host/port strings and
  textual IP addresses. An \<^verbatim>\<open>net.IP\<close> is its bytes; the nil address is the empty list.
\<close>

type_synonym IP_bytes = bytes

definition net_JoinHostPort :: "string \<Rightarrow> string \<Rightarrow> string" where
  "net_JoinHostPort host port =
     (if CHR '':'' \<in> set host then ''['' @ host @ '']:'' @ port else host @ '':'' @ port)"

definition addrErr :: "string \<Rightarrow> 'a res" where
  "addrErr why = Fail (NetErr why)"

definition net_SplitHostPort :: "string \<Rightarrow> (string \<times> string) res" where
  "net_SplitHostPort hostport =
     (case LastIndexByte hostport CHR '':'' of
        None \<Rightarrow> addrErr ''missing port in address''
      | Some i \<Rightarrow>
          (let unexpected = (\<lambda>host j k.
                 if CHR ''['' \<in> set (drop j hostport) then addrErr ''unexpected '[' in address''
                 else if CHR '']'' \<in> set (drop k hostport) then addrErr ''unexpected ']' in address''
                 else Ret (host, drop (i + 1) hostport))
           in if hd hostport = CHR ''['' then
                (case IndexByte hostport CHR '']'' of
                   None \<Rightarrow> addrErr ''missing ']' in address''
                 | Some e \<Rightarrow>
                     if e + 1 = length hostport then addrErr ''missing port in address''
                     else if e + 1 = i then unexpected (take (e - 1) (tl hostport)) 1 (e + 1)
                     else if hostport ! (e + 1) = CHR '':'' then addrErr ''too many colons in address''
                     else addrErr ''missing port in address'')
              else if CHR '':'' \<in> set (take i hostport) then addrErr ''too many colons in address''
              else unexpected (take i hostport) 0 0))"

text \<open>The code often discards the error: the strings are then empty.\<close>

definition split_or_empty :: "string \<Rightarrow> string \<times> string" where
  "split_or_empty s = (case net_SplitHostPort s of Ret hp \<Rightarrow> hp | _ \<Rightarrow> ('''', ''''))"

section \<open>IP addresses\<close>

definition v4InV6Prefix :: bytes where
  "v4InV6Prefix = replicate 10 0 @ [0xff, 0xff]"

definition To4 :: "IP_bytes \<Rightarrow> IP_bytes" where
  "To4 ip =
     (if length ip = 4 then ip
      else if length ip = 16 \<and> take 12 ip = v4InV6Prefix then drop 12 ip
      else [])"

definition IP_Equal :: "IP_bytes \<Rightarrow> IP_bytes \<Rightarrow> bool" where
  "IP_Equal ip x \<longleftrightarrow>
     (if length ip = length x then ip = x
      else if length ip = 4 \<and> length x = 16 then x = v4InV6Prefix @ ip
      else if length ip = 16 \<and> length x = 4 then ip = v4InV6Prefix @ x
      else False)"

text \<open>Decimal and hexadecimal prefixes: value, number of characters and success; \<open>0xFFFFFF\<close> is too
  big.\<close>

definition hex_digit :: "char \<Rightarrow> nat option" where
  "hex_digit c =
     (let n = of_char c in
      if 48 \<le> n \<and> n \<le> 57 then Some (n - 48)
      else if 97 \<le> n \<and> n \<le> 102 then Some (n - 97 + 10)
      else if 65 \<le> n \<and> n \<le> 70 then Some (n - 65 + 10)
      else None)"

fun dtoi_loop :: "nat \<Rightarrow> nat \<Rightarrow> string \<Rightarrow> nat \<times> nat \<times> bool" where
  "dtoi_loop n i [] = (n, i, 0 < i)"
| "dtoi_loop n i (c # cs) =
     (if \<not> is_digit c then (n, i, 0 < i)
      else if 0xFFFFFF \<le> n * 10 + digit c then (0xFFFFFF, i, False)
      else dtoi_loop (n * 10 + digit c) (Suc i) cs)"

definition dtoi :: "string \<Rightarrow> nat \<times> nat \<times> bool" where
  "dtoi s = dtoi_loop 0 0 s"

fun xtoi_loop :: "nat \<Rightarrow> nat \<Rightarrow> string \<Rightarrow> nat \<times> nat \<times> bool" where
  "xtoi_loop n i [] = (n, i, 0 < i)"
| "xtoi_loop n i (c # cs) =
     (case hex_digit c of
        None \<Rightarrow> (n, i, 0 < i)
      | Some d \<Rightarrow>
          if 0xFFFFFF \<le> n * 16 + d then (0, i, False) else xtoi_loop (n * 16 + d) (Suc i) cs)"

definition xtoi :: "string \<Rightarrow> nat \<times> nat \<times> bool" where
  "xtoi s = xtoi_loop 0 0 s"

text \<open>\<open>parse_octets k first s\<close> reads \<open>k\<close> more octets, as the loop of \<^verbatim>\<open>parseIPv4\<close> does.\<close>

fun parse_octets :: "nat \<Rightarrow> bool \<Rightarrow> string \<Rightarrow> bytes option" where
  "parse_octets 0 first s = (if s = [] then Some [] else None)"
| "parse_octets (Suc k) first s =
     (if s = [] then None
      else if \<not> first \<and> hd s \<noteq> CHR ''.'' then None
      else
        let s = (if first then s else tl s); (n, c, ok) = dtoi s
        in if \<not> ok \<or> 0xFF < n then None
           else if 1 < c \<and> hd s = CHR ''0'' then None
           else map_option ((#) (of_nat n)) (parse_octets k False (drop c s)))"

definition parseIPv4 :: "string \<Rightarrow> IP_bytes" where
  "parseIPv4 s = (case parse_octets 4 True s of None \<Rightarrow> [] | Some p \<Rightarrow> v4InV6Prefix @ p)"

text \<open>The loop of \<^verbatim>\<open>parseIPv6\<close>: \<open>acc\<close> holds the first \<open>i\<close> bytes; the result is what is parsed, the
  place of the ellipsis and the rest of the string.\<close>

function parseIPv6_loop :: "bytes \<Rightarrow> nat option \<Rightarrow> string \<Rightarrow> (bytes \<times> nat option \<times> string) option" where
  "parseIPv6_loop acc ell s =
     (if 16 \<le> length acc then Some (acc, ell, s)
      else
        let (n, c, ok) = xtoi s
        in if \<not> ok \<or> 0xFFFF < n then None
           else if c < length s \<and> s ! c = CHR ''.'' then
             (if ell = None \<and> length acc \<noteq> 12 then None
              else if 16 < length acc + 4 then None
              else if parseIPv4 s = [] then None
              else Some (acc @ drop 12 (parseIPv4 s), ell, []))
           else
             let acc' = acc @ [of_nat (n div 256), of_nat (n mod 256)]; s' = drop c s
             in if s' = [] then Some (acc', ell, [])
                else if hd s' \<noteq> CHR '':'' \<or> length s' = 1 then None
                else if hd (tl s') = CHR '':'' then
                  (if ell \<noteq> None then None
                   else if tl (tl s') = [] then Some (acc', Some (length acc'), [])
                   else parseIPv6_loop acc' (Some (length acc')) (tl (tl s')))
                else parseIPv6_loop acc' ell (tl s'))"
  by pat_completeness auto
termination
  by (relation "measure (\<lambda>(acc, ell, s). 16 - length acc)") auto

declare parseIPv6_loop.simps [simp del]

definition parseIPv6 :: "string \<Rightarrow> IP_bytes" where
  "parseIPv6 s =
     (let lead = HasPrefix s ''::''
      in if s = ''::'' then replicate 16 0
         else
           (case parseIPv6_loop [] (if lead then Some 0 else None) (if lead then drop 2 s else s) of
              None \<Rightarrow> []
            | Some (acc, ell, rest) \<Rightarrow>
                if rest \<noteq> [] then []
                else if length acc < 16 then
                  (case ell of
                     None \<Rightarrow> []
                   | Some e \<Rightarrow> take e acc @ replicate (16 - length acc) 0 @ drop e acc)
                else if ell \<noteq> None then []
                else acc))"

text \<open>The first dot or colon decides the family; \<open>IPv4len\<close> or \<open>IPv6len\<close> is returned with it.\<close>

fun ip_family :: "string \<Rightarrow> nat" where
  "ip_family [] = 0"
| "ip_family (c # cs) = (if c = CHR ''.'' then 4 else if c = CHR '':'' then 16 else ip_family cs)"

definition net_ParseIP :: "string \<Rightarrow> IP_bytes" where
  "net_ParseIP s = (if ip_family s = 4 then parseIPv4 s else if ip_family s = 16 then parseIPv6 s else [])"

record IPNet =
  net_IP :: IP_bytes
  net_Mask :: bytes

definition CIDRMask :: "nat \<Rightarrow> nat \<Rightarrow> bytes" where
  "CIDRMask ones bits =
     map (\<lambda>i. if 8 * i + 8 \<le> ones then 0xff
              else if 8 * i < ones then NOT (drop_bit (ones - 8 * i) 0xff) else 0) [0..<bits div 8]"

definition IP_Mask :: "IP_bytes \<Rightarrow> bytes \<Rightarrow> IP_bytes" where
  "IP_Mask ip msk =
     (let msk = (if length msk = 16 \<and> length ip = 4 \<and> take 12 msk = replicate 12 0xff
                  then drop 12 msk else msk);
          ip = (if length msk = 4 \<and> length ip = 16 \<and> take 12 ip = v4InV6Prefix
                then drop 12 ip else ip)
      in if length ip \<noteq> length msk then [] else map2 (AND) ip msk)"

definition net_ParseCIDR :: "string \<Rightarrow> IPNet res" where
  "net_ParseCIDR s =
     (let bad = Fail (NetErr ''invalid CIDR address'')
      in case IndexByte s CHR ''/'' of
           None \<Rightarrow> bad
         | Some i \<Rightarrow>
             let addr = take i s; msk = drop (i + 1) s;
                 iplen = ip_family addr; ip = net_ParseIP addr; (n, c, ok) = dtoi msk
             in if ip = [] \<or> \<not> ok \<or> c \<noteq> length msk \<or> 8 * iplen < n then bad
                else let m = CIDRMask n (8 * iplen) in Ret \<lparr>net_IP = IP_Mask ip m, net_Mask = m\<rparr>)"

text \<open>\<^verbatim>\<open>networkNumberAndMask\<close> and \<^verbatim>\<open>IPNet.Contains\<close>.\<close>

definition networkNumberAndMask :: "IPNet \<Rightarrow> bytes \<times> bytes" where
  "networkNumberAndMask n =
     (let ip = (if To4 (net_IP n) \<noteq> [] then To4 (net_IP n) else net_IP n); m = net_Mask n
      in if length ip \<noteq> 4 \<and> length ip \<noteq> 16 then ([], [])
         else if length m = 4 then (if length ip \<noteq> 4 then ([], []) else (ip, m))
         else if length m = 16 then (ip, if length ip = 4 then drop 12 m else m)
         else ([], []))"

definition IPNet_Contains :: "IPNet \<Rightarrow> IP_bytes \<Rightarrow> bool" where
  "IPNet_Contains n ip =
     (let (nn, m) = networkNumberAndMask n; ip = (if To4 ip \<noteq> [] then To4 ip else ip)
      in length ip = length nn \<and> map2 (AND) nn m = map2 (AND) ip m)"

section \<open>IP.String\<close>

fun hex_chars :: "nat \<Rightarrow> string" where
  "hex_chars n =
     (let d = n mod 16; c = (if d < 10 then char_of (48 + d) else char_of (87 + d))
      in if n < 16 then [c] else hex_chars (n div 16) @ [c])"

declare hex_chars.simps [simp del]

definition v4_String :: "bytes \<Rightarrow> string" where
  "v4_String ip = concat (map (\<lambda>i. (if i = 0 then '''' else ''.'') @ FormatUint (unat (ip ! i))) [0..<4])"

text \<open>The longest run of zero groups of length at least two, the first of them: the search of
  \<^verbatim>\<open>IP.String\<close> over the sixteen-bit groups \<open>gs\<close>.\<close>

definition zero_run :: "nat list \<Rightarrow> nat \<Rightarrow> nat" where
  "zero_run gs i = length (takeWhile (\<lambda>g. g = 0) (drop i gs))"

definition longest_run :: "nat list \<Rightarrow> nat \<times> nat" where
  "longest_run gs =
     fold (\<lambda>i (e, l). if l < zero_run gs i then (i, zero_run gs i) else (e, l)) [0..<length gs] (0, 1)"

fun v6_groups :: "nat list \<Rightarrow> string" where
  "v6_groups [] = ''''"
| "v6_groups [g] = hex_chars g"
| "v6_groups (g # gs) = hex_chars g @ '':'' @ v6_groups gs"

definition v6_String :: "bytes \<Rightarrow> string" where
  "v6_String ip =
     (let gs = map (\<lambda>i. 256 * unat (ip ! (2 * i)) + unat (ip ! (2 * i + 1))) [0..<8]; (e, l) = longest_run gs
      in if l \<le> 1 then v6_groups gs
         else v6_groups (take e gs) @ ''::'' @ v6_groups (drop (e + l) gs))"

definition IP_String :: "IP_bytes \<Rightarrow> string" where
  "IP_String ip =
     (if ip = [] then ''<nil>''
      else if length ip \<noteq> 4 \<and> length ip \<noteq> 16 then
        ''?'' @ concat (map (\<lambda>b. [last (hex_chars (unat b div 16)), last (hex_chars (unat b))]) ip)
      else if To4 ip \<noteq> [] then v4_String (To4 ip)
      else v6_String ip)"

section \<open>Facts\<close>

lemma SplitHostPort_JoinHostPort:
  assumes "CHR ''['' \<notin> set host" "CHR '']'' \<notin> set host"
    and "CHR ''['' \<notin> set port" "CHR '']'' \<notin> set port" "CHR '':'' \<notin> set port"
  shows "net_SplitHostPort (net_JoinHostPort host port) = Ret (host, port)"
proof (cases "CHR '':'' \<in> set host")
  case True
  have i: "LastIndexByte (''['' @ host @ '']:'' @ port) CHR '':'' = Some (length host + 2)"
    using LastIndexByte_app [of "CHR '':''" port "''['' @ host @ '']''"] assms by simp
  have e: "IndexByte (''['' @ host @ '']:'' @ port) CHR '']'' = Some (length host + 1)"
    using IndexByte_app [of "CHR '']''" "''['' @ host" "'':'' @ port"] assms by simp
  show ?thesis
    using True assms i e by (simp add: net_JoinHostPort_def net_SplitHostPort_def)
next
  case False
  have i: "LastIndexByte (host @ '':'' @ port) CHR '':'' = Some (length host)"
    using LastIndexByte_app [of "CHR '':''" port host] assms by simp
  have "hd (host @ '':'' @ port) \<noteq> CHR ''[''"
    using assms by (cases host) auto
  then show ?thesis
    using False assms i by (simp add: net_JoinHostPort_def net_SplitHostPort_def)
qed

lemma dtoi_loop_digits:
  "dtoi_loop n i xs = (m, j, True) \<Longrightarrow> (\<forall>x \<in> set xs. is_digit x) \<Longrightarrow> \<not> is_digit c \<Longrightarrow>
   dtoi_loop n i (xs @ c # ys) = (m, j, True)"
  by (induction n i xs rule: dtoi_loop.induct) (auto split: if_splits)

lemma dtoi_loop_snoc:
  "dtoi_loop n i xs = (m, j, True) \<Longrightarrow> (\<forall>x \<in> set xs. is_digit x) \<Longrightarrow> is_digit c \<Longrightarrow>
   m * 10 + digit c < 0xFFFFFF \<Longrightarrow> dtoi_loop n i (xs @ [c]) = (m * 10 + digit c, Suc j, True)"
  by (induction n i xs rule: dtoi_loop.induct) (auto split: if_splits)

lemma dtoi_FormatUint: "n < 0xFFFFFF \<Longrightarrow> dtoi (FormatUint n) = (n, length (FormatUint n), True)"
proof (induction n rule: FormatUint.induct)
  case (1 n)
  show ?case
  proof (cases "n < 10")
    case True
    then show ?thesis
      by (simp add: FormatUint.simps [of n] dtoi_def)
  next
    case False
    then have IH: "dtoi (FormatUint (n div 10)) = (n div 10, length (FormatUint (n div 10)), True)"
      using 1 by simp
    have "n div 10 * 10 + n mod 10 = n"
      by simp
    then show ?thesis
      using IH False 1(2) dtoi_loop_snoc [of 0 0 "FormatUint (n div 10)" _ _ "char_of (48 + n mod 10)"]
        FormatUint_digits FormatUint.simps [of n]
      by (simp add: dtoi_def)
  qed
qed

lemma FormatUint_hd_0: "hd (FormatUint n) = CHR ''0'' \<Longrightarrow> n = 0"
proof (induction n rule: FormatUint.induct)
  case (1 n)
  have char0: "d < 10 \<Longrightarrow> char_of (48 + d) = CHR ''0'' \<Longrightarrow> d = 0" for d :: nat
    using digit_char(2) [of d] by (simp add: digit_def)
  show ?case
  proof (cases "n < 10")
    case True
    then show ?thesis
      using 1(2) char0 by (simp add: FormatUint.simps [of n])
  next
    case False
    then show ?thesis
      using 1 by (simp add: FormatUint.simps [of n])
  qed
qed

lemma parse_octets_FormatUint:
  assumes n: "n \<le> 0xFF" and rest: "rest = [] \<or> (\<exists>c cs. rest = c # cs \<and> \<not> is_digit c)"
  shows "parse_octets (Suc k) first ((if first then '''' else ''.'') @ FormatUint n @ rest) =
         map_option ((#) (of_nat n)) (parse_octets k False rest)"
proof -
  have "dtoi_loop 0 0 (FormatUint n @ rest) = (n, length (FormatUint n), True)"
    using dtoi_FormatUint [of n] n rest dtoi_loop_digits [of 0 0 "FormatUint n" n] FormatUint_digits
    by (auto simp: dtoi_def)
  moreover have "\<not> (1 < length (FormatUint n) \<and> hd (FormatUint n) = CHR ''0'')"
    using FormatUint_hd_0 [of n] by (auto simp: FormatUint.simps [of 0])
  ultimately show ?thesis
    using n by (auto simp: dtoi_def)
qed

lemma length_4_exhaust: "length xs = 4 \<Longrightarrow> \<exists>a b c d. xs = [a, b, c, d]"
  by (auto simp: numeral_eq_Suc length_Suc_conv)


definition ends_octet :: "string \<Rightarrow> bool" where
  "ends_octet rest \<longleftrightarrow> rest = [] \<or> (\<exists>c cs. rest = c # cs \<and> \<not> is_digit c)"

lemma v4_String_eq:
  "v4_String [a, b, c, d] = FormatUint (unat a) @ ''.'' @ FormatUint (unat b) @ ''.'' @
     FormatUint (unat c) @ ''.'' @ FormatUint (unat d)"
  by (simp add: v4_String_def upt_rec numeral_eq_Suc)

lemma parse_octets_v4_String:
  assumes "length ip = 4" and rest: "ends_octet rest"
  shows "parse_octets 4 True (v4_String ip @ rest) = (if rest = [] then Some ip else None)"
proof -
  obtain a b c d where ip: "ip = [a, b, c, d]"
    using length_4_exhaust [OF assms(1)] by blast
  let ?d = "\<lambda>x :: byte. FormatUint (unat x)"
  have le: "unat x \<le> 0xFF" for x :: byte
    using uint_lt2p_nat [of x] by simp
  have dot: "\<exists>c cs. ''.'' @ s = c # cs \<and> \<not> is_digit c" for s
    using not_digit by simp
  show ?thesis
    using parse_octets_FormatUint [OF le [of a], of "''.'' @ ?d b @ ''.'' @ ?d c @ ''.'' @ ?d d @ rest" 3 True]
      parse_octets_FormatUint [OF le [of b], of "''.'' @ ?d c @ ''.'' @ ?d d @ rest" 2 False]
      parse_octets_FormatUint [OF le [of c], of "''.'' @ ?d d @ rest" 1 False]
      parse_octets_FormatUint [OF le [of d], of rest 0 False] dot rest
    unfolding ip v4_String_eq
    by (simp add: ends_octet_def numeral_eq_Suc del: parse_octets.simps(2))
qed

lemma ip_family_v4_String:
  assumes "length ip = 4"
  shows "ip_family (v4_String ip @ rest) = 4"
proof -
  have dotted: "ip_family (xs @ CHR ''.'' # ys) = 4" if "\<forall>x \<in> set xs. is_digit x" for xs ys
    using that not_digit by (induction xs) auto
  obtain a b c d where "ip = [a, b, c, d]"
    using length_4_exhaust [OF assms] by blast
  then show ?thesis
    using dotted FormatUint_digits by (simp add: v4_String_eq)
qed

lemma v4_String_chars:
  "length ip = 4 \<Longrightarrow> x \<in> set (v4_String ip) \<Longrightarrow> is_digit x \<or> x = CHR ''.''"
  by (auto simp: v4_String_def dest: FormatUint_digits split: if_splits)

lemma ParseIP_v4_String: "length ip = 4 \<Longrightarrow> net_ParseIP (v4_String ip) = v4InV6Prefix @ ip"
  using parse_octets_v4_String [of ip "[]"] ip_family_v4_String [of ip "[]"]
  by (simp add: net_ParseIP_def parseIPv4_def ends_octet_def)

lemma To4_v4InV6 [simp]: "length ip = 4 \<Longrightarrow> To4 (v4InV6Prefix @ ip) = ip"
  by (simp add: To4_def v4InV6Prefix_def)

lemma length_v4InV6Prefix [simp]: "length v4InV6Prefix = 12" "v4InV6Prefix \<noteq> []"
  by (simp_all add: v4InV6Prefix_def)

lemma v4_host_port:
  assumes "length ip = 4" and "\<forall>c \<in> set port. is_digit c"
  shows "net_JoinHostPort (v4_String ip) port = v4_String ip @ '':'' @ port"
    and "net_SplitHostPort (v4_String ip @ '':'' @ port) = Ret (v4_String ip, port)"
proof -
  have no: "c \<notin> set (v4_String ip)" if "\<not> is_digit c" "c \<noteq> CHR ''.''" for c
    using v4_String_chars [OF assms(1)] that by blast
  show join: "net_JoinHostPort (v4_String ip) port = v4_String ip @ '':'' @ port"
    using no [of "CHR '':''"] not_digit by (simp add: net_JoinHostPort_def)
  have "net_SplitHostPort (net_JoinHostPort (v4_String ip) port) = Ret (v4_String ip, port)"
    using no assms(2) not_digit by (intro SplitHostPort_JoinHostPort) auto
  then show "net_SplitHostPort (v4_String ip @ '':'' @ port) = Ret (v4_String ip, port)"
    by (simp add: join)
qed

lemma IP_String_v4: "length ip = 4 \<Longrightarrow> IP_String (v4InV6Prefix @ ip) = v4_String ip" "length ip = 4 \<Longrightarrow> IP_String ip = v4_String ip"
  by (auto simp: IP_String_def To4_def v4InV6Prefix_def)

section \<open>CIDR blocks\<close>

definition cidr_String :: "bytes \<Rightarrow> nat \<Rightarrow> string" where
  "cidr_String net n = v4_String net @ ''/'' @ FormatUint n"

text \<open>The first \<open>n\<close> bits of two addresses, in network order, agree.\<close>

definition prefix_agree :: "nat \<Rightarrow> bytes \<Rightarrow> bytes \<Rightarrow> bool" where
  "prefix_agree n a b \<longleftrightarrow> (\<forall>j < n. bit (a ! (j div 8)) (7 - j mod 8) = bit (b ! (j div 8)) (7 - j mod 8))"

lemma prefix_agree_code:
  "prefix_agree n a b \<longleftrightarrow> list_all (\<lambda>j. bit (a ! (j div 8)) (7 - j mod 8) = bit (b ! (j div 8)) (7 - j mod 8)) [0..<n]"
  by (auto simp: prefix_agree_def list_all_iff)

lemma bit_ff: "bit (255 :: byte) m \<longleftrightarrow> m < 8"
proof -
  have "(255 :: byte) = mask 8"
    by (simp add: mask_eq_exp_minus_1)
  then show ?thesis
    by (simp only: bit_mask_iff) auto
qed

lemma bit_CIDRMask:
  assumes "i < bits div 8" and "k < 8"
  shows "bit (CIDRMask n bits ! i) k \<longleftrightarrow> 8 * i + (7 - k) < n"
proof -
  have "CIDRMask n bits ! i = (if 8 * i + 8 \<le> n then 255
      else if 8 * i < n then NOT (drop_bit (n - 8 * i) 255) else 0)"
    using assms by (simp add: CIDRMask_def)
  moreover have "bit (NOT (drop_bit m 255) :: byte) k \<longleftrightarrow> 8 \<le> m + k" for m
    using assms by (simp only: bit_not_iff bit_drop_bit_eq bit_ff comp_def not_less) auto
  ultimately show ?thesis
    using assms bit_ff [of k] by (simp split: if_splits) arith
qed

lemma byte_eq_iff: "(x :: byte) = y \<longleftrightarrow> (\<forall>k < 8. bit x k = bit y k)"
  by (auto intro: bit_word_eqI)

lemma nth_bits_split: "(\<forall>j < 32. P (j div 8) (7 - j mod 8)) \<longleftrightarrow> (\<forall>i < 4. \<forall>k < (8::nat). P i k)"
proof (intro iffI allI impI)
  fix i k :: nat
  assume all: "\<forall>j < 32. P (j div 8) (7 - j mod 8)" and "i < 4" "k < 8"
  then have "P ((8 * i + (7 - k)) div 8) (7 - (8 * i + (7 - k)) mod 8)"
    by (intro all [rule_format]) simp
  moreover have "(8 * i + d) div 8 = i \<and> (8 * i + d) mod 8 = d" if "d < 8" for d
    using that by simp
  ultimately show "P i k"
    using \<open>k < 8\<close> by (simp add: diff_diff_cancel less_Suc_eq_le del: add_diff_assoc)
qed auto

lemma mask_agree:
  assumes "length a = 4" and "length b = 4" and "n \<le> 32"
  shows "map2 (AND) a (CIDRMask n 32) = map2 (AND) b (CIDRMask n 32) \<longleftrightarrow> prefix_agree n a b"
proof -
  let ?m = "CIDRMask n 32"
  have len: "length ?m = 4"
    by (simp add: CIDRMask_def)
  have "map2 (AND) a ?m = map2 (AND) b ?m \<longleftrightarrow> (\<forall>i < 4. a ! i AND ?m ! i = b ! i AND ?m ! i)"
    using assms len by (simp add: list_eq_iff_nth_eq)
  also have "\<dots> \<longleftrightarrow> (\<forall>i < 4. \<forall>k < 8. 8 * i + (7 - k) < n \<longrightarrow> bit (a ! i) k = bit (b ! i) k)"
    by (auto simp: byte_eq_iff bit_and_iff bit_CIDRMask)
  also have "\<dots> \<longleftrightarrow> (\<forall>j < 32. j < n \<longrightarrow> bit (a ! (j div 8)) (7 - j mod 8) = bit (b ! (j div 8)) (7 - j mod 8))"
  proof -
    have *: "8 * (j div 8) + (7 - (7 - j mod 8)) = j" for j :: nat
      using mod_less_divisor [of 8 j] by (simp add: diff_diff_cancel less_Suc_eq_le)
    show ?thesis
      unfolding nth_bits_split [symmetric] * ..
  qed
  also have "\<dots> \<longleftrightarrow> prefix_agree n a b"
    using assms(3) by (auto simp: prefix_agree_def)
  finally show ?thesis .
qed

lemma is_digit_slash: "\<not> is_digit CHR ''/''"
  by (simp add: is_digit_def)

lemma ParseIP_cidr_String: "length net = 4 \<Longrightarrow> net_ParseIP (cidr_String net n) = []"
  using parse_octets_v4_String [of net "''/'' @ FormatUint n"] ip_family_v4_String [of net "''/'' @ FormatUint n"]
    is_digit_slash
  by (simp add: cidr_String_def net_ParseIP_def parseIPv4_def ends_octet_def)

lemma length_CIDRMask_32 [simp]: "length (CIDRMask n 32) = 4"
  by (simp add: CIDRMask_def)

lemma ParseCIDR_cidr_String:
  assumes "length net = 4" and "n \<le> 32"
  shows "net_ParseCIDR (cidr_String net n) =
         Ret \<lparr>net_IP = map2 (AND) net (CIDRMask n 32), net_Mask = CIDRMask n 32\<rparr>"
proof -
  have "CHR ''/'' \<notin> set (v4_String net)"
    using v4_String_chars [OF assms(1)] is_digit_slash by auto
  then have i: "IndexByte (cidr_String net n) CHR ''/'' = Some (length (v4_String net))"
    by (simp add: cidr_String_def IndexByte_app)
  have "IP_Mask (v4InV6Prefix @ net) (CIDRMask n 32) = map2 (AND) net (CIDRMask n 32)"
    using assms by (simp add: IP_Mask_def)
  then show ?thesis
    using i assms ip_family_v4_String [OF assms(1), of "[]"] ParseIP_v4_String [OF assms(1)]
      dtoi_FormatUint [of n]
    by (simp add: net_ParseCIDR_def cidr_String_def Let_def)
qed

lemma Contains_cidr:
  assumes "length net = 4" and "length ip = 4" and "n \<le> 32"
  shows "IPNet_Contains \<lparr>net_IP = map2 (AND) net (CIDRMask n 32), net_Mask = CIDRMask n 32\<rparr> (v4InV6Prefix @ ip) =
         prefix_agree n net ip"
proof -
  let ?m = "CIDRMask n 32"
  have idem: "map2 (AND) (map2 (AND) net ?m) ?m = map2 (AND) net ?m"
    using assms(1) by (simp add: list_eq_iff_nth_eq and.assoc)
  have "To4 (map2 (AND) net ?m) = map2 (AND) net ?m" "map2 (AND) net ?m \<noteq> []" "ip \<noteq> []"
    using assms by (auto simp: To4_def dest!: arg_cong [where f = length])
  then show ?thesis
    using assms idem mask_agree [OF assms]
    by (simp add: IPNet_Contains_def networkNumberAndMask_def Let_def)
qed

end
