(* ===== verification/Conf.thy ===== *)
theory Conf
  imports Go_Net
begin

text \<open>
  Package \<^verbatim>\<open>internal/conf\<close>: the configuration, how it is loaded and what a change of the file does.
  A Go slice that the code compares with nil is an option of a list. \<^verbatim>\<open>Mode\<close> is an \<open>int\<close> as in the
  source (the configuration file may set it). The library calls are parameters: what
  \<^verbatim>\<open>viper.ReadInConfig\<close> returns, the function \<^verbatim>\<open>viper.Unmarshal\<close> applies to the initial structure,
  \<^verbatim>\<open>logrus.ParseLevel\<close>, and \<^verbatim>\<open>tls.LoadX509KeyPair\<close>.
\<close>

definition DirectMode :: int where "DirectMode = 0"
definition ClientMode :: int where "ClientMode = 1"
definition ServerMode :: int where "ServerMode = 2"

record TLS =
  Enable :: bool
  Key :: string
  Cert :: string

record Server =
  Host :: string
  srv_Port :: int
  Token :: string

record User =
  UserName :: string
  Password :: string
  CIDR :: "string list option"

record Log =
  Filename :: string
  Level :: string
  MaxBackups :: int
  MaxSize :: int
  MaxAge :: int
  Compress :: bool

text \<open>The fields of \<^verbatim>\<open>tls.Config\<close> that the sources set; protocol, curve and suite identifiers are numbers,
  a certificate is opaque.\<close>

record tls_Config =
  InsecureSkipVerify :: bool
  MinVersion :: nat
  CurvePreferences :: "nat list"
  CipherSuites :: "nat list"
  Certificates :: "string list"

record Config =
  Local :: Server
  Server :: Server
  Api :: Server
  TLS :: TLS
  Timeout :: int
  cfg_CIDR :: "string list"
  Users :: "User list option"
  Log :: Log
  Mode :: int
  TLSConf :: tls_Config

section \<open>Loading\<close>

text \<open>The structure \<^verbatim>\<open>viperLoadConf\<close> hands to \<^verbatim>\<open>viper.Unmarshal\<close>: the literal of the source, zero values
  elsewhere. The TLS identifiers are those of package \<^verbatim>\<open>crypto/tls\<close>.\<close>

definition zero_Server :: Server where
  "zero_Server = \<lparr>Host = '''', srv_Port = 0, Token = ''''\<rparr>"

definition initial_Config :: Config where
  "initial_Config = \<lparr>
     Local = zero_Server, Server = zero_Server, Api = zero_Server,
     TLS = \<lparr>Enable = False, Key = '''', Cert = ''''\<rparr>,
     Timeout = 0, cfg_CIDR = [], Users = None,
     Log = \<lparr>Filename = '''', Level = ''info'', MaxBackups = 7, MaxSize = 500, MaxAge = 28, Compress = True\<rparr>,
     Mode = DirectMode,
     TLSConf = \<lparr>InsecureSkipVerify = True, MinVersion = 0x0304, CurvePreferences = [25, 24, 23],
       CipherSuites = [0xc030, 0xc014, 0x009d, 0x0035], Certificates = []\<rparr>\<rparr>"

record lumberjack_Logger =
  lj_Filename :: string
  lj_MaxBackups :: int
  lj_MaxSize :: int
  lj_MaxAge :: int
  lj_Compress :: bool
  lj_LocalTime :: bool

datatype log_sink = Stdout | Logger lumberjack_Logger

text \<open>The package's variables, logrus' level and output, and whether the file is watched and the daily
  rotation is running.\<close>

record conf_state =
  App :: "Config option"
  logOutput :: "lumberjack_Logger option"
  log_level :: nat
  log_sink :: log_sink
  watching :: bool
  cron_on :: bool
  rotations :: nat

record libs =
  ReadInConfig :: "unit res"
  Unmarshal :: "Config \<Rightarrow> Config res"
  ParseLevel :: "string \<Rightarrow> nat res"
  InfoLevel :: nat
  LoadX509KeyPair :: "string \<Rightarrow> string \<Rightarrow> string res"

definition viperLoadConf :: "libs \<Rightarrow> conf_state \<Rightarrow> unit res \<times> conf_state" where
  "viperLoadConf L st =
     (case ReadInConfig L of
        Ret _ \<Rightarrow>
          (case Unmarshal L initial_Config of
             Ret conf \<Rightarrow> (Ret (), st\<lparr>App := Some conf\<rparr>)
           | Fail e \<Rightarrow> (Fail e, st)
           | Panic \<Rightarrow> (Panic, st))
      | Fail e \<Rightarrow> (Fail e, st)
      | Panic \<Rightarrow> (Panic, st))"

definition logger_of :: "Log \<Rightarrow> lumberjack_Logger" where
  "logger_of l = \<lparr>lj_Filename = Filename l, lj_MaxBackups = MaxBackups l, lj_MaxSize = MaxSize l,
     lj_MaxAge = MaxAge l, lj_Compress = Compress l, lj_LocalTime = True\<rparr>"

text \<open>\<^verbatim>\<open>(*Config).reload\<close> sets up the log; it always returns nil.\<close>

definition reload :: "libs \<Rightarrow> Config \<Rightarrow> conf_state \<Rightarrow> unit res \<times> conf_state" where
  "reload L c st =
     (let level = (case ParseLevel L (Level (Log c)) of Ret l \<Rightarrow> l | _ \<Rightarrow> InfoLevel L);
          st = st\<lparr>log_level := level\<rparr>
      in if Filename (Log c) \<noteq> ''''
         then (Ret (), st\<lparr>logOutput := Some (logger_of (Log c)), log_sink := Logger (logger_of (Log c))\<rparr>)
         else (Ret (), st\<lparr>logOutput := None, log_sink := Stdout\<rparr>))"

text \<open>\<^verbatim>\<open>App.reload()\<close>: calling it on a nil \<^verbatim>\<open>App\<close> dereferences nil.\<close>

definition reload_App :: "libs \<Rightarrow> conf_state \<Rightarrow> unit res \<times> conf_state" where
  "reload_App L st = (case App st of None \<Rightarrow> (Panic, st) | Some c \<Rightarrow> reload L c st)"

definition Load :: "libs \<Rightarrow> conf_state \<Rightarrow> unit res \<times> conf_state" where
  "Load L st =
     (case viperLoadConf L st of
        (Ret _, st) \<Rightarrow>
          (case reload_App L (st\<lparr>watching := True\<rparr>) of
             (Ret _, st) \<Rightarrow> (Ret (), st\<lparr>cron_on := True\<rparr>)
           | r \<Rightarrow> r)
      | r \<Rightarrow> r)"

text \<open>The callback of \<^verbatim>\<open>viper.OnConfigChange\<close>, run with what the library reads then, and the daily
  rotation.\<close>

definition on_config_change :: "libs \<Rightarrow> bool \<Rightarrow> conf_state \<Rightarrow> conf_state" where
  "on_config_change L is_write st =
     (if \<not> is_write then st
      else (case viperLoadConf L st of
              (Ret _, st) \<Rightarrow> snd (reload_App L st)
            | (_, st) \<Rightarrow> st))"

definition on_daily :: "conf_state \<Rightarrow> conf_state" where
  "on_daily st = (if logOutput st \<noteq> None then st\<lparr>rotations := rotations st + 1\<rparr> else st)"

text \<open>\<open>None\<close> is \<^verbatim>\<open>logrus.Fatalln\<close>: the process exits.\<close>

definition LoadTLS :: "libs \<Rightarrow> Config \<Rightarrow> Config option" where
  "LoadTLS L c =
     (if \<not> Enable (TLS c) then Some c
      else (case LoadX509KeyPair L (Cert (TLS c)) (Key (TLS c)) of
              Ret cer \<Rightarrow>
                Some (c\<lparr>TLSConf := \<lparr>InsecureSkipVerify = True, MinVersion = 0, CurvePreferences = [],
                  CipherSuites = [], Certificates = [cer]\<rparr>\<rparr>)
            | _ \<Rightarrow> if Mode c \<noteq> ServerMode then Some c else None))"

section \<open>Facts\<close>

lemma reload_App_keeps_App [simp]: "App (snd (reload_App L st)) = App st"
  by (simp add: reload_App_def reload_def Let_def split: option.splits)

lemma on_config_change_App:
  "App (on_config_change L w st) =
     (if w \<and> ReadInConfig L = Ret () then (case Unmarshal L initial_Config of Ret c \<Rightarrow> Some c | _ \<Rightarrow> App st)
      else App st)"
  by (auto simp: on_config_change_def viperLoadConf_def split: res.splits)

lemma Load_Ret:
  "fst (Load L st) = Ret () \<Longrightarrow>
   \<exists>c. Unmarshal L initial_Config = Ret c \<and> App (snd (Load L st)) = Some c \<and>
       watching (snd (Load L st)) \<and> cron_on (snd (Load L st))"
  by (auto simp: Load_def viperLoadConf_def reload_App_def reload_def Let_def split: res.splits)

end
