(* ===== verification/Go_IO.thy ===== *)
theory Go_IO
  imports Prelude
begin

text \<open>
  Connections and \<^verbatim>\<open>io.ReadAtLeast\<close>/\<^verbatim>\<open>io.ReadFull\<close>.

  A connection holds the segments that the coming \<^verbatim>\<open>Read\<close> calls of the socket deliver (how the peer's
  bytes happen to be cut is arbitrary), what a \<^verbatim>\<open>Read\<close> meets behind them (end of file, an error, or
  silence on an open connection), and the bytes written so far. A buffered connection
  (\<^verbatim>\<open>internal/net/bufconn.go\<close>) reads the same way: \<^verbatim>\<open>bufio.Reader.Read\<close> hands out what one read of the
  socket put into its buffer.

  A call is a function from the state to an optional outcome: \<open>None\<close> is a call that never
  returns, because it waits for bytes that never come or loops. Otherwise the outcome is a
  result and the state left behind, on errors and panics too.
\<close>

datatype rd_end = AtEOF | AtErr string | Silent

record conn =
  inp :: "bytes list"
  rend :: rd_end
  outp :: bytes
  wfail :: "goerr option"
  closed :: bool
  raddr :: string

type_synonym ('a, 's) io = "'s \<Rightarrow> ('a res \<times> 's) option"

definition io_ret :: "'a \<Rightarrow> ('a, 's) io" where
  "io_ret a s = Some (Ret a, s)"

definition io_fail :: "goerr \<Rightarrow> ('a, 's) io" where
  "io_fail e s = Some (Fail e, s)"

definition io_panic :: "('a, 's) io" where
  "io_panic s = Some (Panic, s)"

definition io_bind :: "('a, 's) io \<Rightarrow> ('a \<Rightarrow> ('b, 's) io) \<Rightarrow> ('b, 's) io" where
  "io_bind m f s =
     (case m s of
        None \<Rightarrow> None
      | Some (Ret a, s') \<Rightarrow> f a s'
      | Some (Fail e, s') \<Rightarrow> Some (Fail e, s')
      | Some (Panic, s') \<Rightarrow> Some (Panic, s'))"

text \<open>\<open>io_catch\<close> runs a handler on an error; \<open>io_skip\<close> drops a result and an error
  (\<^verbatim>\<open>_, _ = conn.Write(...)\<close>).\<close>

definition io_catch :: "('a, 's) io \<Rightarrow> (goerr \<Rightarrow> ('a, 's) io) \<Rightarrow> ('a, 's) io" where
  "io_catch m h s =
     (case m s of Some (Fail e, s') \<Rightarrow> h e s' | r \<Rightarrow> r)"

definition io_skip :: "('a, 's) io \<Rightarrow> (unit, 's) io" where
  "io_skip m = io_catch (io_bind m (\<lambda>_. io_ret ())) (\<lambda>_. io_ret ())"

definition errClosed :: goerr where
  "errClosed = NetErr ''use of closed network connection''"

definition conn_Read :: "nat \<Rightarrow> (bytes, 'z conn_scheme) io" where
  "conn_Read n c =
     (if closed c then Some (Fail errClosed, c)
      else if n = 0 then Some (Ret [], c)
      else (case inp c of
              [] \<Rightarrow> (case rend c of
                       AtEOF \<Rightarrow> Some (Fail EOF, c)
                     | AtErr e \<Rightarrow> Some (Fail (NetErr e), c)
                     | Silent \<Rightarrow> None)
            | seg # rest \<Rightarrow>
                if length seg \<le> n then Some (Ret seg, c\<lparr>inp := rest\<rparr>)
                else Some (Ret (take n seg), c\<lparr>inp := drop n seg # rest\<rparr>)))"

definition conn_Write :: "bytes \<Rightarrow> (nat, 'z conn_scheme) io" where
  "conn_Write bs c =
     (if closed c then Some (Fail errClosed, c)
      else (case wfail c of
              Some e \<Rightarrow> Some (Fail e, c)
            | None \<Rightarrow> Some (Ret (length bs), c\<lparr>outp := outp c @ bs\<rparr>)))"

definition conn_Close :: "(unit, 'z conn_scheme) io" where
  "conn_Close c = Some (Ret (), c\<lparr>closed := True\<rparr>)"

text \<open>The loop of \<^verbatim>\<open>io.ReadAtLeast\<close>: \<open>acc\<close> is what the buffer of length \<open>len\<close> holds so far.\<close>

partial_function (option) read_loop ::
    "nat \<Rightarrow> nat \<Rightarrow> bytes \<Rightarrow> 'z conn_scheme \<Rightarrow> (bytes res \<times> 'z conn_scheme) option" where
  "read_loop len m acc c =
     (if m \<le> length acc then Some (Ret acc, c)
      else (case conn_Read (len - length acc) c of
              None \<Rightarrow> None
            | Some rc \<Rightarrow>
                (case fst rc of
                   Ret bs \<Rightarrow> read_loop len m (acc @ bs) (snd rc)
                 | Fail e \<Rightarrow> Some (Fail (if acc \<noteq> [] \<and> e = EOF then UnexpectedEOF else e), snd rc)
                 | Panic \<Rightarrow> Some (Panic, snd rc))))"

definition io_ReadAtLeast :: "nat \<Rightarrow> nat \<Rightarrow> (bytes, 'z conn_scheme) io" where
  "io_ReadAtLeast len m c = (if len < m then Some (Fail ShortBuffer, c) else read_loop len m [] c)"

definition io_ReadFull :: "nat \<Rightarrow> (bytes, 'z conn_scheme) io" where
  "io_ReadFull n = io_ReadAtLeast n n"

section \<open>Running the combinators\<close>

lemma io_run [simp]:
  "io_ret a s = Some (Ret a, s)"
  "io_fail e s = Some (Fail e, s)"
  "io_panic s = Some (Panic, s)"
  by (simp_all add: io_ret_def io_fail_def io_panic_def)

lemma io_bind_run [simp]:
  "m s = Some (Ret a, s') \<Longrightarrow> io_bind m f s = f a s'"
  "m s = Some (Fail e, s') \<Longrightarrow> io_bind m f s = Some (Fail e, s')"
  "m s = Some (Panic, s') \<Longrightarrow> io_bind m f s = Some (Panic, s')"
  "m s = None \<Longrightarrow> io_bind m f s = None"
  by (simp_all add: io_bind_def)

lemma io_bind_Some:
  "io_bind m f s = Some (Ret b, t) \<longleftrightarrow> (\<exists>a s'. m s = Some (Ret a, s') \<and> f a s' = Some (Ret b, t))"
  by (auto simp: io_bind_def split: option.splits res.splits)

lemma io_skip_run [simp]:
  "m s = Some (Ret a, s') \<Longrightarrow> io_skip m s = Some (Ret (), s')"
  "m s = Some (Fail e, s') \<Longrightarrow> io_skip m s = Some (Ret (), s')"
  by (simp_all add: io_skip_def io_catch_def io_bind_def)

definition written :: "bytes \<Rightarrow> 'z conn_scheme \<Rightarrow> 'z conn_scheme" where
  "written bs c = (if closed c \<or> wfail c \<noteq> None then c else c\<lparr>outp := outp c @ bs\<rparr>)"

lemma io_skip_Write [simp]: "io_skip (conn_Write bs) c = Some (Ret (), written bs c)"
  by (auto simp: io_skip_def io_catch_def io_bind_def conn_Write_def written_def split: option.splits)

section \<open>What a read loop delivers\<close>

abbreviation stream :: "'z conn_scheme \<Rightarrow> bytes" where
  "stream c \<equiv> concat (inp c)"

lemma conn_Read_whole:
  "\<not> closed c \<Longrightarrow> 0 < n \<Longrightarrow> length seg \<le> n \<Longrightarrow>
   conn_Read n (c\<lparr>inp := seg # rest\<rparr>) = Some (Ret seg, c\<lparr>inp := rest\<rparr>)"
  by (simp add: conn_Read_def)

lemma conn_Read_part:
  "\<not> closed c \<Longrightarrow> 0 < n \<Longrightarrow> n < length seg \<Longrightarrow>
   conn_Read n (c\<lparr>inp := seg # rest\<rparr>) = Some (Ret (take n seg), c\<lparr>inp := drop n seg # rest\<rparr>)"
  by (simp add: conn_Read_def)

lemma read_loop_done [simp]: "m \<le> length acc \<Longrightarrow> read_loop len m acc c = Some (Ret acc, c)"
  by (simp add: read_loop.simps)

lemma read_loop_step:
  "length acc < m \<Longrightarrow> conn_Read (len - length acc) c = Some (Ret bs, c') \<Longrightarrow>
   read_loop len m acc c = read_loop len m (acc @ bs) c'"
  by (subst read_loop.simps) simp

text \<open>Enough bytes under way: the loop returns, whatever the segmentation, a prefix of the stream that
  reaches the minimum and fits the buffer, and leaves the rest of the stream.\<close>

lemma read_loop_delivers:
  assumes "m \<le> len" and "m \<le> length acc + length (concat segs)" and "length acc \<le> len" and "\<not> closed c"
  shows "\<exists>k q. read_loop len m acc (c\<lparr>inp := segs\<rparr>) = Some (Ret (acc @ take k (concat segs)), c\<lparr>inp := q\<rparr>) \<and>
           concat q = drop k (concat segs) \<and> k \<le> length (concat segs) \<and>
           m \<le> length acc + k \<and> length acc + k \<le> len"
  using assms(2,3)
proof (induction segs arbitrary: acc)
  case Nil
  then show ?case
    by (intro exI [of _ 0] exI [of _ "[]"]) simp
next
  case (Cons seg rest)
  show ?case
  proof (cases "m \<le> length acc")
    case True
    then show ?thesis
      using Cons.prems by (intro exI [of _ 0] exI [of _ "seg # rest"]) simp
  next
    case False
    then have pos: "0 < len - length acc"
      using assms(1) by simp
    show ?thesis
    proof (cases "length seg \<le> len - length acc")
      case True
      then have fits: "length (acc @ seg) \<le> len"
        using Cons.prems by simp
      obtain k q where "read_loop len m (acc @ seg) (c\<lparr>inp := rest\<rparr>) =
            Some (Ret ((acc @ seg) @ take k (concat rest)), c\<lparr>inp := q\<rparr>)"
        and "concat q = drop k (concat rest)" "k \<le> length (concat rest)"
          "m \<le> length (acc @ seg) + k" "length (acc @ seg) + k \<le> len"
        using Cons.IH [OF _ fits] Cons.prems by auto
      then show ?thesis
        using read_loop_step [OF _ conn_Read_whole [OF assms(4) pos True, of rest], of m] \<open>\<not> m \<le> length acc\<close>
        by (intro exI [of _ "length seg + k"] exI [of _ q]) simp
    next
      case part: False
      then have "len - length acc < length seg"
        by simp
      from read_loop_step [OF _ conn_Read_part [OF assms(4) pos this, of rest], of m] show ?thesis
        using part False assms(1) Cons.prems
        by (intro exI [of _ "len - length acc"] exI [of _ "drop (len - length acc) seg # rest"]) simp
    qed
  qed
qed

text \<open>Too few bytes: the loop consumes them all and ends with what lies behind them; on a silent
  connection it never returns.\<close>

definition end_error :: "bytes \<Rightarrow> rd_end \<Rightarrow> goerr option" where
  "end_error got e = (case e of
      AtEOF \<Rightarrow> Some (if got = [] then EOF else UnexpectedEOF)
    | AtErr m \<Rightarrow> Some (NetErr m)
    | Silent \<Rightarrow> None)"

lemma read_loop_starves:
  assumes "m \<le> len" and "length acc + length (concat segs) < m" and "\<not> closed c"
  shows "read_loop len m acc (c\<lparr>inp := segs\<rparr>) =
           (case end_error (acc @ concat segs) (rend c) of
              None \<Rightarrow> None | Some e \<Rightarrow> Some (Fail e, c\<lparr>inp := []\<rparr>))"
  using assms(2)
proof (induction segs arbitrary: acc)
  case Nil
  then show ?case
    using assms by (subst read_loop.simps) (auto simp: conn_Read_def end_error_def split: rd_end.splits)
next
  case (Cons seg rest)
  then have "read_loop len m acc (c\<lparr>inp := seg # rest\<rparr>) = read_loop len m (acc @ seg) (c\<lparr>inp := rest\<rparr>)"
    using assms by (intro read_loop_step conn_Read_whole) simp_all
  then show ?case
    using Cons by simp
qed

text \<open>\<^verbatim>\<open>io.ReadFull\<close> is a function of the byte stream alone.\<close>

lemma io_ReadFull_delivers:
  assumes "n \<le> length (stream c)" and "\<not> closed c"
  obtains q where "io_ReadFull n c = Some (Ret (take n (stream c)), c\<lparr>inp := q\<rparr>)"
    and "concat q = drop n (stream c)"
proof -
  obtain k q where *: "read_loop n n [] (c\<lparr>inp := inp c\<rparr>) = Some (Ret ([] @ take k (stream c)), c\<lparr>inp := q\<rparr>)"
    "concat q = drop k (stream c)" "n \<le> k" "k \<le> n"
    using read_loop_delivers [of n n "[]" "inp c" c] assms by auto
  then have "k = n"
    by simp
  with * show thesis
    by (intro that [of q]) (simp_all add: io_ReadFull_def io_ReadAtLeast_def)
qed

lemma io_ReadFull_starves:
  assumes "length (stream c) < n" and "\<not> closed c"
  shows "io_ReadFull n c = (case end_error (stream c) (rend c) of
           None \<Rightarrow> None | Some e \<Rightarrow> Some (Fail e, c\<lparr>inp := []\<rparr>))"
  using read_loop_starves [of n n "[]" "inp c" c] assms
  by (simp add: io_ReadFull_def io_ReadAtLeast_def)

lemma io_ReadFull_closed: "closed c \<Longrightarrow> 0 < n \<Longrightarrow> io_ReadFull n c = Some (Fail errClosed, c)"
  unfolding io_ReadFull_def io_ReadAtLeast_def by (subst read_loop.simps) (simp add: conn_Read_def errClosed_def)

lemma io_ReadFull_0 [simp]: "io_ReadFull 0 c = Some (Ret [], c)"
  by (simp add: io_ReadFull_def io_ReadAtLeast_def)

lemma io_ReadFull_Some:
  assumes "io_ReadFull n c = Some (x, c')"
  shows "(\<exists>q. c' = c\<lparr>inp := q\<rparr> \<and> (\<forall>bs. x = Ret bs \<longrightarrow> n \<le> length (stream c) \<and> concat q = drop n (stream c))) \<and> x \<noteq> Panic"
proof (cases "n = 0 \<or> closed c")
  case True
  then show ?thesis
    using assms io_ReadFull_closed [of c n] by (cases "n = 0") (auto intro: exI [of _ "inp c"])
next
  case open_conn: False
  show ?thesis
  proof (cases "n \<le> length (stream c)")
    case True
    then show ?thesis
      using io_ReadFull_delivers [OF True] open_conn assms by (metis Pair_inject option.inject res.distinct(3))
  next
    case False
    then show ?thesis
      using io_ReadFull_starves [of c n] open_conn assms by (auto split: option.splits)
  qed
qed

lemma io_ReadAtLeast_delivers:
  assumes "m \<le> len" and "m \<le> length (stream c)" and "\<not> closed c"
  obtains k q where "io_ReadAtLeast len m c = Some (Ret (take k (stream c)), c\<lparr>inp := q\<rparr>)"
    and "concat q = drop k (stream c)" and "m \<le> k" and "k \<le> len" and "k \<le> length (stream c)"
  using read_loop_delivers [of m len "[]" "inp c" c] assms
  by (auto simp: io_ReadAtLeast_def)


section \<open>Hoare triples\<close>

text \<open>\<open>triple P m Q E\<close>: whenever \<open>m\<close> returns from a state with \<open>P\<close>, a result \<open>a\<close> comes with \<open>Q a\<close>, an
  error or a panic with \<open>E\<close>. It says nothing of calls that never return.\<close>

definition triple :: "('s \<Rightarrow> bool) \<Rightarrow> ('a, 's) io \<Rightarrow> ('a \<Rightarrow> 's \<Rightarrow> bool) \<Rightarrow> ('s \<Rightarrow> bool) \<Rightarrow> bool" where
  "triple P m Q E \<longleftrightarrow>
     (\<forall>s s'. P s \<longrightarrow>
        (\<forall>a. m s = Some (Ret a, s') \<longrightarrow> Q a s') \<and>
        (\<forall>e. m s = Some (Fail e, s') \<longrightarrow> E s') \<and>
        (m s = Some (Panic, s') \<longrightarrow> E s'))"

abbreviation keeps :: "('s \<Rightarrow> bool) \<Rightarrow> ('a, 's) io \<Rightarrow> bool" where
  "keeps I m \<equiv> triple I m (\<lambda>_. I) I"

named_theorems triples \<open>rules of the triples\<close>

lemma tripleD: "triple P m Q E \<Longrightarrow> P s \<Longrightarrow> m s = Some (Ret a, s') \<Longrightarrow> Q a s'"
  and tripleD_Fail: "triple P m Q E \<Longrightarrow> P s \<Longrightarrow> m s = Some (Fail e, s') \<Longrightarrow> E s'"
  and tripleD_Panic: "triple P m Q E \<Longrightarrow> P s \<Longrightarrow> m s = Some (Panic, s') \<Longrightarrow> E s'"
  unfolding triple_def by blast+

lemma triple_conseq:
  "triple P' m Q' E' \<Longrightarrow> (\<And>s. P s \<Longrightarrow> P' s) \<Longrightarrow> (\<And>a s. Q' a s \<Longrightarrow> Q a s) \<Longrightarrow> (\<And>s. E' s \<Longrightarrow> E s) \<Longrightarrow>
   triple P m Q E"
  unfolding triple_def by blast

lemma triple_ret [triples]: "(\<And>s. P s \<Longrightarrow> Q a s) \<Longrightarrow> triple P (io_ret a) Q E"
  by (simp add: triple_def)

lemma triple_fail [triples]: "(\<And>s. P s \<Longrightarrow> E s) \<Longrightarrow> triple P (io_fail e) Q E"
  by (simp add: triple_def)

lemma triple_panic [triples]: "(\<And>s. P s \<Longrightarrow> E s) \<Longrightarrow> triple P io_panic Q E"
  by (simp add: triple_def)

lemma triple_bind:
  "triple P m R E \<Longrightarrow> (\<And>a. triple (R a) (f a) Q E) \<Longrightarrow> triple P (io_bind m f) Q E"
  unfolding triple_def io_bind_def
  by (auto split: option.splits res.splits prod.splits)

lemma triple_if [triples]:
  "(b \<Longrightarrow> triple P m Q E) \<Longrightarrow> (\<not> b \<Longrightarrow> triple P m' Q E) \<Longrightarrow> triple P (if b then m else m') Q E"
  by simp

lemma triple_catch:
  "triple P m Q R \<Longrightarrow> (\<And>e. triple R (h e) Q E) \<Longrightarrow> (\<And>s. R s \<Longrightarrow> E s) \<Longrightarrow> triple P (io_catch m h) Q E"
  unfolding triple_def io_catch_def
  by (auto split: option.splits res.splits prod.splits) fastforce+

lemma keeps_skip [triples]: "keeps I m \<Longrightarrow> triple I (io_skip m) (\<lambda>_. I) I"
  unfolding io_skip_def
  by (rule triple_catch [OF triple_bind [where R = "\<lambda>_. I"]]) (auto intro: triples)

text \<open>Assertions that do not look at the byte streams.\<close>

definition stable :: "('z conn_scheme \<Rightarrow> bool) \<Rightarrow> bool" where
  "stable I \<longleftrightarrow>
     (\<forall>c q o' b. I c \<longrightarrow> I (c\<lparr>inp := q\<rparr>) \<and> I (c\<lparr>outp := o'\<rparr>) \<and> I (c\<lparr>closed := b\<rparr>))"

lemma stableD:
  "stable I \<Longrightarrow> I c \<Longrightarrow> I (c\<lparr>inp := q\<rparr>)" "stable I \<Longrightarrow> I c \<Longrightarrow> I (c\<lparr>outp := o'\<rparr>)"
  "stable I \<Longrightarrow> I c \<Longrightarrow> I (c\<lparr>closed := b\<rparr>)"
  by (simp_all add: stable_def)

lemma keeps_Read [triples]: "stable I \<Longrightarrow> keeps I (conn_Read n)"
  by (auto simp: triple_def conn_Read_def stable_def split: if_splits list.splits rd_end.splits)

lemma keeps_Write [triples]: "stable I \<Longrightarrow> keeps I (conn_Write bs)"
  by (auto simp: triple_def conn_Write_def stable_def split: if_splits option.splits)

lemma keeps_Close [triples]: "stable I \<Longrightarrow> keeps I conn_Close"
  by (auto simp: triple_def conn_Close_def stable_def)

lemma conn_Read_keeps: "stable I \<Longrightarrow> I c \<Longrightarrow> conn_Read n c = Some (r, c') \<Longrightarrow> I c'"
  by (cases r) (auto dest: tripleD [OF keeps_Read] tripleD_Fail [OF keeps_Read] tripleD_Panic [OF keeps_Read])

lemma read_loop_keeps:
  assumes "stable I" and "read_loop len m acc c = Some rc"
  shows "I c \<longrightarrow> I (snd rc)"
  by (rule read_loop.raw_induct [OF _ assms(2), of "\<lambda>len m acc c rc. I c \<longrightarrow> I (snd rc)"])
    (auto dest: conn_Read_keeps [OF assms(1)] split: if_splits option.splits res.splits)

lemma keeps_ReadAtLeast [triples]: "stable I \<Longrightarrow> keeps I (io_ReadAtLeast len m)"
  unfolding triple_def io_ReadAtLeast_def
  by (auto dest: read_loop_keeps split: if_splits res.splits)

lemma keeps_ReadFull [triples]: "stable I \<Longrightarrow> keeps I (io_ReadFull n)"
  unfolding io_ReadFull_def by (rule keeps_ReadAtLeast)

lemma ReadFull_keeps: "stable I \<Longrightarrow> I c \<Longrightarrow> io_ReadFull n c = Some (r, c') \<Longrightarrow> I c'"
  by (cases r) (auto dest: tripleD [OF keeps_ReadFull] tripleD_Fail [OF keeps_ReadFull] tripleD_Panic [OF keeps_ReadFull])

lemma triple_pre_conj: "(A \<Longrightarrow> triple P m Q E) \<Longrightarrow> triple (\<lambda>s. P s \<and> A) m Q E"
  unfolding triple_def by blast

lemma ReadFull_more:
  assumes "stream c = drop k str" and "k \<le> m" and "m \<le> length str" and "\<not> closed c"
  obtains q where "io_ReadFull (m - k) c = Some (Ret (take (m - k) (drop k str)), c\<lparr>inp := q\<rparr>)"
    and "concat q = drop m str"
proof -
  have "m - k \<le> length (stream c)"
    using assms by simp
  from io_ReadFull_delivers [OF this assms(4)] obtain q
    where "io_ReadFull (m - k) c = Some (Ret (take (m - k) (stream c)), c\<lparr>inp := q\<rparr>)"
      "concat q = drop (m - k) (stream c)"
    by blast
  then show thesis
    using assms by (intro that [of q]) simp_all
qed

text \<open>A read that finds its minimum in the first segment takes that segment.\<close>

lemma ReadAtLeast_segment:
  assumes "inp c = seg # rest" and "0 < m" and "m \<le> length seg" and "length seg \<le> len" and "\<not> closed c"
  shows "io_ReadAtLeast len m c = Some (Ret seg, c\<lparr>inp := rest\<rparr>)"
proof -
  have "conn_Read (len - length []) c = Some (Ret seg, c\<lparr>inp := rest\<rparr>)"
    using assms by (auto simp: conn_Read_def)
  then show ?thesis
    using assms read_loop_step [of "[]" m len c seg] by (simp add: io_ReadAtLeast_def)
qed

lemma written_sel [simp]:
  "inp (written bs c) = inp c" "rend (written bs c) = rend c" "wfail (written bs c) = wfail c"
  "closed (written bs c) = closed c" "raddr (written bs c) = raddr c"
  by (simp_all add: written_def)

lemma written_inp: "(written bs c)\<lparr>inp := q\<rparr> = written bs (c\<lparr>inp := q\<rparr>)"
  by (simp add: written_def)

lemma conn_Read_room:
  assumes "\<not> closed c" and "n \<le> length (stream c)"
  shows "\<exists>bs c'. conn_Read n c = Some (Ret bs, c') \<and> \<not> closed c' \<and> length bs \<le> n \<and> n \<le> length bs + length (stream c')"
proof (cases "n = 0")
  case False
  then obtain seg rest where inp: "inp c = seg # rest"
    using assms by (cases "inp c") auto
  show ?thesis
    using assms inp False by (cases "length seg \<le> n") (auto simp: conn_Read_def)
qed (use assms in \<open>auto simp: conn_Read_def\<close>)

section \<open>More input behind\<close>

text \<open>A read that succeeds also succeeds when more segments follow, and leaves them.\<close>

definition more_input :: "bytes list \<Rightarrow> 'z conn_scheme \<Rightarrow> 'z conn_scheme" where
  "more_input ds c = c\<lparr>inp := inp c @ ds\<rparr>"

lemma conn_Read_more_input:
  "conn_Read n c = Some (Ret bs, c') \<Longrightarrow> conn_Read n (more_input ds c) = Some (Ret bs, more_input ds c')"
  by (auto simp: conn_Read_def more_input_def split: if_splits list.splits rd_end.splits)

lemma read_loop_more_input:
  assumes "read_loop len m acc c = Some rc"
  shows "\<forall>bs. fst rc = Ret bs \<longrightarrow> read_loop len m acc (more_input ds c) = Some (Ret bs, more_input ds (snd rc))"
  using assms
proof (rule read_loop.raw_induct [rotated])
  fix loop len m acc and c :: "'z conn_scheme" and rc
  assume IH: "\<And>len m acc c rc. loop len m acc c = Some rc \<Longrightarrow>
      \<forall>bs. fst rc = Ret bs \<longrightarrow> read_loop len m acc (more_input ds c) = Some (Ret bs, more_input ds (snd rc))"
    and run: "(if m \<le> length acc then Some (Ret acc, c)
      else (case conn_Read (len - length acc) c of
              None \<Rightarrow> None
            | Some rc \<Rightarrow>
                (case fst rc of
                   Ret bs \<Rightarrow> loop len m (acc @ bs) (snd rc)
                 | Fail e \<Rightarrow> Some (Fail (if acc \<noteq> [] \<and> e = EOF then UnexpectedEOF else e), snd rc)
                 | Panic \<Rightarrow> Some (Panic, snd rc)))) = Some rc"
  show "\<forall>bs. fst rc = Ret bs \<longrightarrow> read_loop len m acc (more_input ds c) = Some (Ret bs, more_input ds (snd rc))"
    using run conn_Read_more_input [of "len - length acc" c _ _ ds]
    by (subst read_loop.simps) (auto split: if_splits option.splits res.splits dest: IH)
qed

lemma ReadAtLeast_more_input:
  "io_ReadAtLeast len m c = Some (Ret bs, c') \<Longrightarrow> io_ReadAtLeast len m (more_input ds c) = Some (Ret bs, more_input ds c')"
  using read_loop_more_input [of len m "[]" c "(Ret bs, c')" ds] by (auto simp: io_ReadAtLeast_def split: if_splits)

lemma more_input_run [simp]:
  "more_input ds (c\<lparr>inp := q\<rparr>) = c\<lparr>inp := q @ ds\<rparr>"
  by (simp add: more_input_def)

end
