(* ===== verification/Constant.thy ===== *)
theory Constant
  imports Go_Net Go_IO
begin

text \<open>
  Package \<^verbatim>\<open>internal/constant\<close>: the metadata of a proxied connection and the message a front end
  hands to the tunnel, and the state of one client session that the front ends work on.

  A \<^verbatim>\<open>TCPContext\<close> carries its connection, and the front ends always send the connection they
  serve: it is the connection of the session whose queue holds the context. Its functions are
  values: \<^verbatim>\<open>PreFn\<close> is one of the reply writers of the front ends, \<^verbatim>\<open>PostFn\<close> is \<^verbatim>\<open>wg.Done\<close>.
\<close>

datatype NetWork = TCP | UDP

definition NetWork_String :: "NetWork \<Rightarrow> string" where
  "NetWork_String n = (if n = TCP then ''tcp'' else ''udp'')"

datatype ctype = HTTP | HTTPCONNECT | SOCKS4 | SOCKS5

fun Type_String :: "ctype \<Rightarrow> string" where
  "Type_String HTTP = ''HTTP''"
| "Type_String HTTPCONNECT = ''HTTPS''"
| "Type_String SOCKS4 = ''Socks4''"
| "Type_String SOCKS5 = ''Socks5''"

text \<open>SOCKS address types, and the two relay kinds.\<close>

definition ATypeIPv4 :: byte where "ATypeIPv4 = 1"
definition ATypeDomainName :: byte where "ATypeDomainName = 3"
definition ATypeIPv6 :: byte where "ATypeIPv6 = 4"

datatype relay_type = Direct | Proxy

type_synonym uuid = bytes

record IP =
  Addr :: string
  Port :: int

definition constant_IP_String :: "IP \<Rightarrow> string" where
  "constant_IP_String i = net_JoinHostPort (Addr i) (FormatInt (Port i))"

record Metadata =
  ID :: uuid
  NetWork :: NetWork
  Type :: ctype
  Src :: IP
  Dest :: IP

datatype PreFn = NoPreFn | WriteReply bytes | WriteProxyHeader

datatype PostFn = NoPostFn | WgDone

record TCPContext =
  Metadata :: Metadata
  Line :: string
  PreFn :: PreFn
  PostFn :: PostFn

text \<open>The closures that fill \<^verbatim>\<open>Src\<close> and \<^verbatim>\<open>Dest\<close>: both errors are dropped.\<close>

definition IP_of :: "string \<Rightarrow> IP" where
  "IP_of s = (let (host, port) = split_or_empty s in \<lparr>Addr = host, Port = fst (ParseInt port)\<rparr>)"

section \<open>Sessions\<close>

text \<open>The connection of a client, the contexts sent on \<^verbatim>\<open>tunnel.TCPIn.In\<close> (an unbounded channel, so
  that a send never blocks) and the counter of the listener's wait group.\<close>

record session = conn +
  tcpIn :: "TCPContext list"
  wg :: int

definition send_ctx :: "TCPContext \<Rightarrow> (unit, session) io" where
  "send_ctx ctx s = Some (Ret (), s\<lparr>tcpIn := tcpIn s @ [ctx]\<rparr>)"

definition wg_Add :: "int \<Rightarrow> (unit, session) io" where
  "wg_Add d s = (if wg s + d < 0 then Some (Panic, s\<lparr>wg := wg s + d\<rparr>) else Some (Ret (), s\<lparr>wg := wg s + d\<rparr>))"

definition wg_Done :: "(unit, session) io" where
  "wg_Done = wg_Add (- 1)"

section \<open>Facts\<close>

lemma IP_of_Join:
  assumes "CHR ''['' \<notin> set host" "CHR '']'' \<notin> set host" and "p < 2 ^ 63"
  shows "IP_of (net_JoinHostPort host (FormatUint p)) = \<lparr>Addr = host, Port = int p\<rparr>"
  using assms
  by (simp add: IP_of_def split_or_empty_def SplitHostPort_JoinHostPort FormatUint_not_in not_digit
      ParseInt_FormatUint)

text \<open>The text of an address is read back as the address, for every host without brackets.\<close>

lemma IP_of_String:
  assumes "CHR ''['' \<notin> set (Addr i)" "CHR '']'' \<notin> set (Addr i)" and "0 \<le> Port i" "Port i < 2 ^ 63"
  shows "IP_of (constant_IP_String i) = i"
proof -
  have "nat (Port i) < 2 ^ 63"
    using assms by (simp add: nat_less_iff)
  then show ?thesis
    using assms IP_of_Join [of "Addr i" "nat (Port i)"]
    by (simp add: constant_IP_String_def FormatInt_def)
qed

section \<open>What a front end must not touch\<close>

text \<open>The part of a session that only the sending of a context and the wait group change.\<close>

definition rest_is :: "TCPContext list \<Rightarrow> int \<Rightarrow> string \<Rightarrow> session \<Rightarrow> bool" where
  "rest_is q w a s \<longleftrightarrow> tcpIn s = q \<and> wg s = w \<and> raddr s = a"

lemma stable_rest_is [simp, intro]: "stable (rest_is q w a)"
  by (simp add: stable_def rest_is_def)

text \<open>A Go buffer of \<open>len\<close> bytes whose first bytes have been read from the connection.\<close>

definition zbuf :: "nat \<Rightarrow> bytes \<Rightarrow> bytes" where
  "zbuf len got = got @ replicate (len - length got) 0"

lemma zbuf_nth [simp]: "i < length got \<Longrightarrow> zbuf len got ! i = got ! i"
  by (simp add: zbuf_def nth_append)

lemma zbuf_slice: "i + n \<le> length got \<Longrightarrow> take n (drop i (zbuf len got)) = take n (drop i got)"
  by (simp add: zbuf_def)

lemma drop_prefix: "xs = ys @ zs \<Longrightarrow> length ys = n \<Longrightarrow> drop n xs = zs"
  by simp

lemma take_slice: "i + n \<le> k \<Longrightarrow> take n (drop i (take k xs)) = take n (drop i xs)"
  by (simp add: take_drop min_def)

lemma written_rest [simp]: "tcpIn (written bs s) = tcpIn s" "wg (written bs s) = wg s"
  by (simp_all add: written_def)

lemma written_tcpIn: "(written bs s)\<lparr>tcpIn := q\<rparr> = written bs (s\<lparr>tcpIn := q\<rparr>)"
  by (simp add: written_def)

text \<open>The text of an IP address contains no brackets, so that it survives the joining with a port.\<close>

lemma hex_chars_no_bracket: "c \<in> set (hex_chars n) \<Longrightarrow> c \<noteq> CHR ''['' \<and> c \<noteq> CHR '']''"
proof (induction n rule: hex_chars.induct)
  case (1 n)
  have digit: "(if n mod 16 < 10 then char_of (48 + n mod 16) else char_of (87 + n mod 16)) \<noteq> d"
    if "d = CHR ''['' \<or> d = CHR '']''" for d :: char
  proof
    assume *: "(if n mod 16 < 10 then char_of (48 + n mod 16) else char_of (87 + n mod 16)) = d"
    have "n mod 16 < 16"
      by simp
    then have "of_char d = (if n mod 16 < 10 then 48 + n mod 16 else 87 + n mod 16)"
      unfolding * [symmetric] by (simp add: of_char_of)
    then show False
      using that by (auto split: if_splits)
  qed
  show ?case
    using 1 digit by (auto simp: hex_chars.simps [of n] Let_def split: if_splits)
qed

lemma v6_groups_no_bracket: "c \<in> set (v6_groups gs) \<Longrightarrow> c \<noteq> CHR ''['' \<and> c \<noteq> CHR '']''"
  by (induction gs rule: v6_groups.induct) (auto dest: hex_chars_no_bracket)

lemma IP_String_no_bracket:
  assumes "length ip = 4 \<or> length ip = 16" and "c \<in> set (IP_String ip)"
  shows "c \<noteq> CHR ''['' \<and> c \<noteq> CHR '']''"
proof (cases "To4 ip = []")
  case True
  then have "c \<in> set (v6_String ip)"
    using assms by (auto simp: IP_String_def split: if_splits)
  then show ?thesis
    by (auto simp: v6_String_def Let_def split: prod.splits if_splits dest: v6_groups_no_bracket)
next
  case False
  then have "length (To4 ip) = 4" "c \<in> set (v4_String (To4 ip))"
    using assms by (auto simp: IP_String_def To4_def split: if_splits)
  then show ?thesis
    using v4_String_chars not_digit by fastforce
qed

lemma IP_String_brackets:
  assumes "length ip = 4 \<or> length ip = 16"
  shows "CHR ''['' \<notin> set (IP_String ip)" "CHR '']'' \<notin> set (IP_String ip)"
  using IP_String_no_bracket [OF assms] by blast+

text \<open>A client that has sent these segments and waits.\<close>

definition client_session :: "bytes list \<Rightarrow> session" where
  "client_session segs = \<lparr>inp = segs, rend = Silent, outp = [], wfail = None, closed = False,
     raddr = ''10.0.0.7:4711'', tcpIn = [], wg = 1\<rparr>"

section \<open>JSON\<close>

text \<open>\<^verbatim>\<open>json.Marshal\<close> of a text of plain letters and digits puts it between quotes.\<close>

definition json_Marshal_string :: "string \<Rightarrow> string" where
  "json_Marshal_string s = CHR 0x22 # s @ [CHR 0x22]"

definition NetWork_MarshalJSON :: "NetWork \<Rightarrow> string" where
  "NetWork_MarshalJSON n = json_Marshal_string (NetWork_String n)"

definition Type_MarshalJSON :: "ctype \<Rightarrow> string" where
  "Type_MarshalJSON t = json_Marshal_string (Type_String t)"

lemma MarshalJSON_inject:
  "NetWork_MarshalJSON n = NetWork_MarshalJSON n' \<longleftrightarrow> n = n'" "Type_MarshalJSON t = Type_MarshalJSON t' \<longleftrightarrow> t = t'"
  by (cases n; cases n'; simp add: NetWork_MarshalJSON_def NetWork_String_def json_Marshal_string_def)
    (cases t; cases t'; simp add: Type_MarshalJSON_def json_Marshal_string_def)

end
