(* ===== verification/Statistic.thy ===== *)
theory Statistic
  imports Constant
begin

text \<open>
  \<^verbatim>\<open>internal/statistic\<close>: the traffic counters (\<^verbatim>\<open>manager.go\<close>) and the tracked connections (\<^verbatim>\<open>tracker.go\<close>).
  The counters are 64-bit integers that many goroutines change by atomic operations, so the manager
  is a step relation whose steps are the single atomic operations: the two additions of a push, and
  the six operations of the ticker's loop.
\<close>

type_synonym int64 = "64 word"

text \<open>Where the goroutine of \<^verbatim>\<open>handle\<close> is in its loop, with the value it has loaded.\<close>

datatype tick_pc = Waiting | LoadedUp int64 | StoredUp | ResetUp | LoadedDown int64 | StoredDown

record 'c Manager =
  connections :: "string \<rightharpoonup> 'c"
  uploadTemp :: int64
  downloadTemp :: int64
  uploadBlip :: int64
  downloadBlip :: int64
  uploadTotal :: int64
  downloadTotal :: int64

definition DefaultManager :: "'c Manager" where
  "DefaultManager = \<lparr>connections = Map.empty, uploadTemp = 0, downloadTemp = 0, uploadBlip = 0, downloadBlip = 0,
     uploadTotal = 0, downloadTotal = 0\<rparr>"

section \<open>The operations\<close>

definition Join :: "string \<Rightarrow> 'c \<Rightarrow> 'c Manager \<Rightarrow> 'c Manager" where
  "Join id_of c m = m\<lparr>connections := (connections m)(id_of \<mapsto> c)\<rparr>"

definition Leave :: "string \<Rightarrow> 'c Manager \<Rightarrow> 'c Manager" where
  "Leave id_of m = m\<lparr>connections := (connections m)(id_of := None)\<rparr>"

text \<open>\<^verbatim>\<open>PushUploaded\<close> and \<^verbatim>\<open>PushDownloaded\<close>: each two atomic additions.\<close>

definition PushUploaded1 :: "int64 \<Rightarrow> 'c Manager \<Rightarrow> 'c Manager" where
  "PushUploaded1 sz m = m\<lparr>uploadTemp := uploadTemp m + sz\<rparr>"

definition PushUploaded2 :: "int64 \<Rightarrow> 'c Manager \<Rightarrow> 'c Manager" where
  "PushUploaded2 sz m = m\<lparr>uploadTotal := uploadTotal m + sz\<rparr>"

definition PushUploaded :: "int64 \<Rightarrow> 'c Manager \<Rightarrow> 'c Manager" where
  "PushUploaded sz m = PushUploaded2 sz (PushUploaded1 sz m)"

definition PushDownloaded1 :: "int64 \<Rightarrow> 'c Manager \<Rightarrow> 'c Manager" where
  "PushDownloaded1 sz m = m\<lparr>downloadTemp := downloadTemp m + sz\<rparr>"

definition PushDownloaded2 :: "int64 \<Rightarrow> 'c Manager \<Rightarrow> 'c Manager" where
  "PushDownloaded2 sz m = m\<lparr>downloadTotal := downloadTotal m + sz\<rparr>"

definition PushDownloaded :: "int64 \<Rightarrow> 'c Manager \<Rightarrow> 'c Manager" where
  "PushDownloaded sz m = PushDownloaded2 sz (PushDownloaded1 sz m)"

definition Now :: "'c Manager \<Rightarrow> int64 \<times> int64" where
  "Now m = (uploadBlip m, downloadBlip m)"

record 'c Snapshot =
  DownloadTotal :: int64
  UploadTotal :: int64
  Connections :: "'c set"

text \<open>\<^verbatim>\<open>sync.Map.Range\<close> visits in no particular order: the connections are a set.\<close>

definition Snapshot :: "'c Manager \<Rightarrow> 'c Snapshot" where
  "Snapshot m = \<lparr>DownloadTotal = downloadTotal m, UploadTotal = uploadTotal m, Connections = ran (connections m)\<rparr>"

definition ResetStatistic :: "'c Manager \<Rightarrow> 'c Manager" where
  "ResetStatistic m = m\<lparr>uploadTemp := 0, uploadBlip := 0, uploadTotal := 0, downloadTemp := 0, downloadBlip := 0,
     downloadTotal := 0\<rparr>"

text \<open>One atomic operation of the body of \<^verbatim>\<open>handle\<close>, from one tick on.\<close>

definition tick :: "tick_pc \<Rightarrow> 'c Manager \<Rightarrow> tick_pc \<times> 'c Manager" where
  "tick pc m =
     (case pc of
        Waiting \<Rightarrow> (LoadedUp (uploadTemp m), m)
      | LoadedUp v \<Rightarrow> (StoredUp, m\<lparr>uploadBlip := v\<rparr>)
      | StoredUp \<Rightarrow> (ResetUp, m\<lparr>uploadTemp := 0\<rparr>)
      | ResetUp \<Rightarrow> (LoadedDown (downloadTemp m), m)
      | LoadedDown v \<Rightarrow> (StoredDown, m\<lparr>downloadBlip := v\<rparr>)
      | StoredDown \<Rightarrow> (Waiting, m\<lparr>downloadTemp := 0\<rparr>))"

section \<open>Interleavings\<close>

text \<open>The state of all goroutines: the ticker's place, and the pushes that have made their first addition
  only. \<open>sentUp\<close> and \<open>sentDown\<close> are the sums of everything pushed, which no operation reads.\<close>

record 'c stat_state =
  mgr :: "'c Manager"
  pc :: tick_pc
  halfUp :: "int64 list"
  halfDown :: "int64 list"
  sentUp :: int64
  sentDown :: int64

inductive stat_step :: "'c stat_state \<Rightarrow> 'c stat_state \<Rightarrow> bool" where
  up1: "stat_step s (s\<lparr>mgr := PushUploaded1 n (mgr s), halfUp := halfUp s @ [n], sentUp := sentUp s + n\<rparr>)"
| up2: "i < length (halfUp s) \<Longrightarrow>
    stat_step s (s\<lparr>mgr := PushUploaded2 (halfUp s ! i) (mgr s), halfUp := take i (halfUp s) @ drop (Suc i) (halfUp s)\<rparr>)"
| down1: "stat_step s (s\<lparr>mgr := PushDownloaded1 n (mgr s), halfDown := halfDown s @ [n], sentDown := sentDown s + n\<rparr>)"
| down2: "i < length (halfDown s) \<Longrightarrow>
    stat_step s (s\<lparr>mgr := PushDownloaded2 (halfDown s ! i) (mgr s), halfDown := take i (halfDown s) @ drop (Suc i) (halfDown s)\<rparr>)"
| ticks: "stat_step s (s\<lparr>mgr := snd (tick (pc s) (mgr s)), pc := fst (tick (pc s) (mgr s))\<rparr>)"
| joins: "stat_step s (s\<lparr>mgr := Join k c (mgr s)\<rparr>)"
| leaves: "stat_step s (s\<lparr>mgr := Leave k (mgr s)\<rparr>)"

definition stat_init :: "'c stat_state" where
  "stat_init = \<lparr>mgr = DefaultManager, pc = Waiting, halfUp = [], halfDown = [], sentUp = 0, sentDown = 0\<rparr>"

definition stat_reachable :: "'c stat_state \<Rightarrow> bool" where
  "stat_reachable s \<longleftrightarrow> stat_step\<^sup>*\<^sup>* stat_init s"

definition stat_inv :: "'c stat_state \<Rightarrow> bool" where
  "stat_inv s \<longleftrightarrow>
     uploadTotal (mgr s) + sum_list (halfUp s) = sentUp s \<and> downloadTotal (mgr s) + sum_list (halfDown s) = sentDown s"

lemma sum_list_remove:
  assumes "i < length xs"
  shows "(xs ! i :: int64) + sum_list (take i xs @ drop (Suc i) xs) = sum_list xs"
proof -
  have "sum_list xs = sum_list (take i xs @ xs ! i # drop (Suc i) xs)"
    using assms by (simp flip: id_take_nth_drop)
  then show ?thesis
    by (simp add: algebra_simps)
qed

lemma tick_totals [simp]:
  "uploadTotal (snd (tick p m)) = uploadTotal m" "downloadTotal (snd (tick p m)) = downloadTotal m"
  by (simp_all add: tick_def split: tick_pc.splits)

lemma stat_inv_step:
  assumes "stat_step s s'" and "stat_inv s"
  shows "stat_inv s'"
  using assms(1)
proof cases
  case (up2 i)
  then show ?thesis
    using assms(2) sum_list_remove [OF up2(2)] by (simp add: stat_inv_def PushUploaded2_def algebra_simps)
next
  case (down2 i)
  then show ?thesis
    using assms(2) sum_list_remove [OF down2(2)] by (simp add: stat_inv_def PushDownloaded2_def algebra_simps)
qed (use assms(2) in \<open>auto simp: stat_inv_def PushUploaded1_def PushDownloaded1_def Join_def Leave_def algebra_simps\<close>)

lemma stat_reachable_inv:
  assumes "stat_reachable s"
  shows "stat_inv s"
proof -
  have "stat_step\<^sup>*\<^sup>* stat_init s"
    using assms by (simp add: stat_reachable_def)
  then show ?thesis
  proof (induction rule: rtranclp_induct)
    case base
    then show ?case
      by (simp add: stat_inv_def stat_init_def DefaultManager_def)
  next
    case (step s s')
    then show ?case
      using stat_inv_step by blast
  qed
qed

text \<open>The totals are exact: however pushes and the ticker interleave, the upload and the download total
  are the sums of all pushed sizes (modulo 64 bits), up to the pushes whose second addition is
  still to come; when no push is under way they are equal.\<close>

theorem totals_exact:
  assumes "stat_reachable s"
  shows "uploadTotal (mgr s) = sentUp s - sum_list (halfUp s) \<and> downloadTotal (mgr s) = sentDown s - sum_list (halfDown s)"
  using stat_reachable_inv [OF assms] by (auto simp: stat_inv_def algebra_simps)

theorem totals_exact_witness:
  "uploadTotal (mgr (stat_init\<lparr>mgr := PushUploaded1 7 DefaultManager, halfUp := [7], sentUp := 7\<rparr> :: nat stat_state)) = 0"
proof -
  have "stat_reachable (stat_init\<lparr>mgr := PushUploaded1 7 DefaultManager, halfUp := [7], sentUp := 7\<rparr> :: nat stat_state)"
    using up1 [of "stat_init :: nat stat_state" 7] by (simp add: stat_reachable_def stat_init_def)
  from totals_exact [OF this] show ?thesis
    by simp
qed

text \<open>A step after which the published upload rate is zero.\<close>

definition quiet_step :: "'c stat_state \<Rightarrow> 'c stat_state \<Rightarrow> bool" where
  "quiet_step s s' \<longleftrightarrow> stat_step s s' \<and> uploadBlip (mgr s') = 0"

text \<open>The rates lose bytes: a push that falls between the ticker's load and its reset of the same counter
  appears in no rate at all, since the ticker resets with a store instead of swapping. There is a
  run in which 100 bytes are uploaded, a whole tick passes, and the published upload rate was zero
  at every moment.\<close>

theorem rate_loses_upload:
  "\<exists>s :: nat stat_state. quiet_step\<^sup>*\<^sup>* stat_init s \<and>
     sentUp s = 100 \<and> uploadTotal (mgr s) = 100 \<and> halfUp s = [] \<and> pc s = Waiting \<and> uploadTemp (mgr s) = 0"
proof -
  define ticked :: "nat stat_state \<Rightarrow> nat stat_state"
    where "ticked s = s\<lparr>mgr := snd (tick (pc s) (mgr s)), pc := fst (tick (pc s) (mgr s))\<rparr>" for s
  define s2 :: "nat stat_state" where "s2 = (ticked stat_init)\<lparr>mgr := PushUploaded1 100 (mgr (ticked stat_init)),
    halfUp := halfUp (ticked stat_init) @ [100], sentUp := sentUp (ticked stat_init) + 100\<rparr>"
  define s3 :: "nat stat_state" where "s3 = s2\<lparr>mgr := PushUploaded2 (halfUp s2 ! 0) (mgr s2),
    halfUp := take 0 (halfUp s2) @ drop (Suc 0) (halfUp s2)\<rparr>"
  note defs = ticked_def s2_def s3_def stat_init_def DefaultManager_def tick_def PushUploaded1_def PushUploaded2_def
  have t: "stat_step s (ticked s)" for s
    unfolding ticked_def by (rule ticks)
  have "quiet_step stat_init (ticked stat_init)"
    unfolding quiet_step_def by (intro conjI t) (simp add: defs)
  moreover have "quiet_step (ticked stat_init) s2"
    unfolding quiet_step_def s2_def by (intro conjI up1) (simp add: defs)
  moreover have "quiet_step s2 s3"
    unfolding quiet_step_def s3_def by (intro conjI up2) (simp_all add: defs)
  moreover have "quiet_step s3 (ticked s3)" "quiet_step (ticked s3) (ticked (ticked s3))"
    "quiet_step (ticked (ticked s3)) (ticked (ticked (ticked s3)))"
    "quiet_step (ticked (ticked (ticked s3))) (ticked (ticked (ticked (ticked s3))))"
    "quiet_step (ticked (ticked (ticked (ticked s3)))) (ticked (ticked (ticked (ticked (ticked s3)))))"
    unfolding quiet_step_def by (intro conjI t; simp add: defs)+
  ultimately have "quiet_step\<^sup>*\<^sup>* stat_init (ticked (ticked (ticked (ticked (ticked s3)))))"
    by (meson converse_rtranclp_into_rtranclp rtranclp.rtrancl_refl)
  then show ?thesis
    by (intro exI [of _ "ticked (ticked (ticked (ticked (ticked s3))))"]) (simp add: defs)
qed

section \<open>Tracked connections\<close>

record 'c tracked = conn +
  UUID :: string
  UploadBytes :: int64
  DownloadBytes :: int64
  manager :: "'c Manager"

definition NewTCPTracker :: "string \<Rightarrow> 'c \<Rightarrow> conn \<Rightarrow> 'c Manager \<Rightarrow> 'c tracked" where
  "NewTCPTracker uuid self c m =
     conn.extend c \<lparr>UUID = uuid, UploadBytes = 0, DownloadBytes = 0, manager = Join uuid self m\<rparr>"

text \<open>A failing read or write counts zero bytes.\<close>

definition TcpTracker_Read :: "nat \<Rightarrow> (bytes, 'c tracked) io" where
  "TcpTracker_Read n t =
     (case conn_Read n t of
        None \<Rightarrow> None
      | Some (Ret bs, t) \<Rightarrow>
          Some (Ret bs, t\<lparr>manager := PushDownloaded (of_nat (length bs)) (manager t),
                          DownloadBytes := DownloadBytes t + of_nat (length bs)\<rparr>)
      | Some (r, t) \<Rightarrow> Some (r, t\<lparr>manager := PushDownloaded 0 (manager t)\<rparr>))"

definition TcpTracker_Write :: "bytes \<Rightarrow> (nat, 'c tracked) io" where
  "TcpTracker_Write bs t =
     (case conn_Write bs t of
        None \<Rightarrow> None
      | Some (Ret n, t) \<Rightarrow>
          Some (Ret n, t\<lparr>manager := PushUploaded (of_nat n) (manager t), UploadBytes := UploadBytes t + of_nat n\<rparr>)
      | Some (r, t) \<Rightarrow> Some (r, t\<lparr>manager := PushUploaded 0 (manager t)\<rparr>))"

definition TcpTracker_Close :: "(unit, 'c tracked) io" where
  "TcpTracker_Close t = conn_Close (t\<lparr>manager := Leave (UUID t) (manager t)\<rparr>)"

datatype track_op = TRead nat | TWrite bytes | TClose

fun track_exec :: "track_op list \<Rightarrow> 'c tracked \<Rightarrow> 'c tracked option" where
  "track_exec [] t = Some t"
| "track_exec (TRead n # os) t = (case TcpTracker_Read n t of None \<Rightarrow> None | Some (_, t') \<Rightarrow> track_exec os t')"
| "track_exec (TWrite bs # os) t = (case TcpTracker_Write bs t of None \<Rightarrow> None | Some (_, t') \<Rightarrow> track_exec os t')"
| "track_exec (TClose # os) t = (case TcpTracker_Close t of None \<Rightarrow> None | Some (_, t') \<Rightarrow> track_exec os t')"

text \<open>What the counters and the streams have in common before and after an operation.\<close>

definition balance :: "'c tracked \<Rightarrow> int64 \<times> int64 \<times> int64 \<times> int64" where
  "balance t = (UploadBytes t - of_nat (length (outp t)), DownloadBytes t + of_nat (length (stream t)),
     uploadTotal (manager t) - UploadBytes t, downloadTotal (manager t) - DownloadBytes t)"

lemma balance_Read: "TcpTracker_Read n t = Some (r, t') \<Longrightarrow> balance t' = balance t"
  by (auto simp: TcpTracker_Read_def conn_Read_def balance_def PushDownloaded_def PushDownloaded1_def PushDownloaded2_def
      algebra_simps split: if_splits list.splits rd_end.splits)

lemma balance_Write: "TcpTracker_Write bs t = Some (r, t') \<Longrightarrow> balance t' = balance t"
  by (auto simp: TcpTracker_Write_def conn_Write_def balance_def PushUploaded_def PushUploaded1_def PushUploaded2_def
      algebra_simps split: if_splits option.splits)

lemma balance_Close: "TcpTracker_Close t = Some (r, t') \<Longrightarrow> balance t' = balance t"
  by (auto simp: TcpTracker_Close_def conn_Close_def balance_def Leave_def)

lemma balance_exec: "track_exec os t = Some t' \<Longrightarrow> balance t' = balance t"
  by (induction os t rule: track_exec.induct)
    (auto split: option.splits dest!: balance_Read balance_Write balance_Close)

text \<open>A tracked connection counts what passes through it: along every sequence of reads, writes and
  closes that return, the growth of the tracker's and of the manager's upload counters is the
  number of bytes that reached the connection, and of the download counters the number of bytes the
  connection delivered.\<close>

theorem tracker_counts:
  assumes "track_exec os (NewTCPTracker uuid self c m) = Some t" and "outp c = []"
  shows "UploadBytes t = of_nat (length (outp t)) \<and>
    DownloadBytes t = of_nat (length (stream c)) - of_nat (length (stream t)) \<and>
    uploadTotal (manager t) = uploadTotal m + UploadBytes t \<and> downloadTotal (manager t) = downloadTotal m + DownloadBytes t"
  using balance_exec [OF assms(1)] assms(2)
  by (auto simp: balance_def NewTCPTracker_def conn.extend_def Join_def algebra_simps)

theorem tracker_counts_witness:
  "\<exists>t. track_exec [TWrite [1, 2, 3], TClose] (NewTCPTracker ''x'' (0 :: nat)
      \<lparr>inp = [], rend = AtEOF, outp = [], wfail = None, closed = False, raddr = ''''\<rparr> DefaultManager) = Some t \<and>
    UploadBytes t = 3"
proof -
  let ?c = "\<lparr>inp = [], rend = AtEOF, outp = [], wfail = None, closed = False, raddr = ''''\<rparr>"
  obtain t where t: "track_exec [TWrite [1, 2, 3], TClose] (NewTCPTracker ''x'' (0 :: nat) ?c DefaultManager) = Some t"
    "outp t = [1, 2, 3]"
    by (simp add: NewTCPTracker_def conn.extend_def TcpTracker_Write_def conn_Write_def TcpTracker_Close_def conn_Close_def)
  show ?thesis
    using tracker_counts [OF t(1)] t by simp
qed

end
