(* ===== verification/Resolver.thy ===== *)
theory Resolver
  imports Go_Net
begin

text \<open>
  \<^verbatim>\<open>internal/resolver/resolver.go\<close>: the entry points by which the tunnel turns a host into an address.
  The interface \<^verbatim>\<open>Resolver\<close> is a record of its methods; a method takes the state of the implementation and
  returns it updated. \<^verbatim>\<open>net.DefaultResolver.LookupIP\<close> (parameter \<open>sys\<close>: network and host) and \<^verbatim>\<open>rand.Intn\<close>
  (parameter \<open>Intn\<close>) are outside the repository. Contexts bound the time of a look-up and do not show here:
  a look-up that times out is one that fails.
\<close>

definition ErrIPNotFound :: goerr where
  "ErrIPNotFound = ErrNew ''couldn't find ip''"

definition ErrIPVersion :: goerr where
  "ErrIPVersion = ErrNew ''ip version error''"

definition DefaultDNSTimeout :: int where
  "DefaultDNSTimeout = 5 * 1000000000"

record ('q, 'm, 's) Resolver =
  r_LookupIP :: "string \<Rightarrow> 's \<Rightarrow> IP_bytes list res \<times> 's"
  r_LookupIPv4 :: "string \<Rightarrow> 's \<Rightarrow> IP_bytes list res \<times> 's"
  r_LookupIPv6 :: "string \<Rightarrow> 's \<Rightarrow> IP_bytes list res \<times> 's"
  r_ResolveIP :: "string \<Rightarrow> 's \<Rightarrow> IP_bytes res \<times> 's"
  r_ResolveIPv4 :: "string \<Rightarrow> 's \<Rightarrow> IP_bytes res \<times> 's"
  r_ResolveIPv6 :: "string \<Rightarrow> 's \<Rightarrow> IP_bytes res \<times> 's"
  r_ExchangeContext :: "'q \<Rightarrow> 's \<Rightarrow> 'm res \<times> 's"

section \<open>The operations\<close>

text \<open>The end of the \<^verbatim>\<open>Resolve\<close> functions: an error is passed on, an empty list is an error, otherwise a
  random element is taken.\<close>

definition pick_ip :: "(nat \<Rightarrow> nat) \<Rightarrow> string \<Rightarrow> IP_bytes list res \<Rightarrow> IP_bytes res" where
  "pick_ip Intn host r =
     bind_res r (\<lambda>ips.
       if ips = [] then Fail (Errorf_w ErrIPNotFound host)
       else if Intn (length ips) < length ips then Ret (ips ! Intn (length ips)) else Panic)"

text \<open>The system's resolver, where none is installed: an empty list is an error.\<close>

definition sys_lookup :: "(string \<Rightarrow> string \<Rightarrow> IP_bytes list res) \<Rightarrow> string \<Rightarrow> string \<Rightarrow> IP_bytes list res" where
  "sys_lookup sys network host =
     bind_res (sys network host) (\<lambda>ips. if ips = [] then Fail ErrIPNotFound else Ret ips)"

definition resolver_LookupIPv4 ::
    "(string \<Rightarrow> string \<Rightarrow> IP_bytes list res) \<Rightarrow> ('q, 'm, 's) Resolver option \<Rightarrow> string \<Rightarrow> 's \<Rightarrow> IP_bytes list res \<times> 's" where
  "resolver_LookupIPv4 sys DefaultResolver host s =
     (let ip = net_ParseIP host
      in if ip \<noteq> [] then (if CHR '':'' \<notin> set host then (Ret [ip], s) else (Fail ErrIPVersion, s))
         else (case DefaultResolver of
                 Some R \<Rightarrow> r_LookupIPv4 R host s
               | None \<Rightarrow> (sys_lookup sys ''ip4'' host, s)))"

definition resolver_ResolveIPv4 ::
    "(nat \<Rightarrow> nat) \<Rightarrow> (string \<Rightarrow> string \<Rightarrow> IP_bytes list res) \<Rightarrow> ('q, 'm, 's) Resolver option \<Rightarrow> string \<Rightarrow> 's \<Rightarrow>
     IP_bytes res \<times> 's" where
  "resolver_ResolveIPv4 Intn sys DefaultResolver host s =
     (let (r, s) = resolver_LookupIPv4 sys DefaultResolver host s in (pick_ip Intn host r, s))"

definition resolver_LookupIPv6 ::
    "(string \<Rightarrow> string \<Rightarrow> IP_bytes list res) \<Rightarrow> ('q, 'm, 's) Resolver option \<Rightarrow> string \<Rightarrow> 's \<Rightarrow> IP_bytes list res \<times> 's" where
  "resolver_LookupIPv6 sys DefaultResolver host s =
     (let ip = net_ParseIP host
      in if ip \<noteq> [] then (if CHR '':'' \<in> set host then (Ret [ip], s) else (Fail ErrIPVersion, s))
         else (case DefaultResolver of
                 Some R \<Rightarrow> r_LookupIPv6 R host s
               | None \<Rightarrow> (sys_lookup sys ''ip6'' host, s)))"

definition resolver_ResolveIPv6 ::
    "(nat \<Rightarrow> nat) \<Rightarrow> (string \<Rightarrow> string \<Rightarrow> IP_bytes list res) \<Rightarrow> ('q, 'm, 's) Resolver option \<Rightarrow> string \<Rightarrow> 's \<Rightarrow>
     IP_bytes res \<times> 's" where
  "resolver_ResolveIPv6 Intn sys DefaultResolver host s =
     (let (r, s) = resolver_LookupIPv6 sys DefaultResolver host s in (pick_ip Intn host r, s))"

definition LookupIPWithResolver ::
    "(string \<Rightarrow> string \<Rightarrow> IP_bytes list res) \<Rightarrow> ('q, 'm, 's) Resolver option \<Rightarrow> string \<Rightarrow> 's \<Rightarrow> IP_bytes list res \<times> 's" where
  "LookupIPWithResolver sys r host s =
     (case r of
        Some R \<Rightarrow> r_LookupIP R host s
      | None \<Rightarrow>
          let ip = net_ParseIP host
          in if ip \<noteq> [] then (Ret [ip], s) else (sys_lookup sys ''ip'' host, s))"

definition resolver_LookupIP ::
    "(string \<Rightarrow> string \<Rightarrow> IP_bytes list res) \<Rightarrow> ('q, 'm, 's) Resolver option \<Rightarrow> string \<Rightarrow> 's \<Rightarrow> IP_bytes list res \<times> 's" where
  "resolver_LookupIP sys DefaultResolver host s = LookupIPWithResolver sys DefaultResolver host s"

definition resolver_ResolveIP ::
    "(nat \<Rightarrow> nat) \<Rightarrow> (string \<Rightarrow> string \<Rightarrow> IP_bytes list res) \<Rightarrow> ('q, 'm, 's) Resolver option \<Rightarrow> string \<Rightarrow> 's \<Rightarrow>
     IP_bytes res \<times> 's" where
  "resolver_ResolveIP Intn sys DefaultResolver host s =
     (let (r, s) = resolver_LookupIP sys DefaultResolver host s in (pick_ip Intn host r, s))"

section \<open>Facts\<close>

lemma pick_ip_Ret:
  assumes "pick_ip Intn host r = Ret ip"
  obtains ips where "r = Ret ips" and "ip \<in> set ips"
  using assms by (cases r) (auto simp: pick_ip_def split: if_splits)

lemma pick_ip_nonempty:
  assumes "\<forall>n > 0. Intn n < n" and "ips \<noteq> []"
  shows "\<exists>ip \<in> set ips. pick_ip Intn host (Ret ips) = Ret ip"
  using assms by (simp add: pick_ip_def)

lemma pick_ip_error [simp]: "pick_ip Intn host (Fail e) = Fail e" "pick_ip Intn host Panic = Panic"
  by (simp_all add: pick_ip_def)

section \<open>The interface\<close>

text \<open>What the clients of a \<^verbatim>\<open>Resolver\<close> rely on: an address literal is returned at once, as an equal address and
  without changing the resolver; a look-up that succeeds has found something; and the invariant of
  the implementation is kept.\<close>

locale ip_resolver =
  fixes R :: "('q, 'm, 's) Resolver" and rinv :: "'s \<Rightarrow> bool"
  assumes lookup_inv: "rinv s \<Longrightarrow> rinv (snd (r_LookupIP R host s))"
    and lookup_literal: "rinv s \<Longrightarrow> net_ParseIP host \<noteq> [] \<Longrightarrow>
      \<exists>ip. r_LookupIP R host s = (Ret [ip], s) \<and> IP_Equal ip (net_ParseIP host)"
    and lookup_found: "rinv s \<Longrightarrow> fst (r_LookupIP R host s) = Ret ips \<Longrightarrow> ips \<noteq> []"
begin

lemma ResolveIP_inv: "rinv s \<Longrightarrow> rinv (snd (resolver_ResolveIP Intn sys (Some R) host s))"
  using lookup_inv [of s host]
  by (auto simp: resolver_ResolveIP_def resolver_LookupIP_def LookupIPWithResolver_def split: prod.splits)

lemma ResolveIP_literal:
  assumes "rinv s" and "\<forall>n > 0. Intn n < n" and "net_ParseIP host \<noteq> []"
  shows "\<exists>ip. resolver_ResolveIP Intn sys (Some R) host s = (Ret ip, s) \<and> IP_Equal ip (net_ParseIP host)"
  using lookup_literal [OF assms(1,3)] assms(2) [rule_format, of 1]
  by (auto simp: resolver_ResolveIP_def resolver_LookupIP_def LookupIPWithResolver_def pick_ip_def)

text \<open>The error for an empty list is dead code here: the outcome is that of the look-up.\<close>

lemma ResolveIP_cases:
  assumes "rinv s" and "\<forall>n > 0. Intn n < n"
  shows "case r_LookupIP R host s of
      (Ret ips, s') \<Rightarrow> \<exists>ip \<in> set ips. resolver_ResolveIP Intn sys (Some R) host s = (Ret ip, s')
    | (Fail e, s') \<Rightarrow> resolver_ResolveIP Intn sys (Some R) host s = (Fail e, s')
    | (Panic, s') \<Rightarrow> resolver_ResolveIP Intn sys (Some R) host s = (Panic, s')"
  using lookup_found [OF assms(1), of host] pick_ip_nonempty [OF assms(2), of _ host]
  by (auto simp: resolver_ResolveIP_def resolver_LookupIP_def LookupIPWithResolver_def split: res.splits prod.splits)

end

end
