(* ===== verification/Picker.thy ===== *)
theory Picker
  imports Prelude "HOL-Library.Multiset"
begin

text \<open>
  \<^verbatim>\<open>internal/picker/picker.go\<close>: a group of goroutines of which the first success is kept. The goroutines
  interleave, so the component is a step relation: starting a task (\<^verbatim>\<open>Go\<close>), the return of its function,
  the \<^verbatim>\<open>once.Do\<close> or \<^verbatim>\<open>errOnce.Do\<close> with its outcome, and the deferred \<^verbatim>\<open>wg.Done\<close>. \<^verbatim>\<open>sync.Once\<close> lets one caller
  run its function and makes the others wait for it, so that each \<^verbatim>\<open>Do\<close> is one step. The functions
  given to \<^verbatim>\<open>Go\<close> may return anything.
\<close>

type_synonym 'a outcome = "'a + goerr"

datatype 'a phase = Running | Returned "'a outcome" | Committed "'a outcome" | Finished "'a outcome"

text \<open>\<open>commits\<close> is the history of the outcomes in the order of their \<^verbatim>\<open>Do\<close>; no operation reads it.\<close>

record 'a Picker =
  tasks :: "'a phase list"
  wgcount :: int
  once_done :: bool
  presult :: "'a option"
  errOnce_done :: bool
  perr :: "goerr option"
  cancelled :: bool
  commits :: "'a outcome list"

definition newPicker :: "'a Picker" where
  "newPicker = \<lparr>tasks = [], wgcount = 0, once_done = False, presult = None, errOnce_done = False, perr = None,
     cancelled = False, commits = []\<rparr>"

text \<open>A context, as far as the sources use it: its deadline and whether it was cancelled. A derived context is also done when
  its parent is; \<^verbatim>\<open>cancel\<close> of the group is the field \<open>cancelled\<close> of the picker. Times are nanoseconds.\<close>

record context_state =
  Deadline :: "int option"
  Cancelled :: bool

definition context_Background :: context_state where
  "context_Background = \<lparr>Deadline = None, Cancelled = False\<rparr>"

definition context_WithCancel :: "context_state \<Rightarrow> context_state" where
  "context_WithCancel ctx = ctx"

definition context_WithTimeout :: "int \<Rightarrow> int \<Rightarrow> context_state \<Rightarrow> context_state" where
  "context_WithTimeout now timeout ctx =
     ctx\<lparr>Deadline := Some (case Deadline ctx of None \<Rightarrow> now + timeout | Some d \<Rightarrow> min d (now + timeout))\<rparr>"

definition picker_WithContext :: "context_state \<Rightarrow> 'a Picker \<times> context_state" where
  "picker_WithContext ctx = (newPicker, context_WithCancel ctx)"

definition picker_WithTimeout :: "int \<Rightarrow> int \<Rightarrow> context_state \<Rightarrow> 'a Picker \<times> context_state" where
  "picker_WithTimeout now timeout ctx = (newPicker, context_WithTimeout now timeout ctx)"

text \<open>Whether the context of a group is done at a time.\<close>

definition group_done :: "'a Picker \<Rightarrow> context_state \<Rightarrow> int \<Rightarrow> bool" where
  "group_done p ctx now \<longleftrightarrow> cancelled p \<or> Cancelled ctx \<or> (\<exists>d. Deadline ctx = Some d \<and> d \<le> now)"

definition Go_start :: "'a Picker \<Rightarrow> 'a Picker" where
  "Go_start p = p\<lparr>tasks := tasks p @ [Running], wgcount := wgcount p + 1\<rparr>"

definition Go_return :: "nat \<Rightarrow> 'a outcome \<Rightarrow> 'a Picker \<Rightarrow> 'a Picker" where
  "Go_return i out p = p\<lparr>tasks := (tasks p)[i := Returned out]\<rparr>"

definition Go_commit :: "nat \<Rightarrow> 'a outcome \<Rightarrow> 'a Picker \<Rightarrow> 'a Picker" where
  "Go_commit i out p =
     (let p = p\<lparr>tasks := (tasks p)[i := Committed out], commits := commits p @ [out]\<rparr>
      in case out of
           Inl ret \<Rightarrow>
             if once_done p then p else p\<lparr>once_done := True, presult := Some ret, cancelled := True\<rparr>
         | Inr err \<Rightarrow>
             if errOnce_done p then p else p\<lparr>errOnce_done := True, perr := Some err\<rparr>)"

definition Go_done :: "nat \<Rightarrow> 'a outcome \<Rightarrow> 'a Picker \<Rightarrow> 'a Picker" where
  "Go_done i out p = p\<lparr>tasks := (tasks p)[i := Finished out], wgcount := wgcount p - 1\<rparr>"

inductive picker_step :: "'a Picker \<Rightarrow> 'a Picker \<Rightarrow> bool" where
  go: "picker_step p (Go_start p)"
| returns: "i < length (tasks p) \<Longrightarrow> tasks p ! i = Running \<Longrightarrow> picker_step p (Go_return i out p)"
| commit: "i < length (tasks p) \<Longrightarrow> tasks p ! i = Returned out \<Longrightarrow> picker_step p (Go_commit i out p)"
| finish: "i < length (tasks p) \<Longrightarrow> tasks p ! i = Committed out \<Longrightarrow> picker_step p (Go_done i out p)"

inductive picker_reachable :: "'a Picker \<Rightarrow> bool" where
  init: "picker_reachable newPicker"
| step: "picker_reachable p \<Longrightarrow> picker_step p p' \<Longrightarrow> picker_reachable p'"

inductive_cases picker_stepE: "picker_step p p'"

text \<open>\<^verbatim>\<open>Wait\<close> blocks while the counter is positive (\<open>None\<close>), then cancels the context and returns the result.\<close>

definition Wait :: "'a Picker \<Rightarrow> ('a option \<times> 'a Picker) option" where
  "Wait p = (if wgcount p = 0 then Some (presult p, p\<lparr>cancelled := True\<rparr>) else None)"

definition Error :: "'a Picker \<Rightarrow> goerr option" where
  "Error p = perr p"

section \<open>The invariant\<close>

fun first_ok :: "'a outcome list \<Rightarrow> 'a option" where
  "first_ok [] = None"
| "first_ok (Inl a # os) = Some a"
| "first_ok (Inr e # os) = first_ok os"

fun first_err :: "'a outcome list \<Rightarrow> goerr option" where
  "first_err [] = None"
| "first_err (Inr e # os) = Some e"
| "first_err (Inl a # os) = first_err os"

definition finished :: "'a phase \<Rightarrow> bool" where
  "finished t \<longleftrightarrow> (\<exists>out. t = Finished out)"

fun committed_outcome :: "'a phase \<Rightarrow> 'a outcome option" where
  "committed_outcome (Committed out) = Some out"
| "committed_outcome (Finished out) = Some out"
| "committed_outcome _ = None"

text \<open>The outcomes whose \<^verbatim>\<open>Do\<close> has happened.\<close>

definition outcomes :: "'a phase list \<Rightarrow> 'a outcome multiset" where
  "outcomes ts = image_mset the (filter_mset (\<lambda>x. x \<noteq> None) (mset (map committed_outcome ts)))"

definition picker_inv :: "'a Picker \<Rightarrow> bool" where
  "picker_inv p \<longleftrightarrow>
     wgcount p = int (length (filter (\<lambda>t. \<not> finished t) (tasks p))) \<and>
     mset (commits p) = outcomes (tasks p) \<and>
     presult p = first_ok (commits p) \<and> (once_done p \<longleftrightarrow> presult p \<noteq> None) \<and>
     perr p = first_err (commits p) \<and> (errOnce_done p \<longleftrightarrow> perr p \<noteq> None) \<and>
     (presult p \<noteq> None \<longrightarrow> cancelled p)"

lemma first_ok_snoc: "first_ok (os @ [out]) = (case first_ok os of None \<Rightarrow> (case out of Inl a \<Rightarrow> Some a | Inr _ \<Rightarrow> None) | r \<Rightarrow> r)"
  by (induction os rule: first_ok.induct) (auto split: sum.splits)

lemma first_err_snoc: "first_err (os @ [out]) = (case first_err os of None \<Rightarrow> (case out of Inl _ \<Rightarrow> None | Inr e \<Rightarrow> Some e) | r \<Rightarrow> r)"
  by (induction os rule: first_err.induct) (auto split: sum.splits)

text \<open>Replacing one task changes the counts by the old and the new phase.\<close>

lemma filter_update:
  assumes "i < length ts"
  shows "length (filter P (ts[i := t])) + (if P (ts ! i) then 1 else 0) = length (filter P ts) + (if P t then 1 else 0)"
  using assms
proof (induction ts arbitrary: i)
  case (Cons a ts)
  show ?case
  proof (cases i)
    case (Suc j)
    then show ?thesis
      using Cons.IH [of j] Cons.prems by (simp split: if_splits)
  qed simp
qed simp



lemma outcomes_update:
  assumes "i < length ts"
  shows "outcomes (ts[i := t]) + (case committed_outcome (ts ! i) of None \<Rightarrow> {#} | Some out \<Rightarrow> {#out#}) =
    outcomes ts + (case committed_outcome t of None \<Rightarrow> {#} | Some out \<Rightarrow> {#out#})"
  using assms
proof (induction ts arbitrary: i)
  case (Cons a ts)
  then show ?case
    by (cases i) (auto simp: outcomes_def split: option.splits)
qed simp

lemma picker_inv_step:
  assumes "picker_step p p'" and "picker_inv p"
  shows "picker_inv p'"
  using assms(1)
proof cases
  case go
  then show ?thesis
    using assms(2) by (simp add: picker_inv_def Go_start_def finished_def outcomes_def)
next
  case (returns i out)
  then show ?thesis
    using assms(2) filter_update [OF returns(2), of "\<lambda>t. \<not> finished t" "Returned out"]
      outcomes_update [OF returns(2), of "Returned out"]
    by (simp add: picker_inv_def Go_return_def finished_def)
next
  case (commit i out)
  have counts: "length (filter (\<lambda>t. \<not> finished t) ((tasks p)[i := Committed out])) = length (filter (\<lambda>t. \<not> finished t) (tasks p))"
    "outcomes ((tasks p)[i := Committed out]) = add_mset out (outcomes (tasks p))"
    using filter_update [OF commit(2), of "\<lambda>t. \<not> finished t" "Committed out"]
      outcomes_update [OF commit(2), of "Committed out"] commit(3) by (simp_all add: finished_def)
  obtain ok er where res: "first_ok (commits p) = ok" "first_err (commits p) = er"
    by blast
  show ?thesis
  proof (cases out)
    case (Inl a)
    then show ?thesis
      using assms(2) counts res unfolding commit(1)
      by (cases ok; cases er) (simp_all add: picker_inv_def Go_commit_def first_ok_snoc first_err_snoc)
  next
    case (Inr e)
    then show ?thesis
      using assms(2) counts res unfolding commit(1)
      by (cases ok; cases er) (simp_all add: picker_inv_def Go_commit_def first_ok_snoc first_err_snoc)
  qed
next
  case (finish i out)
  then show ?thesis
    using assms(2) filter_update [OF finish(2), of "\<lambda>t. \<not> finished t" "Finished out"]
      outcomes_update [OF finish(2), of "Finished out"]
    by (simp add: picker_inv_def Go_done_def finished_def)
qed

lemma picker_reachable_inv: "picker_reachable p \<Longrightarrow> picker_inv p"
proof (induction rule: picker_reachable.induct)
  case init
  then show ?case
    by (simp add: picker_inv_def newPicker_def outcomes_def)
qed (rule picker_inv_step)

lemma first_ok_None: "first_ok os = None \<longleftrightarrow> (\<forall>out \<in> set os. \<exists>e. out = Inr e)"
  by (induction os rule: first_ok.induct) auto

section \<open>Properties\<close>

text \<open>C14. However the goroutines interleave, when \<^verbatim>\<open>Wait\<close> returns every started task has finished, the
  outcomes of all tasks have been recorded, the result is the one of the task that succeeded first,
  it is missing exactly when all tasks failed, \<^verbatim>\<open>Error\<close> is the error recorded first, and the context is
  cancelled; and once a task has succeeded the context is cancelled without waiting for the others.\<close>

theorem picker_first_success:
  assumes "picker_reachable p"
  shows "(presult p \<noteq> None \<longrightarrow> cancelled p) \<and>
    (\<forall>r p'. Wait p = Some (r, p') \<longrightarrow>
       (\<exists>outs. tasks p = map Finished outs \<and> mset outs = mset (commits p) \<and>
          r = first_ok (commits p) \<and> Error p' = first_err (commits p) \<and> cancelled p' \<and>
          (r = None \<longleftrightarrow> (\<forall>out \<in> set outs. \<exists>e. out = Inr e))))"
proof -
  note inv = picker_reachable_inv [OF assms, unfolded picker_inv_def]
  have "\<exists>outs. tasks p = map Finished outs \<and> mset outs = mset (commits p) \<and>
      r = first_ok (commits p) \<and> Error p' = first_err (commits p) \<and> cancelled p' \<and>
      (r = None \<longleftrightarrow> (\<forall>out \<in> set outs. \<exists>e. out = Inr e))" if "Wait p = Some (r, p')" for r p'
  proof -
    have w: "wgcount p = 0" "r = presult p" "p' = p\<lparr>cancelled := True\<rparr>"
      using that by (auto simp: Wait_def split: if_splits)
    then have "\<forall>t \<in> set (tasks p). finished t"
      using inv by (simp add: filter_empty_conv)
    then obtain outs where outs: "tasks p = map Finished outs"
      by (metis finished_def ex_map_conv)
    have "outcomes (map Finished outs) = mset outs"
      by (induction outs) (simp_all add: outcomes_def)
    then have perm: "mset outs = mset (commits p)"
      using inv outs by simp
    then have "set outs = set (commits p)"
      by (metis set_mset_mset)
    then show ?thesis
      using inv w outs perm by (intro exI [of _ outs]) (simp add: Error_def first_ok_None)
  qed
  then show ?thesis
    using inv by blast
qed

definition picker_example :: "nat Picker" where
  "picker_example = Go_done 0 (Inl 5) (Go_commit 0 (Inl 5) (Go_return 0 (Inl 5) (Go_start newPicker)))"

lemma picker_example_reachable: "picker_reachable picker_example"
proof -
  have s1: "picker_reachable (Go_start newPicker :: nat Picker)"
    by (rule picker_reachable.step [OF picker_reachable.init picker_step.go])
  have s2: "picker_reachable (Go_return 0 (Inl 5) (Go_start newPicker :: nat Picker))"
    by (rule picker_reachable.step [OF s1 picker_step.returns]) (simp_all add: Go_start_def newPicker_def)
  have s3: "picker_reachable (Go_commit 0 (Inl 5) (Go_return 0 (Inl 5) (Go_start newPicker :: nat Picker)))"
    by (rule picker_reachable.step [OF s2 picker_step.commit]) (simp_all add: Go_start_def Go_return_def newPicker_def)
  show ?thesis
    unfolding picker_example_def
    by (rule picker_reachable.step [OF s3 picker_step.finish])
      (simp_all add: Go_start_def Go_return_def Go_commit_def newPicker_def)
qed

theorem picker_first_success_witness:
  "\<exists>p'. Wait picker_example = Some (Some 5, p') \<and> cancelled picker_example \<and> cancelled p'"
proof -
  have "Wait picker_example = Some (Some 5, picker_example\<lparr>cancelled := True\<rparr>)" "presult picker_example = Some 5"
    by (simp_all add: picker_example_def Wait_def Go_start_def Go_return_def Go_commit_def Go_done_def newPicker_def)
  then show ?thesis
    using picker_first_success [OF picker_example_reachable] by auto
qed

end
