(* ===== verification/Dns_Message.thy ===== *)
theory Dns_Message
  imports Resolver Picker
begin

text \<open>
  \<^verbatim>\<open>internal/dns/util.go\<close> and \<^verbatim>\<open>internal/dns/client.go\<close>: what is done with single DNS messages, one exchange with
  a name server, and the exchange with all of them at once.

  The messages are those of the library miekg/dns; the records below hold the fields that the
  sources read or write. The numbers of types, classes and response codes are those of RFC 1035 and RFC 3596.
  Dialling, the exchange over a connection and the moment at which the context is done are parameters
  (\<open>net_world\<close>).
\<close>

definition TypeA :: "16 word" where "TypeA = 1"
definition TypeTXT :: "16 word" where "TypeTXT = 16"
definition TypeAAAA :: "16 word" where "TypeAAAA = 28"
definition ClassINET :: "16 word" where "ClassINET = 1"
definition RcodeServerFailure :: int where "RcodeServerFailure = 2"
definition RcodeRefused :: int where "RcodeRefused = 5"

record Question =
  qName :: string
  Qtype :: "16 word"
  Qclass :: "16 word"

datatype rdata = RR_A IP_bytes | RR_AAAA IP_bytes | RR_other string

record RR =
  rrName :: string
  Rrtype :: "16 word"
  Ttl :: "32 word"
  Rdata :: rdata

record Msg =
  Rcode :: int
  Truncated :: bool
  RecursionDesired :: bool
  RecursionAvailable :: bool
  AuthenticatedData :: bool
  CheckingDisabled :: bool
  mQuestion :: "Question list"
  Answer :: "RR list"
  Ns :: "RR list"
  Extra :: "RR list"

section \<open>util.go\<close>

definition set_ttl :: "32 word \<Rightarrow> RR \<Rightarrow> RR" where
  "set_ttl ttl rr = rr\<lparr>Ttl := ttl\<rparr>"

definition setMsgTTL :: "32 word \<Rightarrow> Msg \<Rightarrow> Msg" where
  "setMsgTTL ttl msg =
     msg\<lparr>Answer := map (set_ttl ttl) (Answer msg), Ns := map (set_ttl ttl) (Ns msg), Extra := map (set_ttl ttl) (Extra msg)\<rparr>"

definition isIPRequest :: "Question \<Rightarrow> bool" where
  "isIPRequest q \<longleftrightarrow> Qclass q = ClassINET \<and> (Qtype q = TypeA \<or> Qtype q = TypeAAAA)"

definition ip_of_rr :: "RR \<Rightarrow> IP_bytes list" where
  "ip_of_rr rr = (case Rdata rr of RR_AAAA ip \<Rightarrow> [ip] | RR_A ip \<Rightarrow> [ip] | RR_other _ \<Rightarrow> [])"

definition msgToIP :: "Msg \<Rightarrow> IP_bytes list" where
  "msgToIP msg = concat (map ip_of_rr (Answer msg))"

text \<open>The switch of \<^verbatim>\<open>putMsgToCache\<close>: the TTL of the first record of the first section that has one.\<close>

definition cache_ttl :: "Msg \<Rightarrow> 32 word option" where
  "cache_ttl msg =
     (if Answer msg \<noteq> [] then Some (Ttl (hd (Answer msg)))
      else if Ns msg \<noteq> [] then Some (Ttl (hd (Ns msg)))
      else if Extra msg \<noteq> [] then Some (Ttl (hd (Extra msg)))
      else None)"

record NameServer =
  ns_Net :: string
  ns_Addr :: string

record ('q, 'm, 's) client =
  cNet :: string
  ServerName :: string
  UDPSize :: nat
  cTimeout :: nat
  cport :: string
  chost :: string
  cr :: "('q, 'm, 's) Resolver option"

definition transform :: "NameServer list \<Rightarrow> ('q, 'm, 's) Resolver option \<Rightarrow> ('q, 'm, 's) client list" where
  "transform servers resolver =
     map (\<lambda>s. let (host, port) = split_or_empty (ns_Addr s)
              in \<lparr>cNet = ns_Net s, ServerName = host, UDPSize = 4096, cTimeout = 5, cport = port, chost = host, cr = resolver\<rparr>)
       servers"

section \<open>client.go\<close>

text \<open>\<open>ctx_Err\<close> is \<open>Some e\<close> if the context is done before the answer is there.\<close>

record net_world =
  DialContext :: "string \<Rightarrow> string \<Rightarrow> unit res"
  ExchangeWithConn :: "string \<Rightarrow> string \<Rightarrow> bool \<Rightarrow> Msg \<Rightarrow> Msg res"
  ctx_Err :: "goerr option"
  SysLookup :: "string \<Rightarrow> string \<Rightarrow> IP_bytes list res"
  n_Intn :: "nat \<Rightarrow> nat"

definition client_ip :: "net_world \<Rightarrow> ('q, 'm, 's) client \<Rightarrow> 's \<Rightarrow> IP_bytes res \<times> 's" where
  "client_ip W c s =
     (case cr c of
        None \<Rightarrow>
          (let ip = net_ParseIP (chost c)
           in if ip = [] then (Fail (ErrNew (''dns '' @ chost c @ '' not a valid ip'')), s) else (Ret ip, s))
      | Some R \<Rightarrow>
          (case LookupIPWithResolver (SysLookup W) (Some R) (chost c) s of
             (Fail e, s) \<Rightarrow> (Fail (ErrNew (''use default dns resolve failed: '' @ goerr_Error e)), s)
           | (r, s) \<Rightarrow> (pick_ip (n_Intn W) (chost c) r, s)))"

definition client_ExchangeContext :: "net_world \<Rightarrow> ('q, 'm, 's) client \<Rightarrow> Msg \<Rightarrow> 's \<Rightarrow> Msg res \<times> 's" where
  "client_ExchangeContext W c m s =
     (case client_ip W c s of
        (Fail e, s) \<Rightarrow> (Fail e, s)
      | (Panic, s) \<Rightarrow> (Panic, s)
      | (Ret ip, s) \<Rightarrow>
          let network = (if HasPrefix (cNet c) ''tcp'' then ''tcp'' else ''udp'');
              addr = net_JoinHostPort (IP_String ip) (cport c)
          in case DialContext W network addr of
               Fail e \<Rightarrow> (Fail e, s)
             | Panic \<Rightarrow> (Panic, s)
             | Ret _ \<Rightarrow>
                 (case ctx_Err W of
                    Some e \<Rightarrow> (Fail e, s)
                  | None \<Rightarrow> (ExchangeWithConn W network addr (HasSuffix (cNet c) ''tls'') m, s)))"

definition client_Exchange :: "net_world \<Rightarrow> ('q, 'm, 's) client \<Rightarrow> Msg \<Rightarrow> 's \<Rightarrow> Msg res \<times> 's" where
  "client_Exchange W c m s = client_ExchangeContext W c m s"

section \<open>All name servers at once\<close>

text \<open>What the function given to the picker returns for what the exchange with one server returned
  (\<open>None\<close>: it panicked).\<close>

definition task_outcome :: "Msg res \<Rightarrow> Msg outcome option" where
  "task_outcome r =
     (case r of
        Fail e \<Rightarrow> Some (Inr e)
      | Panic \<Rightarrow> None
      | Ret m \<Rightarrow>
          if Rcode m = RcodeServerFailure \<or> Rcode m = RcodeRefused then Some (Inr (ErrNew ''server failure''))
          else Some (Inl m))"

definition allFailed :: "goerr option \<Rightarrow> goerr" where
  "allFailed fErr =
     (let err = ''all DNS requests failed''
      in ErrNew (case fErr of None \<Rightarrow> err | Some e \<Rightarrow> err @ '', first error: '' @ goerr_Error e))"

text \<open>\<^verbatim>\<open>(*Resolver).batchExchange\<close>: the group runs under a context that ends after five seconds at the latest.\<close>

definition batch_group :: "int \<Rightarrow> context_state \<Rightarrow> Msg Picker \<times> context_state" where
  "batch_group now ctx = picker_WithContext (context_WithTimeout now DefaultDNSTimeout ctx)"

lemma batch_group_done:
  "batch_group now ctx = (p, ctx') \<Longrightarrow> now + DefaultDNSTimeout \<le> t \<Longrightarrow> group_done fast ctx' t"
  by (auto simp: batch_group_def picker_WithContext_def context_WithCancel_def context_WithTimeout_def group_done_def
      split: option.splits)

text \<open>From \<^verbatim>\<open>fast.Wait()\<close> on; \<open>None\<close>: the wait has not ended.\<close>

definition batchExchange :: "Msg Picker \<Rightarrow> Msg res option" where
  "batchExchange fast =
     (case Wait fast of
        None \<Rightarrow> None
      | Some (None, fast') \<Rightarrow> Some (Fail (allFailed (Error fast')))
      | Some (Some msg, _) \<Rightarrow> Some (Ret msg))"

section \<open>Facts\<close>

definition usable :: "Msg \<Rightarrow> bool" where
  "usable m \<longleftrightarrow> Rcode m \<noteq> RcodeServerFailure \<and> Rcode m \<noteq> RcodeRefused"

lemma task_outcome_Inl: "task_outcome r = Some (Inl m) \<longleftrightarrow> r = Ret m \<and> usable m"
  by (auto simp: task_outcome_def usable_def split: res.splits)

lemma task_outcome_Inr: "task_outcome r = Some (Inr e) \<Longrightarrow> \<forall>m. r = Ret m \<longrightarrow> \<not> usable m"
  by (auto simp: task_outcome_def usable_def split: res.splits if_splits)

lemma first_ok_set: "first_ok os = Some a \<Longrightarrow> Inl a \<in> set os"
  by (induction os rule: first_ok.induct) auto

text \<open>Two messages that differ at most in the TTLs of their records.\<close>

definition same_but_ttl :: "Msg \<Rightarrow> Msg \<Rightarrow> bool" where
  "same_but_ttl m m' \<longleftrightarrow> setMsgTTL 0 m = setMsgTTL 0 m'"

lemma set_ttl_set_ttl [simp]: "set_ttl t \<circ> set_ttl u = set_ttl t"
  by (simp add: set_ttl_def fun_eq_iff)

lemma same_but_ttl_set [simp]: "same_but_ttl (setMsgTTL t m) m" "same_but_ttl m m"
  by (simp_all add: same_but_ttl_def setMsgTTL_def)

lemma msgToIP_setMsgTTL [simp]: "msgToIP (setMsgTTL t m) = msgToIP m"
  by (simp add: msgToIP_def setMsgTTL_def set_ttl_def ip_of_rr_def [abs_def] comp_def)


lemma batchExchange_outcome:
  assumes "picker_reachable fast" and "tasks fast = map Finished outs" and "map task_outcome replies = map Some outs"
  shows "\<exists>r. batchExchange fast = Some r \<and>
    (\<forall>m. r = Ret m \<longrightarrow> first_ok (commits fast) = Some m \<and> Ret m \<in> set replies \<and> usable m) \<and>
    ((\<exists>m. r = Ret m) \<longleftrightarrow> (\<exists>m. Ret m \<in> set replies \<and> usable m)) \<and>
    ((\<nexists>m. r = Ret m) \<longrightarrow> r = Fail (allFailed (first_err (commits fast))))"
proof -
  have inv: "wgcount fast = 0" "presult fast = first_ok (commits fast)" "perr fast = first_err (commits fast)"
    and perm: "mset (commits fast) = outcomes (map Finished outs)"
    using picker_reachable_inv [OF assms(1)] assms(2) by (auto simp: picker_inv_def finished_def)
  have "outcomes (map Finished outs) = mset outs"
    by (induction outs) (simp_all add: outcomes_def)
  with perm have set: "set (commits fast) = set outs"
    by (metis set_mset_mset)
  have usable: "Inl m \<in> set outs \<longleftrightarrow> Ret m \<in> set replies \<and> usable m" for m
  proof -
    have "Inl m \<in> set outs \<longleftrightarrow> Some (Inl m) \<in> set (map task_outcome replies)"
      unfolding assms(3) by auto
    also have "\<dots> \<longleftrightarrow> (\<exists>r \<in> set replies. task_outcome r = Some (Inl m))"
      by (metis (no_types, lifting) imageE imageI set_map)
    finally show ?thesis
      unfolding task_outcome_Inl by blast
  qed
  show ?thesis
  proof (cases "first_ok (commits fast)")
    case None
    then have "\<nexists>m. Ret m \<in> set replies \<and> usable m"
      using usable set unfolding first_ok_None by fastforce
    with None inv show ?thesis
      by (auto simp: batchExchange_def Wait_def Error_def)
  next
    case (Some m)
    then have "Ret m \<in> set replies \<and> usable m"
      using first_ok_set [OF Some] set usable by blast
    with Some inv show ?thesis
      by (auto simp: batchExchange_def Wait_def)
  qed
qed

section \<open>Properties\<close>

text \<open>The exchange with all name servers. However the goroutines interleave, once all of them have
  returned what their servers answered (\<open>replies\<close>), the wait ends; the result is the usable answer
  (neither SERVFAIL nor REFUSED) that was recorded first, and it is an error exactly when no server
  gave a usable answer, with no server at all included.\<close>

theorem batchExchange_first_answer:
  assumes "picker_reachable fast" and "tasks fast = map Finished outs" and "map task_outcome replies = map Some outs"
  shows "\<exists>r. batchExchange fast = Some r \<and>
    (\<forall>m. r = Ret m \<longrightarrow> first_ok (commits fast) = Some m \<and> Ret m \<in> set replies \<and> usable m) \<and>
    ((\<exists>m. r = Ret m) \<longleftrightarrow> (\<exists>m. Ret m \<in> set replies \<and> usable m)) \<and>
    ((\<nexists>m. r = Ret m) \<longrightarrow> r = Fail (allFailed (first_err (commits fast))))"
  by (rule batchExchange_outcome [OF assms])

definition example_reply :: Msg where
  "example_reply = \<lparr>Rcode = 0, Truncated = False, RecursionDesired = True, RecursionAvailable = True,
     AuthenticatedData = False, CheckingDisabled = False,
     mQuestion = [\<lparr>qName = ''a.b.'', Qtype = TypeA, Qclass = ClassINET\<rparr>],
     Answer = [\<lparr>rrName = ''a.b.'', Rrtype = TypeA, Ttl = 300, Rdata = RR_A [1, 2, 3, 4]\<rparr>], Ns = [], Extra = []\<rparr>"

definition example_batch :: "Msg Picker" where
  "example_batch = Go_done 0 (Inl example_reply) (Go_commit 0 (Inl example_reply)
     (Go_return 0 (Inl example_reply) (Go_start newPicker)))"

lemma example_batch_reachable: "picker_reachable example_batch"
proof -
  have s1: "picker_reachable (Go_start newPicker :: Msg Picker)"
    by (rule picker_reachable.step [OF picker_reachable.init picker_step.go])
  have s2: "picker_reachable (Go_return 0 (Inl example_reply) (Go_start newPicker))"
    by (rule picker_reachable.step [OF s1 picker_step.returns]) (simp_all add: Go_start_def newPicker_def)
  have s3: "picker_reachable (Go_commit 0 (Inl example_reply) (Go_return 0 (Inl example_reply) (Go_start newPicker)))"
    by (rule picker_reachable.step [OF s2 picker_step.commit]) (simp_all add: Go_start_def Go_return_def newPicker_def)
  show ?thesis
    unfolding example_batch_def
    by (rule picker_reachable.step [OF s3 picker_step.finish])
      (simp_all add: Go_start_def Go_return_def Go_commit_def newPicker_def)
qed

theorem batchExchange_first_answer_witness:
  "\<exists>m. batchExchange example_batch = Some (Ret m) \<and> usable m"
proof -
  have "usable example_reply"
    by (simp add: usable_def example_reply_def RcodeServerFailure_def RcodeRefused_def)
  moreover from this have "map task_outcome [Ret example_reply] = map Some [Inl example_reply]"
    by (simp add: task_outcome_Inl)
  moreover have "tasks example_batch = map Finished [Inl example_reply]"
    by (simp add: example_batch_def Go_start_def Go_return_def Go_commit_def Go_done_def newPicker_def)
  ultimately show ?thesis
    using batchExchange_first_answer [OF example_batch_reachable] by fastforce
qed

end
