(* ===== verification/Cache.thy ===== *)
theory Cache
  imports Prelude
begin

text \<open>
  The LRU cache of \<^verbatim>\<open>internal/cache/lrucache.go\<close>.

  The list and the index hold pointers to entries, and \<^verbatim>\<open>CloneTo\<close> shares entries between caches, so the
  entries live in a heap; a cache holds the addresses in the order of the list (front first, the
  least recently used) and the index from keys to addresses. \<open>clock\<close> values are Unix seconds;
  an operation that reads the clock twice takes two values. The eviction callback is a log of its
  calls. A time is a number of nanoseconds since the epoch.
\<close>

section \<open>State\<close>

record ('k, 'v) entry =
  ekey :: 'k
  evalue :: 'v
  eexpires :: int

record ('k, 'v) heap =
  entries :: "nat \<Rightarrow> ('k, 'v) entry"
  nextp :: nat
  evicted :: "('k \<times> 'v) list"

record 'k LruCache =
  maxAge :: int
  maxSize :: int
  cache :: "'k \<rightharpoonup> nat"
  lru :: "nat list"
  updateAgeOnGet :: bool
  staleReturn :: bool
  onEvict :: bool

definition wrap64 :: "int \<Rightarrow> int" where
  "wrap64 x = signed_take_bit 63 x"

definition time_Unix :: "int \<Rightarrow> int" where
  "time_Unix sec = sec * 1000000000"

definition Unix :: "int \<Rightarrow> int" where
  "Unix t = t div 1000000000"

section \<open>Operations\<close>

definition WithEvict :: "'k LruCache \<Rightarrow> 'k LruCache" where
  "WithEvict l = l\<lparr>onEvict := True\<rparr>"

definition WithUpdateAgeOnGet :: "'k LruCache \<Rightarrow> 'k LruCache" where
  "WithUpdateAgeOnGet l = l\<lparr>updateAgeOnGet := True\<rparr>"

definition WithAge :: "int \<Rightarrow> 'k LruCache \<Rightarrow> 'k LruCache" where
  "WithAge age l = l\<lparr>maxAge := age\<rparr>"

definition WithSize :: "int \<Rightarrow> 'k LruCache \<Rightarrow> 'k LruCache" where
  "WithSize n l = l\<lparr>maxSize := n\<rparr>"

definition WithStale :: "bool \<Rightarrow> 'k LruCache \<Rightarrow> 'k LruCache" where
  "WithStale stale l = l\<lparr>staleReturn := stale\<rparr>"

definition New :: "('k LruCache \<Rightarrow> 'k LruCache) list \<Rightarrow> 'k LruCache" where
  "New options = fold (\<lambda>option lc. option lc) options
     \<lparr>maxAge = 0, maxSize = 0, cache = Map.empty, lru = [], updateAgeOnGet = False,
      staleReturn = False, onEvict = False\<rparr>"

definition deleteElement ::
    "nat \<Rightarrow> 'k LruCache \<times> ('k, 'v) heap \<Rightarrow> 'k LruCache \<times> ('k, 'v) heap" where
  "deleteElement le = (\<lambda>(c, h).
     let e = entries h le;
         c' = c\<lparr>lru := remove1 le (lru c), cache := (cache c)(ekey e := None)\<rparr>
     in if onEvict c then (c', h\<lparr>evicted := evicted h @ [(ekey e, evalue e)]\<rparr>) else (c', h))"

definition MoveToBack :: "nat \<Rightarrow> 'k LruCache \<Rightarrow> 'k LruCache" where
  "MoveToBack le c = c\<lparr>lru := remove1 le (lru c) @ [le]\<rparr>"

text \<open>The loop of \<^verbatim>\<open>maybeDeleteOldest\<close>: while the front element has expired, delete it.\<close>

function delete_expired ::
    "int \<Rightarrow> 'k LruCache \<times> ('k, 'v) heap \<Rightarrow> 'k LruCache \<times> ('k, 'v) heap" where
  "delete_expired now s =
     (case lru (fst s) of
        [] \<Rightarrow> s
      | le # _ \<Rightarrow> if eexpires (entries (snd s) le) \<le> now
                  then delete_expired now (deleteElement le s) else s)"
  by pat_completeness auto
termination
  by (relation "measure (\<lambda>(now, s). length (lru (fst s)))")
    (auto simp: deleteElement_def Let_def split: prod.splits)

declare delete_expired.simps [simp del]

definition maybeDeleteOldest ::
    "int \<Rightarrow> 'k LruCache \<times> ('k, 'v) heap \<Rightarrow> 'k LruCache \<times> ('k, 'v) heap" where
  "maybeDeleteOldest now s =
     (if \<not> staleReturn (fst s) \<and> 0 < maxAge (fst s) then delete_expired now s else s)"

definition lru_get :: "int \<Rightarrow> int \<Rightarrow> 'k \<Rightarrow> 'k LruCache \<times> ('k, 'v) heap \<Rightarrow>
    ('k, 'v) entry option \<times> ('k LruCache \<times> ('k, 'v) heap)" where
  "lru_get now1 now2 key = (\<lambda>(c, h).
     case cache c key of
       None \<Rightarrow> (None, (c, h))
     | Some le \<Rightarrow>
         if \<not> staleReturn c \<and> 0 < maxAge c \<and> eexpires (entries h le) \<le> now1
         then (None, maybeDeleteOldest now2 (deleteElement le (c, h)))
         else let c' = MoveToBack le c;
                  h' = (if 0 < maxAge c \<and> updateAgeOnGet c
                        then h\<lparr>entries := (entries h)(le := (entries h le)\<lparr>eexpires := wrap64 (now2 + maxAge c)\<rparr>)\<rparr>
                        else h)
              in (Some (entries h' le), (c', h')))"

definition Get :: "int \<Rightarrow> int \<Rightarrow> 'k \<Rightarrow> 'k LruCache \<times> ('k, 'v) heap \<Rightarrow>
    'v option \<times> ('k LruCache \<times> ('k, 'v) heap)" where
  "Get now1 now2 key s = (let (e, s') = lru_get now1 now2 key s in (map_option evalue e, s'))"

definition GetWithExpire :: "int \<Rightarrow> int \<Rightarrow> 'k \<Rightarrow> 'k LruCache \<times> ('k, 'v) heap \<Rightarrow>
    ('v \<times> int) option \<times> ('k LruCache \<times> ('k, 'v) heap)" where
  "GetWithExpire now1 now2 key s =
     (let (e, s') = lru_get now1 now2 key s
      in (map_option (\<lambda>e. (evalue e, time_Unix (eexpires e))) e, s'))"

definition Exist :: "'k \<Rightarrow> 'k LruCache \<times> ('k, 'v) heap \<Rightarrow> bool" where
  "Exist key s = (cache (fst s) key \<noteq> None)"

definition insert_new :: "'k \<Rightarrow> 'v \<Rightarrow> int \<Rightarrow> 'k LruCache \<times> ('k, 'v) heap \<Rightarrow> 'k LruCache \<times> ('k, 'v) heap" where
  "insert_new key value expires = (\<lambda>(c, h).
     let le = nextp h;
         h' = h\<lparr>entries := (entries h)(le := \<lparr>ekey = key, evalue = value, eexpires = Unix expires\<rparr>),
                nextp := Suc le\<rparr>;
         c' = c\<lparr>lru := lru c @ [le], cache := (cache c)(key \<mapsto> le)\<rparr>
     in if 0 < maxSize c \<and> maxSize c < int (length (lru c'))
        then deleteElement (hd (lru c')) (c', h') else (c', h'))"

definition SetWithExpire :: "int \<Rightarrow> 'k \<Rightarrow> 'v \<Rightarrow> int \<Rightarrow> 'k LruCache \<times> ('k, 'v) heap \<Rightarrow>
    'k LruCache \<times> ('k, 'v) heap" where
  "SetWithExpire now key value expires = (\<lambda>(c, h).
     maybeDeleteOldest now
       (case cache c key of
          Some le \<Rightarrow>
            (MoveToBack le c,
             h\<lparr>entries := (entries h)(le := (entries h le)\<lparr>evalue := value, eexpires := Unix expires\<rparr>)\<rparr>)
        | None \<Rightarrow> insert_new key value expires (c, h)))"

definition Set :: "int \<Rightarrow> int \<Rightarrow> 'k \<Rightarrow> 'v \<Rightarrow> 'k LruCache \<times> ('k, 'v) heap \<Rightarrow> 'k LruCache \<times> ('k, 'v) heap" where
  "Set now1 now2 key value s =
     (let expires = (if 0 < maxAge (fst s) then wrap64 (now1 + maxAge (fst s)) else 0)
      in SetWithExpire now2 key value (time_Unix expires) s)"

definition Delete :: "'k \<Rightarrow> 'k LruCache \<times> ('k, 'v) heap \<Rightarrow> 'k LruCache \<times> ('k, 'v) heap" where
  "Delete key = (\<lambda>(c, h). case cache c key of Some le \<Rightarrow> deleteElement le (c, h) | None \<Rightarrow> (c, h))"

definition CloneTo :: "'k LruCache \<Rightarrow> 'k LruCache \<Rightarrow> ('k, 'v) heap \<Rightarrow> 'k LruCache" where
  "CloneTo c n h =
     fold (\<lambda>le n. n\<lparr>lru := lru n @ [le], cache := (cache n)(ekey (entries h le) \<mapsto> le)\<rparr>)
       (lru c) (n\<lparr>lru := [], cache := Map.empty\<rparr>)"

section \<open>Invariant and abstraction\<close>

text \<open>The index and the list agree: the index maps a key to an element exactly when that element is in the
  list and its entry carries that key.\<close>

definition cache_inv :: "'k LruCache \<times> ('k, 'v) heap \<Rightarrow> bool" where
  "cache_inv = (\<lambda>(c, h). distinct (lru c) \<and> (\<forall>p \<in> set (lru c). p < nextp h) \<and>
     (\<forall>k p. cache c k = Some p \<longleftrightarrow> p \<in> set (lru c) \<and> ekey (entries h p) = k))"

definition size_inv :: "'k LruCache \<times> ('k, 'v) heap \<Rightarrow> bool" where
  "size_inv s \<longleftrightarrow> (0 < maxSize (fst s) \<longrightarrow> int (length (lru (fst s))) \<le> maxSize (fst s))"

text \<open>The abstract state: the entries from the least to the most recently used, keys distinct.\<close>

definition contents :: "'k LruCache \<times> ('k, 'v) heap \<Rightarrow> ('k, 'v) entry list" where
  "contents = (\<lambda>(c, h). map (entries h) (lru c))"

definition lookup :: "'k LruCache \<times> ('k, 'v) heap \<Rightarrow> 'k \<rightharpoonup> 'v" where
  "lookup s k = map_option (\<lambda>p. evalue (entries (snd s) p)) (cache (fst s) k)"

definition a_find :: "'k \<Rightarrow> ('k, 'v) entry list \<Rightarrow> ('k, 'v) entry option" where
  "a_find k es = find (\<lambda>e. ekey e = k) es"

definition a_delete :: "'k \<Rightarrow> ('k, 'v) entry list \<Rightarrow> ('k, 'v) entry list" where
  "a_delete k es = filter (\<lambda>e. ekey e \<noteq> k) es"

definition a_expire :: "bool \<Rightarrow> int \<Rightarrow> ('k, 'v) entry list \<Rightarrow> ('k, 'v) entry list" where
  "a_expire active now es = (if active then dropWhile (\<lambda>e. eexpires e \<le> now) es else es)"

definition a_bound :: "int \<Rightarrow> ('k, 'v) entry list \<Rightarrow> ('k, 'v) entry list" where
  "a_bound n es = (if 0 < n \<and> n < int (length es) then tl es else es)"

definition a_put :: "int \<Rightarrow> ('k, 'v) entry \<Rightarrow> ('k, 'v) entry list \<Rightarrow> ('k, 'v) entry list" where
  "a_put n e es =
     (if a_find (ekey e) es = None then a_bound n (es @ [e]) else a_delete (ekey e) es @ [e])"

definition expiring :: "'k LruCache \<Rightarrow> bool" where
  "expiring c \<longleftrightarrow> \<not> staleReturn c \<and> 0 < maxAge c"

text \<open>The options of a cache, which no operation changes.\<close>

definition config :: "'k LruCache \<Rightarrow> int \<times> int \<times> bool \<times> bool \<times> bool" where
  "config c = (maxAge c, maxSize c, updateAgeOnGet c, staleReturn c, onEvict c)"

lemma length_contents [simp]: "length (contents s) = length (lru (fst s))"
  by (cases s) (simp add: contents_def)

lemma cache_invD:
  assumes "cache_inv (c, h)"
  shows "distinct (lru c)" and "p \<in> set (lru c) \<Longrightarrow> p < nextp h"
    and "cache c k = Some p \<longleftrightarrow> p \<in> set (lru c) \<and> ekey (entries h p) = k"
  using assms by (auto simp: cache_inv_def)

lemma cache_inv_key_inj:
  assumes "cache_inv (c, h)" and "p \<in> set (lru c)" and "q \<in> set (lru c)"
    and "ekey (entries h p) = ekey (entries h q)"
  shows "p = q"
  using cache_invD(3) [OF assms(1)] assms(2-4) by (metis option.inject)

lemma cache_None_iff:
  assumes "cache_inv (c, h)"
  shows "cache c k = None \<longleftrightarrow> (\<forall>p \<in> set (lru c). ekey (entries h p) \<noteq> k)"
  using cache_invD(3) [OF assms] by (metis not_Some_eq)

lemma find_None_iff_key: "a_find k es = None \<longleftrightarrow> (\<forall>e \<in> set es. ekey e \<noteq> k)"
  by (auto simp: a_find_def find_None_iff)

lemma find_Some_key: "a_find k es = Some e \<Longrightarrow> e \<in> set es \<and> ekey e = k"
  by (auto simp: a_find_def find_Some_iff)

lemma a_find_contents:
  assumes "cache_inv (c, h)"
  shows "a_find k (contents (c, h)) = map_option (entries h) (cache c k)"
proof (cases "cache c k")
  case None
  then have "a_find k (contents (c, h)) = None"
    using cache_None_iff [OF assms, of k] by (auto simp: find_None_iff_key contents_def)
  with None show ?thesis by simp
next
  case (Some p)
  then have p: "p \<in> set (lru c)" "ekey (entries h p) = k"
    using cache_invD(3) [OF assms] by auto
  then obtain e where e: "a_find k (contents (c, h)) = Some e"
    using find_None_iff_key [of k "contents (c, h)"] by (fastforce simp: contents_def)
  then obtain q where "q \<in> set (lru c)" "e = entries h q" "ekey (entries h q) = k"
    using find_Some_key [OF e] by (auto simp: contents_def)
  then show ?thesis
    using cache_inv_key_inj [OF assms] p e Some by force
qed

lemma lookup_contents:
  "cache_inv s \<Longrightarrow> lookup s k = map_option evalue (a_find k (contents s))"
  by (cases s) (simp add: lookup_def a_find_contents option.map_comp comp_def)

lemma distinct_keys_contents: "cache_inv s \<Longrightarrow> distinct (map ekey (contents s))"
  by (cases s) (auto simp: contents_def distinct_map inj_on_def cache_invD(1) dest: cache_inv_key_inj)

section \<open>Refinement of the list operations\<close>

lemma remove1_eq_filter:
  "distinct xs \<Longrightarrow> remove1 x xs = filter (\<lambda>y. y \<noteq> x) xs"
  by (simp add: distinct_remove1_removeAll removeAll_filter_not_eq eq_commute)

lemma map_remove1_key:
  assumes "cache_inv (c, h)" and "p \<in> set (lru c)"
  shows "map (entries h) (remove1 p (lru c)) = a_delete (ekey (entries h p)) (contents (c, h))"
proof -
  have "filter (\<lambda>q. q \<noteq> p) (lru c) = filter (\<lambda>q. ekey (entries h q) \<noteq> ekey (entries h p)) (lru c)"
    using cache_inv_key_inj [OF assms(1)] assms(2) by (intro filter_cong) auto
  then show ?thesis
    using cache_invD(1) [OF assms(1)]
    by (simp add: remove1_eq_filter a_delete_def contents_def filter_map comp_def)
qed

lemma deleteElement_spec:
  assumes "cache_inv s" and "p \<in> set (lru (fst s))"
  shows "cache_inv (deleteElement p s)"
    and "contents (deleteElement p s) = a_delete (ekey (entries (snd s) p)) (contents s)"
    and "config (fst (deleteElement p s)) = config (fst s)"
    and "entries (snd (deleteElement p s)) = entries (snd s)"
    and "lru (fst (deleteElement p s)) = remove1 p (lru (fst s))"
proof -
  obtain c h where s: "s = (c, h)"
    by fastforce
  have inv: "cache_inv (c, h)"
    using assms(1) s by simp
  note D = cache_invD [OF inv]
  show "entries (snd (deleteElement p s)) = entries (snd s)"
    and "lru (fst (deleteElement p s)) = remove1 p (lru (fst s))"
    and "config (fst (deleteElement p s)) = config (fst s)"
    by (simp_all add: deleteElement_def s Let_def config_def)
  show "contents (deleteElement p s) = a_delete (ekey (entries (snd s) p)) (contents s)"
    using map_remove1_key [OF inv] assms(2) by (simp add: deleteElement_def s Let_def contents_def)
  have "k \<noteq> ekey (entries h p) \<and> q \<in> set (lru c) \<and> ekey (entries h q) = k \<longleftrightarrow>
        q \<in> set (lru c) \<and> q \<noteq> p \<and> ekey (entries h q) = k" for k q
    using cache_inv_key_inj [OF inv] assms(2) s by auto
  then show "cache_inv (deleteElement p s)"
    using D assms(2) by (auto simp: deleteElement_def s Let_def cache_inv_def)
qed

lemma delete_expired_spec:
  assumes "cache_inv s"
  shows "cache_inv (delete_expired now s) \<and>
    contents (delete_expired now s) = dropWhile (\<lambda>e. eexpires e \<le> now) (contents s) \<and>
    config (fst (delete_expired now s)) = config (fst s)"
  using assms
proof (induction now s rule: delete_expired.induct)
  case (1 now s)
  obtain c h where s: "s = (c, h)"
    by fastforce
  show ?case
  proof (cases "lru c")
    case Nil
    then show ?thesis
      using "1.prems" s by (simp add: delete_expired.simps contents_def)
  next
    case (Cons p ps)
    show ?thesis
    proof (cases "eexpires (entries h p) \<le> now")
      case True
      note del = deleteElement_spec [OF "1.prems", of p]
      have "a_delete (ekey (entries h p)) (contents s) = tl (contents s)"
        using map_remove1_key [of c h p] "1.prems" Cons s by (simp add: contents_def)
      moreover have "delete_expired now s = delete_expired now (deleteElement p s)"
        using Cons True s by (subst delete_expired.simps) simp
      ultimately show ?thesis
        using "1.IH" [of p ps] del Cons True s by (simp add: contents_def)
    next
      case False
      then show ?thesis
        using Cons "1.prems" s by (subst (1 2 3) delete_expired.simps) (simp add: contents_def)
    qed
  qed
qed

lemma maybeDeleteOldest_spec:
  assumes "cache_inv s"
  shows "cache_inv (maybeDeleteOldest now s)"
    and "contents (maybeDeleteOldest now s) = a_expire (expiring (fst s)) now (contents s)"
    and "config (fst (maybeDeleteOldest now s)) = config (fst s)"
  using delete_expired_spec [OF assms, of now]
  by (auto simp: maybeDeleteOldest_def a_expire_def expiring_def assms)

lemma MoveToBack_update_spec:
  assumes inv: "cache_inv (c, h)" and p: "cache c k = Some p" and e: "ekey e = k"
  shows "cache_inv (MoveToBack p c, h\<lparr>entries := (entries h)(p := e)\<rparr>)"
    and "contents (MoveToBack p c, h\<lparr>entries := (entries h)(p := e)\<rparr>) = a_delete k (contents (c, h)) @ [e]"
proof -
  note D = cache_invD [OF inv]
  have mem: "p \<in> set (lru c)" "ekey (entries h p) = k"
    using D(3) p by auto
  have "map (entries h) (remove1 p (lru c)) = map ((entries h)(p := e)) (remove1 p (lru c))"
    using D(1) by (intro map_cong) auto
  then show "contents (MoveToBack p c, h\<lparr>entries := (entries h)(p := e)\<rparr>) = a_delete k (contents (c, h)) @ [e]"
    using map_remove1_key [OF inv mem(1)] mem(2) by (simp add: contents_def MoveToBack_def)
  show "cache_inv (MoveToBack p c, h\<lparr>entries := (entries h)(p := e)\<rparr>)"
    using D mem e by (auto simp: cache_inv_def MoveToBack_def)
qed

lemma insert_new_spec:
  assumes inv: "cache_inv s" and new: "cache (fst s) k = None"
  shows "cache_inv (insert_new k v x s)"
    and "contents (insert_new k v x s) =
      a_bound (maxSize (fst s)) (contents s @ [\<lparr>ekey = k, evalue = v, eexpires = Unix x\<rparr>])"
    and "config (fst (insert_new k v x s)) = config (fst s)"
proof -
  obtain c h where s: "s = (c, h)"
    by fastforce
  have inv': "cache_inv (c, h)"
    using inv s by simp
  note D = cache_invD [OF inv']
  let ?e = "\<lparr>ekey = k, evalue = v, eexpires = Unix x\<rparr>"
  let ?c = "c\<lparr>lru := lru c @ [nextp h], cache := (cache c)(k \<mapsto> nextp h)\<rparr>"
  let ?h = "h\<lparr>entries := (entries h)(nextp h := ?e), nextp := Suc (nextp h)\<rparr>"
  let ?s = "(?c, ?h)"
  have fresh: "nextp h \<notin> set (lru c)"
    using D(2) by blast
  have "ekey (entries h p) \<noteq> k" if "p \<in> set (lru c)" for p
    using cache_None_iff [OF inv', of k] new s that by simp
  then have inv1: "cache_inv ?s"
    using D fresh by (auto simp: cache_inv_def less_SucI)
  have "map ((entries h)(nextp h := ?e)) (lru c) = map (entries h) (lru c)"
    using fresh by (intro map_cong) auto
  then have con1: "contents ?s = contents s @ [?e]"
    by (simp add: contents_def s)
  have "a_delete (ekey (entries (snd ?s) (hd (lru ?c)))) (contents ?s) = tl (contents ?s)"
    using map_remove1_key [OF inv1, of "hd (lru ?c)"]
    by (cases "lru c") (simp_all add: contents_def del: fun_upd_apply)
  moreover have "hd (lru ?c) \<in> set (lru ?c)"
    by (cases "lru c") simp_all
  ultimately show "cache_inv (insert_new k v x s)"
    and "contents (insert_new k v x s) = a_bound (maxSize (fst s)) (contents s @ [?e])"
    and "config (fst (insert_new k v x s)) = config (fst s)"
    using inv1 con1 deleteElement_spec [OF inv1, of "hd (lru ?c)"]
    by (auto simp: insert_new_def s Let_def a_bound_def config_def simp del: fun_upd_apply)
qed

text \<open>The locked operations refine the abstract list, and keep the invariant and the options.\<close>

lemma SetWithExpire_spec:
  assumes inv: "cache_inv s"
  shows "cache_inv (SetWithExpire now k v x s)"
    and "contents (SetWithExpire now k v x s) = a_expire (expiring (fst s)) now
           (a_put (maxSize (fst s)) \<lparr>ekey = k, evalue = v, eexpires = Unix x\<rparr> (contents s))"
    and "config (fst (SetWithExpire now k v x s)) = config (fst s)"
proof -
  obtain c h where s: "s = (c, h)"
    by fastforce
  have inv': "cache_inv (c, h)"
    using inv s by simp
  let ?e = "\<lparr>ekey = k, evalue = v, eexpires = Unix x\<rparr>"
  define s1 where "s1 = (case cache c k of
      Some le \<Rightarrow> (MoveToBack le c,
        h\<lparr>entries := (entries h)(le := (entries h le)\<lparr>evalue := v, eexpires := Unix x\<rparr>)\<rparr>)
    | None \<Rightarrow> insert_new k v x (c, h))"
  have s1: "cache_inv s1 \<and> contents s1 = a_put (maxSize c) ?e (contents (c, h)) \<and> config (fst s1) = config c"
  proof (cases "cache c k")
    case None
    then show ?thesis
      using insert_new_spec [OF inv', of k v x] a_find_contents [OF inv', of k]
      by (simp add: s1_def a_put_def)
  next
    case (Some p)
    then have "ekey (entries h p) = k"
      using cache_invD(3) [OF inv'] by simp
    then have "(entries h p)\<lparr>evalue := v, eexpires := Unix x\<rparr> = ?e"
      by simp
    then show ?thesis
      using Some MoveToBack_update_spec [OF inv' Some, of ?e] a_find_contents [OF inv', of k]
      by (simp add: s1_def a_put_def config_def MoveToBack_def)
  qed
  have "expiring (fst s1) = expiring c"
    using s1 by (auto simp: expiring_def config_def)
  moreover have "SetWithExpire now k v x s = maybeDeleteOldest now s1"
    by (simp add: SetWithExpire_def s s1_def)
  ultimately show "cache_inv (SetWithExpire now k v x s)"
    and "contents (SetWithExpire now k v x s) = a_expire (expiring (fst s)) now (a_put (maxSize (fst s)) ?e (contents s))"
    and "config (fst (SetWithExpire now k v x s)) = config (fst s)"
    using s1 maybeDeleteOldest_spec [of s1 now] s by auto
qed

lemma Delete_spec:
  assumes inv: "cache_inv s"
  shows "cache_inv (Delete k s)" and "contents (Delete k s) = a_delete k (contents s)"
    and "config (fst (Delete k s)) = config (fst s)"
proof -
  obtain c h where s: "s = (c, h)"
    by fastforce
  have "cache_inv (Delete k s) \<and> contents (Delete k s) = a_delete k (contents s) \<and> config (fst (Delete k s)) = config c"
  proof (cases "cache c k")
    case None
    then have "a_delete k (contents s) = contents s"
      using cache_None_iff [of c h k] inv s by (auto simp: a_delete_def contents_def)
    with None inv s show ?thesis
      by (simp add: Delete_def)
  next
    case (Some p)
    then show ?thesis
      using deleteElement_spec [OF inv, of p] cache_invD(3) [of c h k p] inv s
      by (simp add: Delete_def)
  qed
  then show "cache_inv (Delete k s)" and "contents (Delete k s) = a_delete k (contents s)"
    and "config (fst (Delete k s)) = config (fst s)"
    using s by simp_all
qed

definition a_get :: "'k LruCache \<Rightarrow> int \<Rightarrow> int \<Rightarrow> 'k \<Rightarrow> ('k, 'v) entry list \<Rightarrow>
    ('k, 'v) entry option \<times> ('k, 'v) entry list" where
  "a_get c now1 now2 k es = (case a_find k es of
       None \<Rightarrow> (None, es)
     | Some e \<Rightarrow>
         if expiring c \<and> eexpires e \<le> now1 then (None, a_expire True now2 (a_delete k es))
         else let e' = (if 0 < maxAge c \<and> updateAgeOnGet c then e\<lparr>eexpires := wrap64 (now2 + maxAge c)\<rparr> else e)
              in (Some e', a_delete k es @ [e']))"

lemma lru_get_spec:
  assumes inv: "cache_inv s"
  shows "cache_inv (snd (lru_get now1 now2 k s))"
    and "(fst (lru_get now1 now2 k s), contents (snd (lru_get now1 now2 k s))) =
           a_get (fst s) now1 now2 k (contents s)"
    and "config (fst (snd (lru_get now1 now2 k s))) = config (fst s)"
proof -
  obtain c h where s: "s = (c, h)"
    by fastforce
  let ?r = "lru_get now1 now2 k s"
  have "cache_inv (snd ?r) \<and> (fst ?r, contents (snd ?r)) = a_get c now1 now2 k (contents s) \<and>
        config (fst (snd ?r)) = config c"
  proof (cases "cache c k")
    case None
    then show ?thesis
      using a_find_contents [of c h k] inv s by (simp add: lru_get_def a_get_def)
  next
    case (Some p)
    have find: "a_find k (contents s) = Some (entries h p)"
      using a_find_contents [of c h k] inv s Some by simp
    have mem: "p \<in> set (lru c)" "ekey (entries h p) = k"
      using cache_invD(3) [of c h k p] inv s Some by simp_all
    show ?thesis
    proof (cases "expiring c \<and> eexpires (entries h p) \<le> now1")
      case True
      note del = deleteElement_spec [OF inv, of p]
      have "expiring (fst (deleteElement p s))"
        using del(3) mem(1) True s by (auto simp: expiring_def config_def)
      then show ?thesis
        using del maybeDeleteOldest_spec [of "deleteElement p s" now2] mem True Some s find
        by (simp add: lru_get_def a_get_def expiring_def)
    next
      case False
      let ?e = "if 0 < maxAge c \<and> updateAgeOnGet c then (entries h p)\<lparr>eexpires := wrap64 (now2 + maxAge c)\<rparr>
                else entries h p"
      have "lru_get now1 now2 k s = (Some ?e, (MoveToBack p c, h\<lparr>entries := (entries h)(p := ?e)\<rparr>))"
        using False Some s by (auto simp: lru_get_def expiring_def Let_def)
      then show ?thesis
        using MoveToBack_update_spec [of c h k p ?e] inv s Some mem find False
        by (simp add: a_get_def config_def MoveToBack_def Let_def)
    qed
  qed
  then show "cache_inv (snd ?r)" and "(fst ?r, contents (snd ?r)) = a_get (fst s) now1 now2 k (contents s)"
    and "config (fst (snd ?r)) = config (fst s)"
    using s by simp_all
qed

section \<open>Looking keys up after an operation\<close>

lemma a_find_delete [simp]: "a_find k (a_delete k' es) = (if k = k' then None else a_find k es)"
  by (induction es) (auto simp: a_find_def a_delete_def)

lemma a_find_append:
  "a_find k (es @ fs) = (case a_find k es of None \<Rightarrow> a_find k fs | Some e \<Rightarrow> Some e)"
  by (induction es) (auto simp: a_find_def)

lemma a_find_single [simp]: "a_find k [e] = (if ekey e = k then Some e else None)"
  by (simp add: a_find_def)

lemma a_find_suffix:
  assumes "distinct (map ekey (es @ fs))" and "a_find k fs = Some e"
  shows "a_find k (es @ fs) = Some e"
proof -
  have "k \<in> ekey ` set fs"
    using find_Some_key [OF assms(2)] by auto
  then have "a_find k es = None"
    using assms(1) by (auto simp: find_None_iff_key)
  then show ?thesis
    using assms(2) by (simp add: a_find_append)
qed

lemma a_expire_suffix: "\<exists>ds. es = ds @ a_expire b now es"
proof (cases b)
  case True
  then show ?thesis
    by (intro exI [of _ "takeWhile (\<lambda>e. eexpires e \<le> now) es"]) (simp add: a_expire_def)
qed (simp add: a_expire_def)

lemma a_bound_suffix: "\<exists>ds. es = ds @ a_bound n es"
  by (cases es) (auto simp: a_bound_def intro: exI [of _ "[]"])

lemma a_put_suffix:
  assumes "distinct (map ekey es)"
  obtains ds fs where "fs = ds @ a_put n e es" and "distinct (map ekey fs)"
    and "\<And>k. a_find k fs = (if k = ekey e then Some e else a_find k es)"
proof (cases "a_find (ekey e) es")
  case None
  then obtain ds where ds: "es @ [e] = ds @ a_put n e es"
    using a_bound_suffix [of "es @ [e]" n] by (auto simp: a_put_def)
  show thesis
  proof (rule that [OF ds])
    show "distinct (map ekey (es @ [e]))"
      using None assms by (auto simp: find_None_iff_key)
    show "\<And>k. a_find k (es @ [e]) = (if k = ekey e then Some e else a_find k es)"
      using None by (auto simp: a_find_append split: option.splits)
  qed
next
  case (Some e')
  show thesis
  proof (rule that [of "a_put n e es" "[]"])
    show "distinct (map ekey (a_put n e es))"
      using Some assms by (auto simp: a_put_def a_delete_def distinct_map_filter)
    show "\<And>k. a_find k (a_put n e es) = (if k = ekey e then Some e else a_find k es)"
      using Some by (auto simp: a_put_def a_find_append split: option.splits)
  qed simp
qed

lemma a_find_put:
  assumes "distinct (map ekey es)" and "a_find k (a_expire b now (a_put n e es)) = Some x"
  shows "(if k = ekey e then Some e else a_find k es) = Some x"
proof -
  obtain ds fs where fs: "fs = ds @ a_put n e es" "distinct (map ekey fs)"
    and find: "a_find k fs = (if k = ekey e then Some e else a_find k es)"
    using a_put_suffix [OF assms(1), of n e] by metis
  obtain ds' where "a_put n e es = ds' @ a_expire b now (a_put n e es)"
    using a_expire_suffix by blast
  with fs(1) have "fs = (ds @ ds') @ a_expire b now (a_put n e es)"
    by simp
  then show ?thesis
    using a_find_suffix [of "ds @ ds'" _ k x] fs(2) assms(2) find by metis
qed

lemma a_find_get:
  assumes "distinct (map ekey es)" and "a_find k' (snd (a_get c now1 now2 k es)) = Some x"
  shows "\<exists>e. a_find k' es = Some e \<and> evalue e = evalue x"
proof (cases "a_find k es")
  case None
  then show ?thesis
    using assms(2) by (simp add: a_get_def)
next
  case (Some e)
  have dk: "distinct (map ekey (a_delete k es))"
    using assms(1) by (simp add: a_delete_def distinct_map_filter)
  obtain ds where ds: "a_delete k es = ds @ a_expire True now2 (a_delete k es)"
    using a_expire_suffix by blast
  have "a_find k' (a_delete k es) = Some x" if "a_find k' (a_expire True now2 (a_delete k es)) = Some x"
    using a_find_suffix [of ds _ k' x] ds dk that by metis
  with Some assms(2) find_Some_key [OF Some] show ?thesis
    by (auto simp: a_get_def Let_def a_find_append split: if_splits option.splits)
qed

lemma a_get_value:
  "fst (a_get c now1 now2 k es) = Some e \<Longrightarrow> \<exists>e'. a_find k es = Some e' \<and> evalue e' = evalue e"
  by (auto simp: a_get_def Let_def split: option.splits if_splits)

section \<open>The cache as an interface\<close>

text \<open>What a client of a cache relies on. A cache may forget, so the laws bound the map of a state from
  above: after a store, a deletion or a fetch it holds nothing but what the operation
  leaves. \<open>'p\<close> and \<open>'q\<close> are the further arguments of a store and a fetch (times).\<close>

datatype ('p, 'q, 'k, 'v) cache_op = Store 'p 'k 'v | Remove 'k | Fetch 'q 'k

fun cache_exec :: "('p \<Rightarrow> 'k \<Rightarrow> 'v \<Rightarrow> 's \<Rightarrow> 's) \<Rightarrow> ('k \<Rightarrow> 's \<Rightarrow> 's) \<Rightarrow> ('q \<Rightarrow> 'k \<Rightarrow> 's \<Rightarrow> 'v option \<times> 's) \<Rightarrow>
    ('p, 'q, 'k, 'v) cache_op list \<Rightarrow> 's \<Rightarrow> 's" where
  "cache_exec put del get [] s = s"
| "cache_exec put del get (Store p k v # ops) s = cache_exec put del get ops (put p k v s)"
| "cache_exec put del get (Remove k # ops) s = cache_exec put del get ops (del k s)"
| "cache_exec put del get (Fetch q k # ops) s = cache_exec put del get ops (snd (get q k s))"

text \<open>The map that remembers everything: the last value stored under a key and not deleted since.\<close>

fun last_stored :: "('p, 'q, 'k, 'v) cache_op list \<Rightarrow> ('k \<rightharpoonup> 'v) \<Rightarrow> ('k \<rightharpoonup> 'v)" where
  "last_stored [] m = m"
| "last_stored (Store p k v # ops) m = last_stored ops (m(k \<mapsto> v))"
| "last_stored (Remove k # ops) m = last_stored ops (m(k := None))"
| "last_stored (Fetch q k # ops) m = last_stored ops m"

locale keyed_cache =
  fixes inv :: "'s \<Rightarrow> bool" and look :: "'s \<Rightarrow> 'k \<rightharpoonup> 'v"
    and put :: "'p \<Rightarrow> 'k \<Rightarrow> 'v \<Rightarrow> 's \<Rightarrow> 's" and del :: "'k \<Rightarrow> 's \<Rightarrow> 's"
    and get :: "'q \<Rightarrow> 'k \<Rightarrow> 's \<Rightarrow> 'v option \<times> 's"
  assumes inv_put: "inv s \<Longrightarrow> inv (put p k v s)"
    and inv_del: "inv s \<Longrightarrow> inv (del k s)"
    and inv_get: "inv s \<Longrightarrow> inv (snd (get q k s))"
    and look_put: "inv s \<Longrightarrow> look (put p k v s) \<subseteq>\<^sub>m (look s)(k \<mapsto> v)"
    and look_del: "inv s \<Longrightarrow> look (del k s) \<subseteq>\<^sub>m (look s)(k := None)"
    and look_get: "inv s \<Longrightarrow> look (snd (get q k s)) \<subseteq>\<^sub>m look s"
    and get_hit: "inv s \<Longrightarrow> fst (get q k s) = Some v \<Longrightarrow> look s k = Some v"
begin

lemma exec_inv: "inv s \<Longrightarrow> inv (cache_exec put del get ops s)"
proof (induction ops arbitrary: s)
  case (Cons a ops)
  then show ?case
    by (cases a) (simp_all add: inv_put inv_del inv_get)
qed simp

lemma exec_bounded:
  assumes "inv s" and "look s \<subseteq>\<^sub>m m"
  shows "look (cache_exec put del get ops s) \<subseteq>\<^sub>m last_stored ops m"
  using assms
proof (induction ops arbitrary: s m)
  case (Cons a ops)
  show ?case
  proof (cases a)
    case (Store p k v)
    have "look (put p k v s) \<subseteq>\<^sub>m m(k \<mapsto> v)"
      using look_put [OF Cons.prems(1)] map_le_trans [OF _ map_le_upd [OF Cons.prems(2)]] by blast
    then show ?thesis
      using Cons.IH [OF inv_put] Cons.prems(1) Store by simp
  next
    case (Remove k)
    have "look (del k s) \<subseteq>\<^sub>m m(k := None)"
      using look_del [OF Cons.prems(1), of k] Cons.prems(2) by (force simp: map_le_def dom_def)
    then show ?thesis
      using Cons.IH [OF inv_del] Cons.prems(1) Remove by simp
  next
    case (Fetch q k)
    have "look (snd (get q k s)) \<subseteq>\<^sub>m m"
      using look_get [OF Cons.prems(1)] Cons.prems(2) map_le_trans by blast
    then show ?thesis
      using Cons.IH [OF inv_get] Cons.prems(1) Fetch by simp
  qed
qed simp

lemma hit_is_last_stored:
  assumes "inv s" and "look s \<subseteq>\<^sub>m m" and "fst (get q k (cache_exec put del get ops s)) = Some v"
  shows "last_stored ops m k = Some v"
  using get_hit [OF exec_inv [OF assms(1)] assms(3)] exec_bounded [OF assms(1,2)]
  by (metis domI map_le_def)

end

definition lru_put :: "int \<times> int \<Rightarrow> 'k \<Rightarrow> 'v \<Rightarrow> 'k LruCache \<times> ('k, 'v) heap \<Rightarrow> 'k LruCache \<times> ('k, 'v) heap" where
  "lru_put = (\<lambda>(now, expires) k v. SetWithExpire now k v expires)"

definition lru_fetch :: "int \<times> int \<Rightarrow> 'k \<Rightarrow> 'k LruCache \<times> ('k, 'v) heap \<Rightarrow> 'v option \<times> ('k LruCache \<times> ('k, 'v) heap)" where
  "lru_fetch = (\<lambda>(now1, now2) k. Get now1 now2 k)"

abbreviation lru_exec :: "(int \<times> int, int \<times> int, 'k, 'v) cache_op list \<Rightarrow>
    'k LruCache \<times> ('k, 'v) heap \<Rightarrow> 'k LruCache \<times> ('k, 'v) heap" where
  "lru_exec \<equiv> cache_exec lru_put Delete lru_fetch"

lemma Get_run:
  "fst (Get now1 now2 k s) = map_option evalue (fst (lru_get now1 now2 k s))"
  "snd (Get now1 now2 k s) = snd (lru_get now1 now2 k s)"
  by (simp_all add: Get_def split: prod.splits)

lemma lookup_SetWithExpire:
  assumes "cache_inv s" and "lookup (SetWithExpire now k v x s) k' = Some w"
  shows "((lookup s)(k \<mapsto> v)) k' = Some w"
proof -
  let ?e = "\<lparr>ekey = k, evalue = v, eexpires = Unix x\<rparr>"
  obtain e where "a_find k' (a_expire (expiring (fst s)) now (a_put (maxSize (fst s)) ?e (contents s))) = Some e"
    and w: "evalue e = w"
    using assms lookup_contents [OF SetWithExpire_spec(1) [OF assms(1)]] SetWithExpire_spec(2) [OF assms(1)]
    by auto
  from a_find_put [OF distinct_keys_contents [OF assms(1)] this(1)] w show ?thesis
    using lookup_contents [OF assms(1), of k'] by (auto split: if_splits)
qed

lemma lookup_Delete: "cache_inv s \<Longrightarrow> lookup (Delete k s) = (lookup s)(k := None)"
  using lookup_contents [OF Delete_spec(1)] lookup_contents by (fastforce simp: Delete_spec)

lemma Get_spec:
  assumes "cache_inv s"
  shows "cache_inv (snd (Get now1 now2 k s))"
    and "contents (snd (Get now1 now2 k s)) = snd (a_get (fst s) now1 now2 k (contents s))"
    and "fst (Get now1 now2 k s) = map_option evalue (fst (a_get (fst s) now1 now2 k (contents s)))"
    and "config (fst (snd (Get now1 now2 k s))) = config (fst s)"
  using lru_get_spec [OF assms, of now1 now2 k] by (simp_all add: Get_run) (metis fst_conv snd_conv)+

lemma lookup_Get:
  assumes "cache_inv s" and "lookup (snd (Get now1 now2 k s)) k' = Some w"
  shows "lookup s k' = Some w"
proof -
  obtain e where "a_find k' (snd (a_get (fst s) now1 now2 k (contents s))) = Some e" and "evalue e = w"
    using assms lookup_contents [OF Get_spec(1) [OF assms(1)]] Get_spec(2) [OF assms(1)] by auto
  then show ?thesis
    using a_find_get [OF distinct_keys_contents [OF assms(1)]] lookup_contents [OF assms(1)] by force
qed

lemma Get_hit: "cache_inv s \<Longrightarrow> fst (Get now1 now2 k s) = Some v \<Longrightarrow> lookup s k = Some v"
  using a_get_value by (force simp: Get_spec lookup_contents)

interpretation lru: keyed_cache cache_inv lookup lru_put Delete lru_fetch
proof unfold_locales
  fix s :: "'a LruCache \<times> ('a, 'b) heap" and p q :: "int \<times> int" and k v
  assume inv: "cache_inv s"
  show "cache_inv (lru_put p k v s)" and "cache_inv (Delete k s)" and "cache_inv (snd (lru_fetch q k s))"
    by (simp_all add: lru_put_def lru_fetch_def SetWithExpire_spec Delete_spec Get_spec inv split: prod.splits)
  show "lookup (lru_put p k v s) \<subseteq>\<^sub>m (lookup s)(k \<mapsto> v)"
    by (cases p) (auto simp: lru_put_def simp del: fun_upd_apply
        intro!: map_le_by_values lookup_SetWithExpire [OF inv])
  show "lookup (Delete k s) \<subseteq>\<^sub>m (lookup s)(k := None)"
    by (simp add: lookup_Delete inv)
  show "lookup (snd (lru_fetch q k s)) \<subseteq>\<^sub>m lookup s"
    using lookup_Get [OF inv] by (intro map_le_by_values) (simp add: lru_fetch_def split: prod.splits)
  show "lookup s k = Some v" if "fst (lru_fetch q k s) = Some v"
    using that Get_hit [OF inv] by (simp add: lru_fetch_def split: prod.splits)
qed

section \<open>Size and freshness\<close>

lemma length_a_delete_find:
  assumes "distinct (map ekey es)" and "a_find k es = Some e"
  shows "length (a_delete k es) < length es"
  unfolding a_delete_def using find_Some_key [OF assms(2)] by (intro length_filter_less [of e]) auto

lemma length_a_expire: "length (a_expire b now es) \<le> length es"
  by (simp add: a_expire_def length_dropWhile_le)

lemma a_expire_snoc:
  assumes "b \<Longrightarrow> now < eexpires e"
  shows "\<exists>gs. a_expire b now (fs @ [e]) = gs @ [e] \<and> set gs \<subseteq> set fs"
  using assms dropWhile_append3 [of "\<lambda>e. eexpires e \<le> now" e fs "[]"]
    set_dropWhileD [of _ "\<lambda>e. eexpires e \<le> now" fs]
  by (cases b) (auto simp: a_expire_def)

lemma size_inv_contents: "size_inv s \<longleftrightarrow> (0 < maxSize (fst s) \<longrightarrow> int (length (contents s)) \<le> maxSize (fst s))"
  by (simp add: size_inv_def)

lemma config_maxSize: "config c = config d \<Longrightarrow> maxSize c = maxSize d"
  by (simp add: config_def)

lemma size_inv_mono:
  assumes "size_inv s" and "config (fst t) = config (fst s)"
    and "length (contents t) \<le> length (contents s)"
  shows "size_inv t"
  using assms config_maxSize by (fastforce simp: size_inv_def)

lemma size_inv_put [go_inv]: "cache_inv s \<Longrightarrow> size_inv s \<Longrightarrow> size_inv (lru_put p k v s)"
proof (cases p)
  case (Pair now x)
  assume inv: "cache_inv s" and sz: "size_inv s"
  let ?e = "\<lparr>ekey = k, evalue = v, eexpires = Unix x\<rparr>" let ?n = "maxSize (fst s)"
  have "0 < ?n \<longrightarrow> int (length (a_put ?n ?e (contents s))) \<le> ?n"
    using sz length_a_delete_find [OF distinct_keys_contents [OF inv], of k]
    by (cases "a_find k (contents s)") (auto simp: a_put_def a_bound_def size_inv_def)
  then have "0 < ?n \<longrightarrow> int (length (contents (SetWithExpire now k v x s))) \<le> ?n"
    using length_a_expire [of "expiring (fst s)" now "a_put ?n ?e (contents s)"] SetWithExpire_spec(2) [OF inv]
    by (metis of_nat_le_iff order_trans)
  moreover have "maxSize (fst (SetWithExpire now k v x s)) = ?n"
    by (intro config_maxSize SetWithExpire_spec(3) inv)
  ultimately show ?thesis
    using Pair by (simp add: lru_put_def size_inv_contents del: length_contents)
qed

lemma size_inv_Delete [go_inv]: "cache_inv s \<Longrightarrow> size_inv s \<Longrightarrow> size_inv (Delete k s)"
  using length_filter_le [of "\<lambda>e. ekey e \<noteq> k" "contents s"]
  by (intro size_inv_mono [of s "Delete k s"]) (simp_all add: Delete_spec a_delete_def del: length_contents)

lemma length_a_get:
  assumes "distinct (map ekey es)"
  shows "length (snd (a_get c now1 now2 k es)) \<le> length es"
proof (cases "a_find k es")
  case (Some e)
  then show ?thesis
    using length_a_delete_find [OF assms Some] length_a_expire [of True now2 "a_delete k es"]
    by (auto simp: a_get_def Let_def)
qed (simp add: a_get_def)

lemma size_inv_fetch [go_inv]: "cache_inv s \<Longrightarrow> size_inv s \<Longrightarrow> size_inv (snd (lru_fetch q k s))"
  by (rule size_inv_mono) (cases q; simp add: lru_fetch_def Get_spec length_a_get distinct_keys_contents
      del: length_contents)+

lemma exec_size_inv:
  "cache_inv s \<Longrightarrow> size_inv s \<Longrightarrow> size_inv (lru_exec ops s)"
proof (induction ops arbitrary: s)
  case (Cons a ops)
  then show ?case
    by (cases a) (simp_all add: go_inv lru.inv_put lru.inv_del lru.inv_get)
qed simp

text \<open>The options of the source, as data.\<close>

datatype cache_option = OEvict | OUpdateAgeOnGet | OAge int | OSize int | OStale bool

fun apply_option :: "cache_option \<Rightarrow> 'k LruCache \<Rightarrow> 'k LruCache" where
  "apply_option OEvict = WithEvict"
| "apply_option OUpdateAgeOnGet = WithUpdateAgeOnGet"
| "apply_option (OAge n) = WithAge n"
| "apply_option (OSize n) = WithSize n"
| "apply_option (OStale b) = WithStale b"

lemma apply_options_contents:
  "lru (fold (\<lambda>option lc. option lc) (map apply_option os) c) = lru c"
  "cache (fold (\<lambda>option lc. option lc) (map apply_option os) c) = cache c"
proof (induction os arbitrary: c)
  case (Cons a os)
  case 1 show ?case
    using Cons(1) by (cases a) (simp_all add: WithEvict_def WithUpdateAgeOnGet_def WithAge_def WithSize_def WithStale_def)
  case 2 show ?case
    using Cons(2) by (cases a) (simp_all add: WithEvict_def WithUpdateAgeOnGet_def WithAge_def WithSize_def WithStale_def)
qed simp_all

lemma New_empty: "lru (New (map apply_option os)) = []" "cache (New (map apply_option os)) = Map.empty"
  by (simp_all only: New_def apply_options_contents LruCache.simps)

lemma New_inv: "cache_inv (New (map apply_option os), h)" "size_inv (New (map apply_option os), h)"
  "lookup (New (map apply_option os), h) = Map.empty"
  by (auto simp: cache_inv_def size_inv_def lookup_def New_empty)

section \<open>Properties\<close>

text \<open>C8. After any sequence of stores, fetches and deletions on a new cache, with any options and at any
  clock values, the index and the recency list agree (no dangling, missing or duplicate element)
  and a size-limited cache holds at most its maximum number of entries.\<close>

theorem cache_invariant:
  "cache_inv (lru_exec ops (New (map apply_option os), h)) \<and>
   size_inv (lru_exec ops (New (map apply_option os), h))"
  by (simp add: lru.exec_inv exec_size_inv New_inv)

text \<open>C19. A hit is never wrong. Whatever was stored, fetched, deleted, expired or evicted before, a Get
  that returns a value returns the value of the last store under that key, with no deletion of
  the key since.\<close>

theorem cache_hit_is_last_stored:
  assumes "fst (Get now1 now2 k (lru_exec ops (New (map apply_option os), h))) = Some v"
  shows "last_stored ops Map.empty k = Some v"
  using lru.hit_is_last_stored [of "(New (map apply_option os), h)" Map.empty "(now1, now2)" k ops v] assms
  by (simp add: New_inv lru_fetch_def)

theorem cache_hit_is_last_stored_witness:
  "last_stored [Store (0::int, 5::int) ''a'' (1::int), Store (0::int, 5::int) ''b'' 2, Fetch (1::int, 1::int) ''a'', Store (0::int, 5::int) ''c'' 3]
     Map.empty ''a'' = Some 1"
proof (rule cache_hit_is_last_stored
    [of 0 0 _ _ "[OSize 2, OStale True]" "\<lparr>entries = (\<lambda>_. \<lparr>ekey = [], evalue = 0, eexpires = 0\<rparr>), nextp = 0, evicted = []\<rparr>"])
  show "fst (Get 0 0 ''a'' (lru_exec
      [Store (0::int, 5::int) ''a'' (1::int), Store (0::int, 5::int) ''b'' 2, Fetch (1::int, 1::int) ''a'', Store (0::int, 5::int) ''c'' 3]
      (New (map apply_option [OSize 2, OStale True]),
       \<lparr>entries = (\<lambda>_. \<lparr>ekey = [], evalue = 0, eexpires = 0\<rparr>), nextp = 0, evicted = []\<rparr>))) = Some 1"
    by (simp add: New_def WithSize_def WithStale_def lru_put_def lru_fetch_def SetWithExpire_def insert_new_def
        Get_def lru_get_def MoveToBack_def deleteElement_def maybeDeleteOldest_def Let_def)
qed

text \<open>Right after a store the stored entry is found.\<close>

lemma SetWithExpire_found:
  assumes "cache_inv s" and "expiring (fst s) \<Longrightarrow> now < Unix x"
  shows "a_find k (contents (SetWithExpire now k v x s)) = Some \<lparr>ekey = k, evalue = v, eexpires = Unix x\<rparr>"
proof -
  let ?e = "\<lparr>ekey = k, evalue = v, eexpires = Unix x\<rparr>" let ?n = "maxSize (fst s)"
  have "\<exists>fs. a_put ?n ?e (contents s) = fs @ [?e] \<and> a_find k fs = None"
  proof (cases "a_find k (contents s)")
    case None
    then have "a_find k (tl (contents s)) = None"
      by (cases "contents s") (auto simp: find_None_iff_key)
    with None show ?thesis
      by (cases "contents s") (auto simp: a_put_def a_bound_def)
  qed (simp add: a_put_def)
  then obtain fs where "a_put ?n ?e (contents s) = fs @ [?e]" and fs: "a_find k fs = None"
    by blast
  then obtain gs where con: "contents (SetWithExpire now k v x s) = gs @ [?e]" and "set gs \<subseteq> set fs"
    using a_expire_snoc [of "expiring (fst s)" now ?e fs] SetWithExpire_spec(2) [OF assms(1), of now k v x] assms(2) by auto
  moreover from this fs have "a_find k gs = None"
    by (auto simp: find_None_iff_key)
  ultimately show ?thesis
    by (simp add: a_find_append)
qed

lemma SetWithExpire_GetWithExpire:
  assumes "cache_inv s" and "\<not> expiring (fst s)" and "\<not> (0 < maxAge (fst s) \<and> updateAgeOnGet (fst s))"
  shows "fst (GetWithExpire now1 now2 k (SetWithExpire now k v x s)) = Some (v, time_Unix (Unix x))"
proof -
  let ?t = "SetWithExpire now k v x s"
  note sp = SetWithExpire_spec [OF assms(1), of now k v x]
  have "\<not> expiring (fst ?t)" "\<not> (0 < maxAge (fst ?t) \<and> updateAgeOnGet (fst ?t))"
    using sp(3) assms(2,3) by (simp_all add: expiring_def config_def)
  then have "fst (a_get (fst ?t) now1 now2 k (contents ?t)) = Some \<lparr>ekey = k, evalue = v, eexpires = Unix x\<rparr>"
    using SetWithExpire_found [of s now x k v] assms by (auto simp: a_get_def Let_def)
  then have "fst (lru_get now1 now2 k ?t) = Some \<lparr>ekey = k, evalue = v, eexpires = Unix x\<rparr>"
    using lru_get_spec(2) [OF sp(1), of now1 now2 k] by (metis fst_conv)
  then show ?thesis
    by (auto simp: GetWithExpire_def split: prod.splits)
qed

text \<open>A stored value can be read back. Right after SetWithExpire (on any reachable cache, full or
  not), Get of that key returns the stored value, unless the cache expires entries and the given
  expiry has passed by the second clock reading.\<close>

theorem SetWithExpire_Get:
  assumes "cache_inv s" and "expiring (fst s) \<Longrightarrow> now < Unix x \<and> now1 < Unix x"
  shows "fst (Get now1 now2 k (SetWithExpire now k v x s)) = Some v"
proof -
  let ?t = "SetWithExpire now k v x s"
  note sp = SetWithExpire_spec [OF assms(1), of now k v x]
  have "expiring (fst ?t) = expiring (fst s)"
    using sp(3) by (simp add: expiring_def config_def)
  then show ?thesis
    using Get_spec(3) [OF sp(1), of now1 now2 k] SetWithExpire_found [OF assms(1)] assms(2)
    by (auto simp: a_get_def Let_def)
qed

theorem SetWithExpire_Get_witness:
  "fst (Get 7 8 ''a'' (SetWithExpire 5 ''a'' (1::int) (time_Unix 9)
     (New (map apply_option [OAge 4, OSize 1]),
      \<lparr>entries = (\<lambda>_. \<lparr>ekey = [], evalue = 0, eexpires = 0\<rparr>), nextp = 0, evicted = []\<rparr>))) = Some 1"
  by (rule SetWithExpire_Get) (simp_all only: New_inv, simp_all add: Unix_def time_Unix_def)

text \<open>C36. Eviction follows recency. Storing a new key in a full cache that does not expire entries drops
  exactly the least recently used entry, keeps the order of the others, and makes the new entry the
  most recently used one.\<close>

theorem evicts_least_recently_used:
  assumes "cache_inv s" and "\<not> expiring (fst s)" and "lookup s k = None"
    and "0 < maxSize (fst s)" and "int (length (lru (fst s))) = maxSize (fst s)"
  shows "contents (SetWithExpire now k v x s) = tl (contents s) @ [\<lparr>ekey = k, evalue = v, eexpires = Unix x\<rparr>]"
proof -
  have "a_find k (contents s) = None"
    using lookup_contents [OF assms(1), of k] assms(3) by simp
  moreover have "contents s \<noteq> []"
    using assms(4,5) length_contents [of s] by fastforce
  ultimately show ?thesis
    using assms by (simp add: SetWithExpire_spec a_expire_def a_put_def a_bound_def)
qed

theorem evicts_least_recently_used_witness:
  "contents (SetWithExpire 0 ''b'' (2::int) (time_Unix 7)
     (SetWithExpire 0 ''a'' 1 (time_Unix 7) (New (map apply_option [OSize 1]),
        \<lparr>entries = (\<lambda>_. \<lparr>ekey = [], evalue = 0, eexpires = 0\<rparr>), nextp = 0, evicted = []\<rparr>))) =
   [\<lparr>ekey = ''b'', evalue = 2, eexpires = 7\<rparr>]"
proof -
  let ?s = "SetWithExpire 0 ''a'' (1::int) (time_Unix 7) (New (map apply_option [OSize 1]),
        \<lparr>entries = (\<lambda>_. \<lparr>ekey = [], evalue = 0, eexpires = 0\<rparr>), nextp = 0, evicted = []\<rparr>)"
  have inv: "cache_inv ?s"
    by (intro SetWithExpire_spec New_inv)
  have "?s = (\<lparr>maxAge = 0, maxSize = 1, cache = [''a'' \<mapsto> 0], lru = [0], updateAgeOnGet = False,
      staleReturn = False, onEvict = False\<rparr>,
      \<lparr>entries = (\<lambda>_. \<lparr>ekey = [], evalue = 0, eexpires = 0\<rparr>)(0 := \<lparr>ekey = ''a'', evalue = 1, eexpires = 7\<rparr>),
       nextp = 1, evicted = []\<rparr>)"
    by (simp add: New_def WithSize_def SetWithExpire_def insert_new_def maybeDeleteOldest_def Let_def
        Unix_def time_Unix_def)
  then show ?thesis
    using evicts_least_recently_used [OF inv, of "''b''" 0 2 "time_Unix 7"]
    by (simp add: expiring_def lookup_def Unix_def time_Unix_def contents_def)
qed

text \<open>\<^verbatim>\<open>CloneTo\<close> rebuilds index and list of the target over the source's entries.\<close>

lemma delete_expired_entries: "entries (snd (delete_expired now s)) = entries (snd s)"
proof (induction now s rule: delete_expired.induct)
  case (1 now s)
  have "entries (snd (deleteElement p s)) = entries (snd s)" for p
    by (cases s) (simp add: deleteElement_def Let_def)
  then show ?case
    using "1.IH" by (subst delete_expired.simps) (auto split: list.splits)
qed

lemma maybeDeleteOldest_entries: "entries (snd (maybeDeleteOldest now s)) = entries (snd s)"
  by (simp add: maybeDeleteOldest_def delete_expired_entries)

lemma clone_loop:
  assumes "distinct ps" and "inj_on (\<lambda>p. ekey (entries h p)) (set ps)"
    and "set ps \<inter> set (lru n) = {}" and "\<And>k p. cache n k = Some p \<longleftrightarrow> p \<in> set (lru n) \<and> ekey (entries h p) = k"
    and "\<And>p q. p \<in> set ps \<Longrightarrow> q \<in> set (lru n) \<Longrightarrow> ekey (entries h p) \<noteq> ekey (entries h q)"
  defines "f \<equiv> \<lambda>le n. n\<lparr>lru := lru n @ [le], cache := (cache n)(ekey (entries h le) \<mapsto> le)\<rparr>"
  shows "lru (fold f ps n) = lru n @ ps \<and> config (fold f ps n) = config n \<and>
    (\<forall>k p. cache (fold f ps n) k = Some p \<longleftrightarrow> p \<in> set (lru n @ ps) \<and> ekey (entries h p) = k)"
  using assms(1-5)
proof (induction ps arbitrary: n)
  case Nil
  then show ?case by simp
next
  case (Cons p ps)
  have "lru (fold f ps (f p n)) = lru (f p n) @ ps \<and> config (fold f ps (f p n)) = config (f p n) \<and>
    (\<forall>k q. cache (fold f ps (f p n)) k = Some q \<longleftrightarrow> q \<in> set (lru (f p n) @ ps) \<and> ekey (entries h q) = k)"
  proof (rule Cons.IH)
    show "cache (f p n) k = Some q \<longleftrightarrow> q \<in> set (lru (f p n)) \<and> ekey (entries h q) = k" for k q
      using Cons.prems(4) Cons.prems(5) [of p q] by (auto simp: f_def)
    show "ekey (entries h q) \<noteq> ekey (entries h r)" if "q \<in> set ps" "r \<in> set (lru (f p n))" for q r
      using Cons.prems(1,2,5) that by (auto simp: f_def inj_on_def)
  qed (use Cons.prems in \<open>auto simp: f_def\<close>)
  then show ?case
    by (simp add: f_def config_def)
qed

lemma CloneTo_spec:
  assumes "cache_inv (c, h)"
  shows "cache_inv (CloneTo c n h, h)" and "contents (CloneTo c n h, h) = contents (c, h)"
    and "config (CloneTo c n h) = config n" and "cache (CloneTo c n h) = cache c"
proof -
  note D = cache_invD [OF assms]
  have "inj_on (\<lambda>p. ekey (entries h p)) (set (lru c))"
    using cache_inv_key_inj [OF assms] by (auto simp: inj_on_def)
  then have "lru (CloneTo c n h) = lru c \<and> config (CloneTo c n h) = config n \<and>
    (\<forall>k p. cache (CloneTo c n h) k = Some p \<longleftrightarrow> p \<in> set (lru c) \<and> ekey (entries h p) = k)"
    using clone_loop [of "lru c" h "n\<lparr>lru := [], cache := Map.empty\<rparr>"] D(1)
    by (simp add: CloneTo_def config_def)
  then show "cache_inv (CloneTo c n h, h)" and "contents (CloneTo c n h, h) = contents (c, h)"
    and "config (CloneTo c n h) = config n"
    using D by (auto simp: cache_inv_def contents_def)
  have "cache (CloneTo c n h) k = Some p \<longleftrightarrow> cache c k = Some p" for k p
    using \<open>_ \<and> _ \<and> _\<close> D(3) by simp
  then show "cache (CloneTo c n h) = cache c"
    by (metis ext not_None_eq)
qed

text \<open>CloneTo gives the target the same entries in the same recency order and a consistent index,
  whatever the target held before, and leaves the target's own options alone. The two caches share the
  entries: overwriting a key in the source afterwards is seen through the clone too.\<close>

theorem CloneTo_copies_and_shares:
  assumes "cache_inv (c, h)"
  shows "cache_inv (CloneTo c n h, h) \<and> contents (CloneTo c n h, h) = contents (c, h) \<and>
    config (CloneTo c n h) = config n \<and>
    (lookup (c, h) k \<noteq> None \<longrightarrow>
       lookup (CloneTo c n h, snd (SetWithExpire now k v x (c, h))) k = Some v)"
proof -
  note C = CloneTo_spec [OF assms, of n]
  have "lookup (CloneTo c n h, snd (SetWithExpire now k v x (c, h))) k = Some v" if "lookup (c, h) k \<noteq> None"
  proof -
    obtain p where p: "cache c k = Some p"
      using \<open>lookup (c, h) k \<noteq> None\<close> by (auto simp: lookup_def)
    then show ?thesis
      using C(4) by (simp add: lookup_def SetWithExpire_def maybeDeleteOldest_entries)
  qed
  then show ?thesis
    using C by blast
qed

theorem CloneTo_copies_and_shares_witness:
  "lookup (CloneTo \<lparr>maxAge = 0, maxSize = 1, cache = [''a'' \<mapsto> 0], lru = [0], updateAgeOnGet = False,
      staleReturn = False, onEvict = False\<rparr> (New (map apply_option [OSize 9]))
      \<lparr>entries = (\<lambda>_. \<lparr>ekey = ''a'', evalue = (1::int), eexpires = 7\<rparr>), nextp = 1, evicted = []\<rparr>,
    snd (SetWithExpire 0 ''a'' (2::int) 0 (\<lparr>maxAge = 0, maxSize = 1, cache = [''a'' \<mapsto> 0], lru = [0], updateAgeOnGet = False,
      staleReturn = False, onEvict = False\<rparr>,
      \<lparr>entries = (\<lambda>_. \<lparr>ekey = ''a'', evalue = 1, eexpires = 7\<rparr>), nextp = 1, evicted = []\<rparr>))) ''a'' = Some 2"
proof -
  let ?c = "\<lparr>maxAge = 0, maxSize = 1, cache = [''a'' \<mapsto> 0], lru = [0], updateAgeOnGet = False,
      staleReturn = False, onEvict = False\<rparr>"
  let ?h = "\<lparr>entries = (\<lambda>_. \<lparr>ekey = ''a'', evalue = (1::int), eexpires = 7\<rparr>), nextp = 1, evicted = []\<rparr>"
  have inv: "cache_inv (?c, ?h)"
    by (auto simp: cache_inv_def)
  have hit: "lookup (?c, ?h) ''a'' \<noteq> None"
    by (simp add: lookup_def)
  show ?thesis
    by (rule CloneTo_copies_and_shares [OF inv, THEN conjunct2, THEN conjunct2, THEN conjunct2, THEN mp, OF hit])
qed

end
