(* ===== verification/Dns.thy ===== *)
theory Dns
  imports Dns_Message Cache
begin

text \<open>
  \<^verbatim>\<open>internal/dns/resolver.go\<close> and the rest of \<^verbatim>\<open>util.go\<close>: the caching resolver.

  The cache holds pointers to messages, so the messages live in a heap (\<open>dmsgs\<close>; an address is an index,
  and an allocation appends); \<^verbatim>\<open>Msg.Copy\<close> allocates, and \<^verbatim>\<open>setMsgTTL\<close> writes through the pointer. One
  exchange sees a \<open>world\<close>: the clock readings in the order of the code (a time is in nanoseconds,
  the cache reads seconds), what the name servers answer to the query (the outcome of
  \<open>batchExchange\<close>), and whether the goroutine that refreshes a stale entry runs before the bare
  \<^verbatim>\<open>return\<close>, whose result \<^verbatim>\<open>err\<close> it overwrites. The text of a question, \<^verbatim>\<open>dns.Fqdn\<close> and \<^verbatim>\<open>Msg.SetQuestion\<close> are those of
  the library (\<open>dns_lib\<close>).
\<close>

record dns_lib =
  q_String :: "Question \<Rightarrow> string"
  Fqdn :: "string \<Rightarrow> string"
  SetQuestion :: "string \<Rightarrow> 16 word \<Rightarrow> Msg"

record world =
  w_get1 :: int
  w_get2 :: int
  w_now :: int
  w_until :: int
  w_put :: int
  w_set :: int
  w_reply :: "Msg \<Rightarrow> Msg res"
  w_early :: bool

text \<open>\<open>dmain\<close> are the clients of the name servers (they have no resolver of their own, hence no state), and
  \<open>refreshing\<close> holds the queries of the refresh goroutines that have not run yet.\<close>

record dstate =
  dmain :: "(Msg, nat, unit) client list"
  dmsgs :: "Msg list"
  dcache :: "string LruCache \<times> (string, nat) heap"
  refreshing :: "Msg list"

section \<open>The operations\<close>

definition msg_new :: "Msg \<Rightarrow> dstate \<Rightarrow> nat \<times> dstate" where
  "msg_new m st = (length (dmsgs st), st\<lparr>dmsgs := dmsgs st @ [m]\<rparr>)"

definition Msg_Copy :: "nat \<Rightarrow> dstate \<Rightarrow> nat \<times> dstate" where
  "Msg_Copy a st = msg_new (dmsgs st ! a) st"

text \<open>\<^verbatim>\<open>time.Second * time.Duration(ttl)\<close> does not overflow for 32 bits of seconds.\<close>

definition putMsgToCache :: "int \<Rightarrow> int \<Rightarrow> string \<Rightarrow> nat \<Rightarrow> dstate \<Rightarrow> unit res \<times> dstate" where
  "putMsgToCache now set_now key a st =
     (case mQuestion (dmsgs st ! a) of
        [] \<Rightarrow> (Panic, st)
      | q # _ \<Rightarrow>
          if Qtype q = TypeTXT \<and> HasPrefix (qName q) ''_acme-challenge'' then (Ret (), st)
          else (case cache_ttl (dmsgs st ! a) of
                  None \<Rightarrow> (Ret (), st)
                | Some ttl \<Rightarrow>
                    let (a', st) = Msg_Copy a st
                    in (Ret (), st\<lparr>dcache := SetWithExpire set_now key a' (now + int (unat ttl) * 1000000000) (dcache st)\<rparr>)))"

text \<open>\<^verbatim>\<open>uint32(d.Seconds())\<close>: truncation towards zero (below \<open>2 ^ 23\<close> seconds the sum of the two floating point
  parts is never rounded up to the next second).\<close>

definition uint32_Seconds :: "int \<Rightarrow> 32 word" where
  "uint32_Seconds d = (if 0 \<le> d then of_int (d div 1000000000) else of_int (- ((- d) div 1000000000)))"

text \<open>\<^verbatim>\<open>ExchangeContext\<close> up to the query: a hit is a fresh copy with its TTLs set, and whether it is stale.\<close>

datatype exch_begin = Served nat bool | Ask

definition exchange_begin :: "dns_lib \<Rightarrow> world \<Rightarrow> Msg \<Rightarrow> dstate \<Rightarrow> exch_begin res \<times> dstate" where
  "exchange_begin L w m st =
     (case mQuestion m of
        [] \<Rightarrow> (Fail (ErrNew ''should have one question at least''), st)
      | q # _ \<Rightarrow>
          let (hit, c) = GetWithExpire (w_get1 w) (w_get2 w) (q_String L q) (dcache st); st = st\<lparr>dcache := c\<rparr>
          in case hit of
               None \<Rightarrow> (Ret Ask, st)
             | Some (a, expireTime) \<Rightarrow>
                 let (msg, st) = Msg_Copy a st; stale = (expireTime < w_now w);
                     ttl = (if stale then 1 else uint32_Seconds (expireTime - w_until w))
                 in (Ret (Served msg stale), st\<lparr>dmsgs := (dmsgs st)[msg := setMsgTTL ttl (dmsgs st ! msg)]\<rparr>))"

text \<open>The goroutine of \<^verbatim>\<open>asyncExchange\<close> sends what \<^verbatim>\<open>batchExchange\<close> returned on a channel; \<^verbatim>\<open>ipExchange\<close> receives it. A panic of
  the goroutine ends the process.\<close>

record exch_result =
  res_Msg :: "Msg option"
  res_Error :: "goerr option"

definition asyncExchange :: "world \<Rightarrow> Msg \<Rightarrow> exch_result option" where
  "asyncExchange w m =
     (case w_reply w m of
        Ret msg \<Rightarrow> Some \<lparr>res_Msg = Some msg, res_Error = None\<rparr>
      | Fail e \<Rightarrow> Some \<lparr>res_Msg = None, res_Error = Some e\<rparr>
      | Panic \<Rightarrow> None)"

definition ipExchange :: "world \<Rightarrow> Msg \<Rightarrow> Msg res" where
  "ipExchange w m =
     (case asyncExchange w m of
        None \<Rightarrow> Panic
      | Some res \<Rightarrow> (case (res_Msg res, res_Error res) of (Some msg, None) \<Rightarrow> Ret msg | (_, Some e) \<Rightarrow> Fail e | _ \<Rightarrow> Panic))"

lemma ipExchange_eq: "ipExchange w m = w_reply w m"
  by (simp add: ipExchange_def asyncExchange_def split: res.splits)

text \<open>The function given to \<^verbatim>\<open>group.Do\<close>: ask, and on success store the answer in the deferred call.\<close>

definition exchange_ask :: "dns_lib \<Rightarrow> world \<Rightarrow> Msg \<Rightarrow> dstate \<Rightarrow> nat res \<times> dstate" where
  "exchange_ask L w m st =
     (case mQuestion m of
        [] \<Rightarrow> (Panic, st)
      | q # _ \<Rightarrow>
          (case (if isIPRequest q then ipExchange w m else w_reply w m) of
             Fail e \<Rightarrow> (Fail e, st)
           | Panic \<Rightarrow> (Panic, st)
           | Ret reply \<Rightarrow>
               let (a, st) = msg_new reply st
               in case putMsgToCache (w_put w) (w_set w) (q_String L q) a st of
                    (Panic, st) \<Rightarrow> (Panic, st)
                  | (_, st) \<Rightarrow> (Ret a, st)))"

text \<open>No other call for the same question is under way: the result is not shared.\<close>

definition exchangeWithoutCache :: "dns_lib \<Rightarrow> world \<Rightarrow> Msg \<Rightarrow> dstate \<Rightarrow> nat res \<times> dstate" where
  "exchangeWithoutCache L w m st = exchange_ask L w m st"

definition ExchangeContext :: "dns_lib \<Rightarrow> world \<Rightarrow> Msg \<Rightarrow> dstate \<Rightarrow> nat res \<times> dstate" where
  "ExchangeContext L w m st =
     (case exchange_begin L w m st of
        (Fail e, st) \<Rightarrow> (Fail e, st)
      | (Panic, st) \<Rightarrow> (Panic, st)
      | (Ret Ask, st) \<Rightarrow> exchangeWithoutCache L w m st
      | (Ret (Served a stale), st) \<Rightarrow>
          if \<not> stale then (Ret a, st)
          else if \<not> w_early w then (Ret a, st\<lparr>refreshing := refreshing st @ [m]\<rparr>)
          else (case exchangeWithoutCache L w m st of (Ret _, st) \<Rightarrow> (Ret a, st) | r \<Rightarrow> r))"

definition dns_Exchange :: "dns_lib \<Rightarrow> world \<Rightarrow> Msg \<Rightarrow> dstate \<Rightarrow> nat res \<times> dstate" where
  "dns_Exchange L w m st = ExchangeContext L w m st"

definition lookupIP :: "dns_lib \<Rightarrow> world \<Rightarrow> string \<Rightarrow> 16 word \<Rightarrow> dstate \<Rightarrow> IP_bytes list res \<times> dstate" where
  "lookupIP L w host dnsType st =
     (let ip = net_ParseIP host; ip4 = To4 ip; isIPv4 = (ip4 \<noteq> [])
      in if ip \<noteq> [] then
           (if dnsType = TypeAAAA \<and> \<not> isIPv4 then (Ret [ip], st)
            else if dnsType = TypeA \<and> isIPv4 then (Ret [ip4], st)
            else (Fail ErrIPVersion, st))
         else
           (case dns_Exchange L w (SetQuestion L (Fqdn L host) dnsType) st of
              (Fail e, st) \<Rightarrow> (Fail e, st)
            | (Panic, st) \<Rightarrow> (Panic, st)
            | (Ret a, st) \<Rightarrow>
                let ips = msgToIP (dmsgs st ! a)
                in if ips = [] then (Fail ErrIPNotFound, st) else (Ret ips, st)))"

text \<open>\<^verbatim>\<open>LookupIP\<close> looks up both types in two goroutines; \<open>v6_first\<close> tells which of the two comes first to the
  cache. The AAAA look-up goes on after the function has returned the result of the A look-up; a panic
  of either ends the process.\<close>

definition lookup_result :: "IP_bytes list res \<Rightarrow> IP_bytes list res \<Rightarrow> IP_bytes list res" where
  "lookup_result r4 r6 =
     (if r4 = Panic \<or> r6 = Panic then Panic
      else (case r4 of
              Ret ips \<Rightarrow> Ret ips
            | _ \<Rightarrow> (case r6 of Ret ips \<Rightarrow> Ret ips | _ \<Rightarrow> Fail ErrIPNotFound)))"

definition dns_LookupIP ::
    "dns_lib \<Rightarrow> bool \<Rightarrow> world \<Rightarrow> world \<Rightarrow> string \<Rightarrow> dstate \<Rightarrow> IP_bytes list res \<times> dstate" where
  "dns_LookupIP L v6_first w4 w6 host st =
     (if v6_first then
        let (r6, st) = lookupIP L w6 host TypeAAAA st; (r4, st) = lookupIP L w4 host TypeA st in (lookup_result r4 r6, st)
      else
        let (r4, st) = lookupIP L w4 host TypeA st; (r6, st) = lookupIP L w6 host TypeAAAA st in (lookup_result r4 r6, st))"

definition dns_ResolveIP ::
    "(nat \<Rightarrow> nat) \<Rightarrow> dns_lib \<Rightarrow> bool \<Rightarrow> world \<Rightarrow> world \<Rightarrow> string \<Rightarrow> dstate \<Rightarrow> IP_bytes res \<times> dstate" where
  "dns_ResolveIP Intn L v6_first w4 w6 host st =
     (let (r, st) = dns_LookupIP L v6_first w4 w6 host st in (pick_ip Intn host r, st))"

definition dns_LookupIPv4 :: "dns_lib \<Rightarrow> world \<Rightarrow> string \<Rightarrow> dstate \<Rightarrow> IP_bytes list res \<times> dstate" where
  "dns_LookupIPv4 L w host st = lookupIP L w host TypeA st"

definition dns_ResolveIPv4 :: "(nat \<Rightarrow> nat) \<Rightarrow> dns_lib \<Rightarrow> world \<Rightarrow> string \<Rightarrow> dstate \<Rightarrow> IP_bytes res \<times> dstate" where
  "dns_ResolveIPv4 Intn L w host st =
     (let (r, st) = lookupIP L w host TypeA st in (pick_ip Intn host r, st))"

definition dns_LookupIPv6 :: "dns_lib \<Rightarrow> world \<Rightarrow> string \<Rightarrow> dstate \<Rightarrow> IP_bytes list res \<times> dstate" where
  "dns_LookupIPv6 L w host st = lookupIP L w host TypeAAAA st"

definition dns_ResolveIPv6 :: "(nat \<Rightarrow> nat) \<Rightarrow> dns_lib \<Rightarrow> world \<Rightarrow> string \<Rightarrow> dstate \<Rightarrow> IP_bytes res \<times> dstate" where
  "dns_ResolveIPv6 Intn L w host st =
     (let (r, st) = lookupIP L w host TypeAAAA st in (pick_ip Intn host r, st))"

definition msgToDomain :: "Msg \<Rightarrow> string" where
  "msgToDomain msg = (case mQuestion msg of q # _ \<Rightarrow> rev (dropWhile (\<lambda>c. c = CHR ''.'') (rev (qName q))) | [] \<Rightarrow> [])"

definition NewResolver :: "NameServer list \<Rightarrow> (string, nat) heap \<Rightarrow> dstate" where
  "NewResolver servers h = \<lparr>dmain = transform servers None, dmsgs = [], dcache = (New [WithSize 65535, WithStale True], h), refreshing = []\<rparr>"

text \<open>The methods of \<^verbatim>\<open>*dns.Resolver\<close> as an implementation of the interface \<^verbatim>\<open>resolver.Resolver\<close>.\<close>

definition dns_Resolver ::
    "(nat \<Rightarrow> nat) \<Rightarrow> dns_lib \<Rightarrow> bool \<Rightarrow> world \<Rightarrow> world \<Rightarrow> (Msg, nat, dstate) Resolver" where
  "dns_Resolver Intn L v6_first w4 w6 =
     \<lparr>r_LookupIP = dns_LookupIP L v6_first w4 w6, r_LookupIPv4 = dns_LookupIPv4 L w4, r_LookupIPv6 = dns_LookupIPv6 L w6,
      r_ResolveIP = dns_ResolveIP Intn L v6_first w4 w6, r_ResolveIPv4 = dns_ResolveIPv4 Intn L w4,
      r_ResolveIPv6 = dns_ResolveIPv6 Intn L w6, r_ExchangeContext = ExchangeContext L w4\<rparr>"


section \<open>One exchange and the cache\<close>

text \<open>Everything in the cache is a message of the heap with the property \<open>P\<close> for its key.\<close>

definition cached :: "(string \<Rightarrow> Msg \<Rightarrow> bool) \<Rightarrow> dstate \<Rightarrow> bool" where
  "cached P st \<longleftrightarrow> cache_inv (dcache st) \<and>
     (\<forall>k a. lookup (dcache st) k = Some a \<longrightarrow> a < length (dmsgs st) \<and> P k (dmsgs st ! a))"

lemma GetWithExpire_run:
  "fst (GetWithExpire now1 now2 k s) = map_option (\<lambda>e. (evalue e, time_Unix (eexpires e))) (fst (lru_get now1 now2 k s))"
  "snd (GetWithExpire now1 now2 k s) = snd (Get now1 now2 k s)"
  by (simp_all add: GetWithExpire_def Get_def split: prod.splits)

lemma GetWithExpire_hit: "cache_inv s \<Longrightarrow> GetWithExpire now1 now2 k s = (Some (v, x), s') \<Longrightarrow> lookup s k = Some v"
  using GetWithExpire_run(1) [of now1 now2 k s] Get_run(1) [of now1 now2 k s] Get_hit [of s now1 now2 k v]
  by (cases "fst (lru_get now1 now2 k s)") auto

lemma cached_mono: "cached P st \<Longrightarrow> (\<And>k m. P k m \<Longrightarrow> Q k m) \<Longrightarrow> cached Q st"
  by (auto simp: cached_def)

lemma cached_frame: "cached P (st\<lparr>refreshing := ms\<rparr>) = cached P st"
  by (simp add: cached_def)

lemma cachedD:
  assumes "cached P st"
  shows "cache_inv (dcache st)" and "lookup (dcache st) k = Some a \<Longrightarrow> a < length (dmsgs st)"
    and "lookup (dcache st) k = Some a \<Longrightarrow> P k (dmsgs st ! a)"
  using assms by (auto simp: cached_def)

lemma cached_extend:
  assumes "cached P st" and "dcache st' = dcache st" and "dmsgs st' = dmsgs st @ ms"
  shows "cached P st'"
  using cachedD [OF assms(1)] by (auto simp: cached_def assms(2,3) nth_append trans_less_add1)

lemma cached_Get:
  assumes "cached P st"
  shows "cached P (st\<lparr>dcache := snd (Get now1 now2 k (dcache st))\<rparr>)"
proof -
  note D = cachedD [OF assms]
  have "a < length (dmsgs st) \<and> P k' (dmsgs st ! a)" if "lookup (snd (Get now1 now2 k (dcache st))) k' = Some a" for k' a
    using D(2,3) [OF lookup_Get [OF D(1) that]] by blast
  then show ?thesis
    using Get_spec(1) [OF D(1)] by (simp add: cached_def)
qed

lemma cached_Set:
  assumes "cached P st" and "a < length (dmsgs st)" and "P k (dmsgs st ! a)"
  shows "cached P (st\<lparr>dcache := SetWithExpire now k a x (dcache st)\<rparr>)"
proof -
  note D = cachedD [OF assms(1)]
  have "b < length (dmsgs st) \<and> P k' (dmsgs st ! b)" if "lookup (SetWithExpire now k a x (dcache st)) k' = Some b" for k' b
    using lookup_SetWithExpire [OF D(1) that] D(2,3) [of k' b] assms(2,3) by (cases "k' = k") auto
  then show ?thesis
    using SetWithExpire_spec(1) [OF D(1)] by (simp add: cached_def)
qed

definition key_of :: "dns_lib \<Rightarrow> Msg \<Rightarrow> string" where
  "key_of L m = q_String L (hd (mQuestion m))"

text \<open>The TTL that a hit is served with.\<close>

definition hit_ttl :: "world \<Rightarrow> int \<Rightarrow> 32 word" where
  "hit_ttl w expireTime = (if expireTime < w_now w then 1 else uint32_Seconds (expireTime - w_until w))"

lemma exchange_begin_hit:
  assumes "mQuestion m = q # qs" and "GetWithExpire (w_get1 w) (w_get2 w) (q_String L q) (dcache st) = (Some (a, x), c)"
  shows "exchange_begin L w m st = (Ret (Served (length (dmsgs st)) (x < w_now w)),
    st\<lparr>dcache := c, dmsgs := dmsgs st @ [setMsgTTL (hit_ttl w x) (dmsgs st ! a)]\<rparr>)"
  using assms by (simp add: exchange_begin_def Msg_Copy_def msg_new_def hit_ttl_def Let_def)

text \<open>A hit hands out a fresh copy of a cached message with other TTLs; all existing messages stay as
  they are.\<close>

lemma exchange_begin_spec:
  assumes "exchange_begin L w m st = (r, st')" and "cached P st"
  shows "cached P st' \<and> refreshing st' = refreshing st \<and> (\<exists>ms. dmsgs st' = dmsgs st @ ms) \<and>
    (\<forall>a stale. r = Ret (Served a stale) \<longrightarrow> mQuestion m \<noteq> [] \<and> a = length (dmsgs st) \<and> a < length (dmsgs st') \<and>
       (\<exists>m0 t. P (key_of L m) m0 \<and> dmsgs st' ! a = setMsgTTL t m0)) \<and>
    (r = Ret Ask \<longrightarrow> mQuestion m \<noteq> [])"
proof (cases "mQuestion m")
  case Nil
  then show ?thesis
    using assms by (auto simp: exchange_begin_def intro: exI [of _ "[]"])
next
  case (Cons q qs)
  obtain hit c where g: "GetWithExpire (w_get1 w) (w_get2 w) (q_String L q) (dcache st) = (hit, c)"
    by (rule prod.exhaust)
  have c: "c = snd (Get (w_get1 w) (w_get2 w) (q_String L q) (dcache st))"
    using GetWithExpire_run(2) [of "w_get1 w" "w_get2 w" "q_String L q" "dcache st"] g by simp
  have inv: "cached P (st\<lparr>dcache := c\<rparr>)"
    unfolding c by (rule cached_Get [OF assms(2)])
  show ?thesis
  proof (cases hit)
    case None
    then show ?thesis
      using assms(1) Cons g inv by (auto simp: exchange_begin_def)
  next
    case (Some p)
    then obtain a x where hit: "hit = Some (a, x)"
      by (cases p) auto
    then have "lookup (dcache st) (q_String L q) = Some a"
      using GetWithExpire_hit [OF cachedD(1) [OF assms(2)]] g by blast
    then have a: "a < length (dmsgs st)" "P (q_String L q) (dmsgs st ! a)"
      using assms(2) by (auto simp: cached_def)
    have st': "st' = st\<lparr>dcache := c, dmsgs := dmsgs st @ [setMsgTTL (hit_ttl w x) (dmsgs st ! a)]\<rparr>"
      and r: "r = Ret (Served (length (dmsgs st)) (x < w_now w))"
      using exchange_begin_hit [OF Cons, of w L st a x c] assms(1) g hit by simp_all
    have "cached P st'"
      by (rule cached_extend [OF inv]) (simp_all add: st')
    with st' r a Cons show ?thesis
      by (auto simp: key_of_def)
  qed
qed

lemma putMsgToCache_spec:
  assumes "putMsgToCache now set_now k a st = (r, st')" and "cached P st" and "a < length (dmsgs st)" and "P k (dmsgs st ! a)"
  shows "cached P st' \<and> refreshing st' = refreshing st \<and> (\<exists>ms. dmsgs st' = dmsgs st @ ms) \<and>
    (r = Panic \<longleftrightarrow> mQuestion (dmsgs st ! a) = []) \<and> (\<nexists>e. r = Fail e)"
proof -
  have "cached P (st\<lparr>dmsgs := dmsgs st @ [dmsgs st ! a], dcache := SetWithExpire set_now k (length (dmsgs st)) x (dcache st)\<rparr>)" for x
    using cached_Set [OF cached_extend [OF assms(2), of "st\<lparr>dmsgs := dmsgs st @ [dmsgs st ! a]\<rparr>" "[dmsgs st ! a]"],
        of "length (dmsgs st)" k set_now x] assms(4) by simp
  then show ?thesis
    using assms(1,2) by (auto simp: putMsgToCache_def Msg_Copy_def msg_new_def split: list.splits if_splits option.splits)
qed

lemma exchange_ask_spec:
  assumes "exchange_ask L w m st = (r, st')" and "cached P st" and "\<And>reply. w_reply w m = Ret reply \<Longrightarrow> P (key_of L m) reply"
  shows "cached P st' \<and> refreshing st' = refreshing st \<and> (\<exists>ms. dmsgs st' = dmsgs st @ ms) \<and>
    (\<forall>a. r = Ret a \<longrightarrow> a < length (dmsgs st') \<and> w_reply w m = Ret (dmsgs st' ! a)) \<and>
    (\<forall>e. r = Fail e \<longrightarrow> w_reply w m = Fail e)"
proof (cases "mQuestion m")
  case Nil
  then show ?thesis
    using assms by (auto simp: exchange_ask_def)
next
  case (Cons q qs)
  have same: "(if isIPRequest q then ipExchange w m else w_reply w m) = w_reply w m"
    by (simp add: ipExchange_eq)
  show ?thesis
  proof (cases "w_reply w m")
    case (Ret reply)
    let ?s = "st\<lparr>dmsgs := dmsgs st @ [reply]\<rparr>"
    obtain r1 st1 where put: "putMsgToCache (w_put w) (w_set w) (q_String L q) (length (dmsgs st)) ?s = (r1, st1)"
      by (rule prod.exhaust)
    have "cached P ?s"
      by (rule cached_extend [OF assms(2)]) simp_all
    from putMsgToCache_spec [OF put this] have p: "cached P st1" "refreshing st1 = refreshing st"
      "\<exists>ms. dmsgs st1 = dmsgs st @ reply # ms" "\<nexists>e. r1 = Fail e"
      using assms(3) [OF Ret] Cons by (auto simp: key_of_def)
    with assms(1) Cons put Ret same show ?thesis
      by (cases r1) (auto simp: exchange_ask_def msg_new_def nth_append)
  qed (use assms Cons same in \<open>auto simp: exchange_ask_def\<close>)
qed


section \<open>Concurrent exchanges\<close>

text \<open>Calls overlap between the look at the cache and the arrival of the answer; the cache's mutex makes each
  of its operations one step. \<^verbatim>\<open>singleflight.Group\<close> keeps for a key the query under way and the number
  of further callers that wait for it; each of several callers gets a copy. \<open>delivered\<close> and \<open>answers\<close> are
  histories: what callers got for a key, and what name servers said to a query with that key.\<close>

record dsys =
  dres :: dstate
  flights :: "string \<rightharpoonup> Msg \<times> nat"
  delivered :: "(string \<times> Msg) list"
  answers :: "(string \<times> Msg) list"

definition join_flight :: "dns_lib \<Rightarrow> Msg \<Rightarrow> dsys \<Rightarrow> dsys" where
  "join_flight L m s =
     (case flights s (key_of L m) of
        None \<Rightarrow> s\<lparr>flights := (flights s)(key_of L m \<mapsto> (m, 0))\<rparr>
      | Some (m', n) \<Rightarrow> s\<lparr>flights := (flights s)(key_of L m \<mapsto> (m', Suc n))\<rparr>)"

definition share :: "nat \<Rightarrow> nat \<Rightarrow> dstate \<Rightarrow> nat list \<times> dstate" where
  "share dups a st =
     (if dups = 0 then ([a], st)
      else ([length (dmsgs st)..<length (dmsgs st) + Suc dups],
            st\<lparr>dmsgs := dmsgs st @ replicate (Suc dups) (dmsgs st ! a)\<rparr>))"

text \<open>What the exchanges with the name servers return; each meets its own circumstances.\<close>

definition replies_of :: "net_world list \<Rightarrow> Msg \<Rightarrow> (Msg, nat, unit) client list \<Rightarrow> Msg res list" where
  "replies_of Ws m cs = map (\<lambda>(W, c). fst (client_ExchangeContext W c m ())) (zip Ws cs)"

text \<open>What the servers may have said when \<open>batchExchange\<close> returned \<open>r\<close>.\<close>

definition batch_of :: "Msg res list \<Rightarrow> Msg res \<Rightarrow> bool" where
  "batch_of replies r \<longleftrightarrow> (\<exists>fast outs. picker_reachable fast \<and> tasks fast = map Finished outs \<and>
     map task_outcome replies = map Some outs \<and> batchExchange fast = Some r)"

definition said :: "string \<Rightarrow> Msg res list \<Rightarrow> (string \<times> Msg) list" where
  "said k replies = concat (map (\<lambda>r. case r of Ret m \<Rightarrow> [(k, m)] | _ \<Rightarrow> []) replies)"

inductive dns_step :: "dns_lib \<Rightarrow> dsys \<Rightarrow> dsys \<Rightarrow> bool" for L where
  hit: "exchange_begin L w m (dres s) = (Ret (Served a stale), st) \<Longrightarrow>
    dns_step L s (s\<lparr>dres := (if stale then st\<lparr>refreshing := refreshing st @ [m]\<rparr> else st),
      delivered := delivered s @ [(key_of L m, dmsgs st ! a)]\<rparr>)"
| miss: "exchange_begin L w m (dres s) = (Ret Ask, st) \<Longrightarrow> dns_step L s (join_flight L m (s\<lparr>dres := st\<rparr>))"
| refresh: "refreshing (dres s) = ms @ m # ms' \<Longrightarrow>
    dns_step L s (join_flight L m (s\<lparr>dres := (dres s)\<lparr>refreshing := ms @ ms'\<rparr>\<rparr>))"
| answer: "flights s k = Some (m, dups) \<Longrightarrow> batch_of replies (w_reply w m) \<Longrightarrow>
    exchange_ask L w m (dres s) = (Ret a, st) \<Longrightarrow> share dups a st = (as, st') \<Longrightarrow>
    length Ws = length (dmain (dres s)) \<Longrightarrow> replies = replies_of Ws m (dmain (dres s)) \<Longrightarrow>
    dns_step L s (s\<lparr>dres := st', flights := (flights s)(k := None),
      delivered := delivered s @ map (\<lambda>a. (k, dmsgs st' ! a)) as, answers := answers s @ said k replies\<rparr>)"
| failure: "flights s k = Some (m, dups) \<Longrightarrow> batch_of replies (w_reply w m) \<Longrightarrow>
    exchange_ask L w m (dres s) = (Fail e, st) \<Longrightarrow>
    length Ws = length (dmain (dres s)) \<Longrightarrow> replies = replies_of Ws m (dmain (dres s)) \<Longrightarrow>
    dns_step L s (s\<lparr>dres := st, flights := (flights s)(k := None), answers := answers s @ said k replies\<rparr>)"

definition dns_init :: "NameServer list \<Rightarrow> (string, nat) heap \<Rightarrow> dsys" where
  "dns_init servers h = \<lparr>dres = NewResolver servers h, flights = Map.empty, delivered = [], answers = []\<rparr>"

definition answered :: "dsys \<Rightarrow> string \<Rightarrow> Msg \<Rightarrow> bool" where
  "answered s k m \<longleftrightarrow> (k, m) \<in> set (answers s) \<and> usable m"

definition dns_inv :: "dns_lib \<Rightarrow> dsys \<Rightarrow> bool" where
  "dns_inv L s \<longleftrightarrow> cached (answered s) (dres s) \<and>
     (\<forall>(k, m) \<in> set (delivered s). \<exists>m'. answered s k m' \<and> same_but_ttl m m') \<and>
     (\<forall>k m n. flights s k = Some (m, n) \<longrightarrow> key_of L m = k)"

lemma batch_of_Ret: "batch_of replies (Ret m) \<Longrightarrow> Ret m \<in> set replies \<and> usable m"
  unfolding batch_of_def by (metis batchExchange_outcome option.inject)

lemma said_iff: "(k', m) \<in> set (said k replies) \<longleftrightarrow> k' = k \<and> Ret m \<in> set replies"
  by (force simp: said_def split: res.splits)

lemma answered_mono: "answers s' = answers s @ xs \<Longrightarrow> answered s k m \<Longrightarrow> answered s' k m"
  by (auto simp: answered_def)

lemma dns_invI:
  assumes "cached (answered s) (dres s)"
    and "\<And>k m. (k, m) \<in> set (delivered s) \<Longrightarrow> \<exists>m'. answered s k m' \<and> same_but_ttl m m'"
    and "\<And>k m n. flights s k = Some (m, n) \<Longrightarrow> key_of L m = k"
  shows "dns_inv L s"
  using assms by (auto simp: dns_inv_def)

lemma dns_invD:
  assumes "dns_inv L s"
  shows "cached (answered s) (dres s)"
    and "(k, m) \<in> set (delivered s) \<Longrightarrow> \<exists>m'. answered s k m' \<and> same_but_ttl m m'"
    and "flights s k = Some (m, n) \<Longrightarrow> key_of L m = k"
  using assms by (auto simp: dns_inv_def)

lemma dns_inv_join:
  assumes "dns_inv L s"
  shows "dns_inv L (join_flight L m s)"
proof -
  have "answered (join_flight L m s) = answered s" "dres (join_flight L m s) = dres s" "delivered (join_flight L m s) = delivered s"
    by (simp_all add: join_flight_def answered_def [abs_def] split: option.splits)
  moreover have "flights (join_flight L m s) k = Some (m', n) \<Longrightarrow> key_of L m' = k" for k m' n
    using dns_invD(3) [OF assms] by (auto simp: join_flight_def split: option.splits if_splits)
  ultimately show ?thesis
    using dns_invD [OF assms] by (intro dns_invI) simp_all
qed

lemma dns_inv_dst:
  assumes "dns_inv L s" and "cached (answered s) st"
  shows "dns_inv L (s\<lparr>dres := st\<rparr>)"
proof -
  have "answered (s\<lparr>dres := st\<rparr>) = answered s"
    by (simp add: answered_def [abs_def])
  then show ?thesis
    using dns_invD [OF assms(1)] assms(2) by (intro dns_invI) simp_all
qed

lemma share_spec:
  assumes "share dups a st = (as, st')" and "a < length (dmsgs st)" and "cached P st"
  shows "cached P st' \<and> (\<forall>b \<in> set as. dmsgs st' ! b = dmsgs st ! a) \<and> length as = Suc dups"
proof (cases "dups = 0")
  case False
  then have as: "as = [length (dmsgs st)..<length (dmsgs st) + Suc dups]"
    and st': "st' = st\<lparr>dmsgs := dmsgs st @ replicate (Suc dups) (dmsgs st ! a)\<rparr>"
    using assms(1) by (simp_all add: share_def)
  have "cached P st'"
    by (rule cached_extend [OF assms(3)]) (simp_all add: st')
  then show ?thesis
    unfolding as st' by (auto simp: nth_append nth_Cons' simp del: replicate_Suc)
qed (use assms in \<open>auto simp: share_def\<close>)

lemma dns_inv_step:
  assumes "dns_step L s s'" and "dns_inv L s"
  shows "dns_inv L s'"
  using assms(1)
proof cases
  case (hit w m a stale st)
  note b = exchange_begin_spec [OF hit(2) dns_invD(1) [OF assms(2)]]
  then obtain m0 t where m0: "answered s (key_of L m) m0" "dmsgs st ! a = setMsgTTL t m0"
    by blast
  have "cached (answered s) (if stale then st\<lparr>refreshing := refreshing st @ [m]\<rparr> else st)"
    using b by (simp add: cached_frame)
  moreover have "answered s' = answered s"
    unfolding hit(1) by (simp add: answered_def [abs_def])
  moreover have "\<exists>m'. answered s k m' \<and> same_but_ttl n m'" if "(k, n) \<in> set (delivered s')" for k n
    using that dns_invD(2) [OF assms(2), of k n] m0 unfolding hit(1) by auto
  ultimately show ?thesis
    using dns_invD(3) [OF assms(2)] by (intro dns_invI) (simp_all add: hit(1))
next
  case (miss w m st)
  then show ?thesis
    using exchange_begin_spec [OF miss(2) dns_invD(1) [OF assms(2)]]
    by (simp add: dns_inv_join dns_inv_dst [OF assms(2)])
next
  case (refresh ms m ms')
  then show ?thesis
    using dns_invD(1) [OF assms(2)] by (simp add: dns_inv_join dns_inv_dst [OF assms(2)] cached_frame)
next
  case (answer k m dups replies w a st as st')
  have ans: "answers s' = answers s @ said k replies"
    by (simp add: answer(1))
  have key: "key_of L m = k"
    using dns_invD(3) [OF assms(2) answer(2)] .
  have "cached (answered s') (dres s)"
    using dns_invD(1) [OF assms(2)] cached_mono answered_mono [OF ans] by blast
  moreover have new: "answered s' (key_of L m) reply" if "w_reply w m = Ret reply" for reply
    using batch_of_Ret [of replies reply] answer(3) that by (simp add: answered_def ans said_iff key)
  ultimately have c: "cached (answered s') st" "a < length (dmsgs st)" "w_reply w m = Ret (dmsgs st ! a)"
    using exchange_ask_spec [OF answer(4), of "answered s'"] by blast+
  note sh = share_spec [OF answer(5) c(2,1)]
  have "\<exists>m'. answered s' k' m' \<and> same_but_ttl n m'" if "(k', n) \<in> set (delivered s')" for k' n
  proof (cases "(k', n) \<in> set (delivered s)")
    case True
    then show ?thesis
      using dns_invD(2) [OF assms(2)] answered_mono [OF ans] by blast
  next
    case False
    then have "k' = k" "n = dmsgs st ! a"
      using that sh by (auto simp: answer(1))
    then show ?thesis
      using new [OF c(3)] key by (intro exI [of _ n]) simp
  qed
  then show ?thesis
    using dns_invD(3) [OF assms(2)] sh by (intro dns_invI) (auto simp: answer(1) split: if_splits)
next
  case (failure k m dups replies w e st)
  have ans: "answers s' = answers s @ said k replies"
    by (simp add: failure(1))
  have "cached (answered s') (dres s)"
    using dns_invD(1) [OF assms(2)] cached_mono answered_mono [OF ans] by blast
  moreover have "w_reply w m \<noteq> Ret reply" for reply
    using failure(4) exchange_ask_spec [OF failure(4) dns_invD(1) [OF assms(2), THEN cached_mono, of "\<lambda>_ _. True"]] by simp
  ultimately have "cached (answered s') st"
    using exchange_ask_spec [OF failure(4), of "answered s'"] by blast
  moreover have "\<exists>m'. answered s' k' m' \<and> same_but_ttl n m'" if "(k', n) \<in> set (delivered s)" for k' n
    using that dns_invD(2) [OF assms(2)] answered_mono [OF ans] by blast
  ultimately show ?thesis
    using dns_invD(3) [OF assms(2)] by (intro dns_invI) (auto simp: failure(1) split: if_splits)
qed

lemma cached_NewResolver: "cached P (NewResolver servers h)"
  using New_inv [of "[OSize 65535, OStale True]" h] by (simp add: cached_def NewResolver_def)

lemma dns_reachable_inv:
  assumes "(dns_step L)\<^sup>*\<^sup>* (dns_init servers h) s"
  shows "dns_inv L s"
  using assms
proof (induction rule: rtranclp_induct)
  case base
  then show ?case
    using cached_NewResolver by (intro dns_invI) (simp_all add: dns_init_def)
qed (rule dns_inv_step)


section \<open>The resolver as an interface\<close>

lemma GetWithExpire_miss:
  assumes "cache_inv s" and "lookup s k = None"
  shows "fst (GetWithExpire now1 now2 k s) = None"
proof -
  have "a_find k (contents s) = None"
    using lookup_contents [OF assms(1), of k] assms(2) by simp
  then have "fst (lru_get now1 now2 k s) = None"
    using lru_get_spec(2) [OF assms(1), of now1 now2 k] by (simp add: a_get_def)
  then show ?thesis
    by (simp add: GetWithExpire_run)
qed

lemma cached_ExchangeContext:
  assumes "cached (\<lambda>_ _. True) st" and "ExchangeContext L w m st = (r, st')"
  shows "cached (\<lambda>_ _. True) st'"
proof -
  obtain b st1 where b: "exchange_begin L w m st = (b, st1)"
    by (rule prod.exhaust)
  have c1: "cached (\<lambda>_ _. True) st1"
    using exchange_begin_spec [OF b assms(1)] by blast
  obtain r2 st2 where a: "exchangeWithoutCache L w m st1 = (r2, st2)"
    by (rule prod.exhaust)
  have c2: "cached (\<lambda>_ _. True) st2"
    using exchange_ask_spec [OF a [unfolded exchangeWithoutCache_def] c1] by blast
  show ?thesis
    using assms(2) c1 c2 b a
    by (auto simp: ExchangeContext_def cached_frame split: res.splits exch_begin.splits if_splits)
qed

lemma cached_lookupIP:
  assumes "cached (\<lambda>_ _. True) st"
  shows "cached (\<lambda>_ _. True) (snd (lookupIP L w host t st))"
proof -
  obtain r st1 where "ExchangeContext L w (SetQuestion L (Fqdn L host) t) st = (r, st1)"
    by (rule prod.exhaust)
  then show ?thesis
    using cached_ExchangeContext [OF assms] assms by (auto simp: lookupIP_def dns_Exchange_def Let_def split: res.splits)
qed

lemma lookupIP_found: "fst (lookupIP L w host t st) = Ret ips \<Longrightarrow> ips \<noteq> []"
  by (auto simp: lookupIP_def Let_def split: if_splits res.splits prod.splits)

lemma To4_Equal: "To4 ip \<noteq> [] \<Longrightarrow> IP_Equal (To4 ip) ip"
proof -
  assume "To4 ip \<noteq> []"
  then consider "length ip = 4" "To4 ip = ip" | "length ip = 16" "take 12 ip = v4InV6Prefix" "To4 ip = drop 12 ip"
    by (auto simp: To4_def split: if_splits)
  then show ?thesis
    by cases (use append_take_drop_id [of 12 ip] in \<open>auto simp: IP_Equal_def\<close>)
qed

lemma lookupIP_literal:
  assumes "net_ParseIP host \<noteq> []"
  shows "lookupIP L w host TypeA st = (if To4 (net_ParseIP host) \<noteq> [] then Ret [To4 (net_ParseIP host)] else Fail ErrIPVersion, st)"
    and "lookupIP L w host TypeAAAA st = (if To4 (net_ParseIP host) = [] then Ret [net_ParseIP host] else Fail ErrIPVersion, st)"
  using assms by (simp_all add: lookupIP_def Let_def TypeA_def TypeAAAA_def)

lemma dns_LookupIP_run:
  "fst (dns_LookupIP L v6_first w4 w6 host st) =
     (if v6_first then lookup_result (fst (lookupIP L w4 host TypeA (snd (lookupIP L w6 host TypeAAAA st)))) (fst (lookupIP L w6 host TypeAAAA st))
      else lookup_result (fst (lookupIP L w4 host TypeA st)) (fst (lookupIP L w6 host TypeAAAA (snd (lookupIP L w4 host TypeA st)))))"
  "snd (dns_LookupIP L v6_first w4 w6 host st) =
     (if v6_first then snd (lookupIP L w4 host TypeA (snd (lookupIP L w6 host TypeAAAA st)))
      else snd (lookupIP L w6 host TypeAAAA (snd (lookupIP L w4 host TypeA st))))"
  by (simp_all add: dns_LookupIP_def case_prod_beta Let_def)

lemma lookup_result_Ret: "lookup_result r4 r6 = Ret ips \<Longrightarrow> r4 = Ret ips \<or> r6 = Ret ips"
  by (auto simp: lookup_result_def split: if_splits res.splits)

interpretation dr: ip_resolver "dns_Resolver intn L v6_first w4 w6" "cached (\<lambda>_ _. True)" for intn L v6_first w4 w6
proof unfold_locales
  fix host st
  show "cached (\<lambda>_ _. True) (snd (r_LookupIP (dns_Resolver intn L v6_first w4 w6) host st))" if "cached (\<lambda>_ _. True) st"
    using that by (simp add: dns_Resolver_def dns_LookupIP_run cached_lookupIP)
  show "ips \<noteq> []" if "fst (r_LookupIP (dns_Resolver intn L v6_first w4 w6) host st) = Ret ips" for ips
    using that
    by (auto simp: dns_Resolver_def dns_LookupIP_run split: if_splits dest!: lookup_result_Ret dest: lookupIP_found)
  show "\<exists>ip. r_LookupIP (dns_Resolver intn L v6_first w4 w6) host st = (Ret [ip], st) \<and> IP_Equal ip (net_ParseIP host)"
    if "net_ParseIP host \<noteq> []"
    using lookupIP_literal [OF that] To4_Equal [of "net_ParseIP host"]
    by (cases "To4 (net_ParseIP host) = []") (auto simp: dns_Resolver_def dns_LookupIP_def lookup_result_def IP_Equal_def)
qed

text \<open>A look-up of a name whose question is not in the cache is decided by the servers' answer; the cache
  gains at most that question.\<close>

definition reply_ips :: "Msg res \<Rightarrow> IP_bytes list" where
  "reply_ips r = (case r of Ret m \<Rightarrow> msgToIP m | _ \<Rightarrow> [])"

definition safe_reply :: "Msg res \<Rightarrow> bool" where
  "safe_reply r \<longleftrightarrow> r \<noteq> Panic \<and> (\<forall>m. r = Ret m \<longrightarrow> mQuestion m \<noteq> [])"

lemma exchange_begin_miss:
  assumes "cache_inv (dcache st)" and "mQuestion m = q # qs" and "lookup (dcache st) (q_String L q) = None"
  shows "exchange_begin L w m st = (Ret Ask, st\<lparr>dcache := snd (Get (w_get1 w) (w_get2 w) (q_String L q) (dcache st))\<rparr>)"
  using GetWithExpire_miss [OF assms(1,3), of "w_get1 w" "w_get2 w"]
    GetWithExpire_run(2) [of "w_get1 w" "w_get2 w" "q_String L q" "dcache st"] assms(2)
  by (auto simp: exchange_begin_def split: prod.splits)

lemma putMsgToCache_lookup:
  assumes "cache_inv (dcache st)" and "putMsgToCache now set_now k a st = (r, st')"
    and "lookup (dcache st') k' = Some b" and "k' \<noteq> k"
  shows "lookup (dcache st) k' = Some b"
proof -
  have "dcache st' = dcache st \<or> (\<exists>v x. dcache st' = SetWithExpire set_now k v x (dcache st))"
    using assms(2)
    by (auto simp: putMsgToCache_def Msg_Copy_def msg_new_def split: list.splits if_splits option.splits) blast+
  then show ?thesis
    using lookup_SetWithExpire [OF assms(1)] assms(3,4) by fastforce
qed

lemma lookupIP_miss:
  assumes "cached (\<lambda>_ _. True) st" and "net_ParseIP host = []" and "mQuestion (SetQuestion L (Fqdn L host) t) = q # qs"
    and "lookup (dcache st) (q_String L q) = None" and "safe_reply (w_reply w (SetQuestion L (Fqdn L host) t))"
  defines "ips \<equiv> reply_ips (w_reply w (SetQuestion L (Fqdn L host) t))"
  shows "\<exists>e st'. lookupIP L w host t st = (if ips \<noteq> [] then Ret ips else Fail e, st') \<and> cached (\<lambda>_ _. True) st' \<and>
    (\<forall>k. k \<noteq> q_String L q \<longrightarrow> lookup (dcache st) k = None \<longrightarrow> lookup (dcache st') k = None)"
proof -
  let ?m = "SetQuestion L (Fqdn L host) t"
  define st1 where "st1 = st\<lparr>dcache := snd (Get (w_get1 w) (w_get2 w) (q_String L q) (dcache st))\<rparr>"
  have inv: "cache_inv (dcache st)"
    using assms(1) by (simp add: cached_def)
  have x: "ExchangeContext L w ?m st = exchange_ask L w ?m st1"
    using exchange_begin_miss [OF inv assms(3,4)] by (simp add: ExchangeContext_def exchangeWithoutCache_def st1_def)
  have c1: "cached (\<lambda>_ _. True) st1"
    unfolding st1_def by (rule cached_Get [OF assms(1)])
  have get: "lookup (dcache st1) k = None" if "lookup (dcache st) k = None" for k
    using that lookup_Get [OF inv, of "w_get1 w" "w_get2 w" "q_String L q" k]
    by (cases "lookup (dcache st1) k") (simp_all add: st1_def)
  show ?thesis
  proof (cases "w_reply w ?m")
    case (Fail e)
    then show ?thesis
      using x c1 get assms(2,3)
      by (auto simp: lookupIP_def dns_Exchange_def exchange_ask_def ipExchange_eq ips_def reply_ips_def)
  next
    case (Ret reply)
    let ?s = "st1\<lparr>dmsgs := dmsgs st1 @ [reply]\<rparr>"
    obtain r2 st2 where put: "putMsgToCache (w_put w) (w_set w) (q_String L q) (length (dmsgs st1)) ?s = (r2, st2)"
      by (rule prod.exhaust)
    have "cached (\<lambda>_ _. True) ?s"
      by (rule cached_extend [OF c1]) simp_all
    note p = putMsgToCache_spec [OF put this] and inv1 = cachedD(1) [OF this]
    from p obtain ms where "dmsgs st2 = dmsgs st1 @ reply # ms" and c2: "cached (\<lambda>_ _. True) st2" and "r2 = Ret ()"
      using assms(5) Ret by (cases r2) (auto simp: safe_reply_def)
    then have "lookupIP L w host t st = (if ips = [] then Fail ErrIPNotFound else Ret ips, st2)"
      using x put assms(2,3) Ret
      by (simp add: lookupIP_def dns_Exchange_def exchange_ask_def ipExchange_eq msg_new_def Let_def ips_def reply_ips_def)
    moreover have "lookup (dcache st2) k = None" if "k \<noteq> q_String L q" "lookup (dcache st) k = None" for k
      using putMsgToCache_lookup [OF inv1 put _ that(1)] get [OF that(2)] by (cases "lookup (dcache st2) k") auto
    ultimately show ?thesis
      using c2 by auto
  qed (use assms(5) in \<open>simp add: safe_reply_def\<close>)
qed


section \<open>Properties\<close>

text \<open>C13. No answer is made up or mixed up. However calls overlap, share queries and refresh entries, every
  message in the cache is, to the last TTL, a usable answer that some name server gave to a query
  with the same question, and everything delivered to a caller is such an answer up to its TTLs: the cached
  messages are never written through the pointers that callers get.\<close>

theorem dns_answers_authentic:
  assumes "(dns_step L)\<^sup>*\<^sup>* (dns_init servers h) s"
  shows "(\<forall>k a. lookup (dcache (dres s)) k = Some a \<longrightarrow>
      a < length (dmsgs (dres s)) \<and> (k, dmsgs (dres s) ! a) \<in> set (answers s) \<and> usable (dmsgs (dres s) ! a)) \<and>
    (\<forall>k m. (k, m) \<in> set (delivered s) \<longrightarrow> (\<exists>m'. (k, m') \<in> set (answers s) \<and> usable m' \<and> same_but_ttl m m'))"
  using dns_invD(1,2) [OF dns_reachable_inv [OF assms]] by (auto simp: cached_def answered_def)

lemma exchange_ask_Ret:
  assumes "mQuestion m = q # qs" and "w_reply w m = Ret reply" and "mQuestion reply \<noteq> []"
  shows "\<exists>st'. exchange_ask L w m st = (Ret (length (dmsgs st)), st')"
  using assms
  by (auto simp: exchange_ask_def ipExchange_eq msg_new_def putMsgToCache_def Msg_Copy_def nth_append
      split: list.splits option.splits)

definition example_dns :: dns_lib where
  "example_dns = \<lparr>q_String = (\<lambda>q. qName q @ (if Qtype q = TypeA then ''A'' else ''AAAA'')), Fqdn = (\<lambda>s. s @ ''.''),
     SetQuestion = (\<lambda>n t. example_reply\<lparr>mQuestion := [\<lparr>qName = n, Qtype = t, Qclass = ClassINET\<rparr>], Answer := []\<rparr>)\<rparr>"

definition example_world :: world where
  "example_world = \<lparr>w_get1 = 0, w_get2 = 0, w_now = 0, w_until = 0, w_put = 0, w_set = 0, w_reply = (\<lambda>_. Ret example_reply),
     w_early = False\<rparr>"

definition example_heap :: "(string, nat) heap" where
  "example_heap = \<lparr>entries = (\<lambda>_. \<lparr>ekey = '''', evalue = 0, eexpires = 0\<rparr>), nextp = 0, evicted = []\<rparr>"

definition example_server :: NameServer where
  "example_server = \<lparr>ns_Net = ''tcp'', ns_Addr = ''8.8.4.4:53''\<rparr>"

definition example_net :: net_world where
  "example_net = \<lparr>DialContext = (\<lambda>network addr. if network = ''tcp'' \<and> addr = ''8.8.4.4:53'' then Ret () else Fail EOF),
     ExchangeWithConn = (\<lambda>_ _ _ _. Ret example_reply), ctx_Err = None, SysLookup = (\<lambda>_ _. Fail EOF), n_Intn = (\<lambda>_. 0)\<rparr>"

lemma ParseIP_8844: "net_ParseIP ''8.8.4.4'' = v4InV6Prefix @ [8, 8, 4, 4]"
proof -
  have "v4_String [8, 8, 4, 4] = ''8.8.4.4''"
    by code_simp
  then show ?thesis
    using ParseIP_v4_String [of "[8, 8, 4, 4]"] by simp
qed

lemma example_replies: "replies_of [example_net] m (dmain (NewResolver [example_server] h)) = [Ret example_reply]"
proof -
  have "split_or_empty ''8.8.4.4:53'' = (''8.8.4.4'', ''53'')"
    by code_simp
  moreover have "net_JoinHostPort (IP_String (v4InV6Prefix @ [8, 8, 4, 4])) ''53'' = ''8.8.4.4:53''"
    by code_simp
  ultimately show ?thesis
    by (simp add: replies_of_def NewResolver_def transform_def example_server_def client_ExchangeContext_def client_ip_def
        ParseIP_8844 example_net_def HasPrefix_def v4InV6Prefix_def)
qed

lemma example_reply_facts: "usable example_reply" "mQuestion example_reply \<noteq> []" "batch_of [Ret example_reply] (Ret example_reply)"
proof -
  show u: "usable example_reply" and "mQuestion example_reply \<noteq> []"
    by (simp_all add: usable_def example_reply_def RcodeServerFailure_def RcodeRefused_def)
  have t: "tasks example_batch = map Finished [Inl example_reply]"
    by (simp add: example_batch_def Go_start_def Go_return_def Go_commit_def Go_done_def newPicker_def)
  have o: "map task_outcome [Ret example_reply] = map Some [Inl example_reply]"
    using u by (simp add: task_outcome_Inl)
  obtain r where r: "batchExchange example_batch = Some r" and "\<exists>m. r = Ret m" and m: "\<And>m. r = Ret m \<Longrightarrow> Ret m \<in> set [Ret example_reply]"
    using batchExchange_outcome [OF example_batch_reachable t o] u by auto
  then have "r = Ret example_reply"
    by force
  then show "batch_of [Ret example_reply] (Ret example_reply)"
    unfolding batch_of_def using r t o example_batch_reachable by blast
qed

lemma lookup_NewResolver: "lookup (dcache (NewResolver servers h)) k = None"
  using New_inv [of "[OSize 65535, OStale True]" h] by (simp add: NewResolver_def)

theorem dns_answers_authentic_witness:
  "\<exists>s m. (dns_step example_dns)\<^sup>*\<^sup>* (dns_init [example_server] example_heap) s \<and> (''a.b.A'', m) \<in> set (delivered s) \<and>
     (\<exists>m'. (''a.b.A'', m') \<in> set (answers s) \<and> usable m' \<and> same_but_ttl m m')"
proof -
  let ?m = "SetQuestion example_dns (Fqdn example_dns ''a.b'') TypeA"
  let ?q = "\<lparr>qName = ''a.b.'', Qtype = TypeA, Qclass = ClassINET\<rparr>" let ?s0 = "dns_init [example_server] example_heap"
  have q: "mQuestion ?m = [?q]" and k: "key_of example_dns ?m = ''a.b.A''"
    by (simp_all add: example_dns_def key_of_def)
  have rep: "w_reply example_world ?m = Ret example_reply"
    by (simp add: example_world_def)
  have "cached (\<lambda>_ _. True) (dres ?s0)" and none: "lookup (dcache (dres ?s0)) (q_String example_dns ?q) = None"
    by (simp_all add: dns_init_def cached_NewResolver lookup_NewResolver)
  then obtain st where b: "exchange_begin example_dns example_world ?m (dres ?s0) = (Ret Ask, st)"
    and dm: "dmain st = dmain (NewResolver [example_server] example_heap)"
    using exchange_begin_miss [OF cachedD(1) q none, where w = example_world] by (simp add: dns_init_def)
  have s1: "dns_step example_dns ?s0 (join_flight example_dns ?m (?s0\<lparr>dres := st\<rparr>))" (is "dns_step _ _ ?s1")
    by (rule dns_step.miss [OF b])
  have f: "flights ?s1 ''a.b.A'' = Some (?m, 0)" and d: "dres ?s1 = st"
    by (simp_all add: join_flight_def k dns_init_def)
  obtain st' where ask: "exchange_ask example_dns example_world ?m (dres ?s1) = (Ret (length (dmsgs st)), st')"
    unfolding d using exchange_ask_Ret [OF q rep example_reply_facts(2)] by blast
  define s2 where "s2 = ?s1\<lparr>dres := st', flights := (flights ?s1)(''a.b.A'' := None),
    delivered := delivered ?s1 @ map (\<lambda>a. (''a.b.A'', dmsgs st' ! a)) [length (dmsgs st)],
    answers := answers ?s1 @ said ''a.b.A'' [Ret example_reply]\<rparr>"
  have "dns_step example_dns ?s1 s2"
    unfolding s2_def
    by (rule dns_step.answer [OF f _ ask, of "[Ret example_reply]" _ _ "[example_net]"])
      (simp_all add: rep example_reply_facts share_def d dm example_replies, simp add: NewResolver_def transform_def)
  with s1 have "(dns_step example_dns)\<^sup>*\<^sup>* ?s0 s2"
    by simp
  moreover have "(''a.b.A'', dmsgs st' ! length (dmsgs st)) \<in> set (delivered s2)"
    by (simp add: s2_def)
  ultimately show ?thesis
    using dns_answers_authentic [of example_dns "[example_server]" example_heap s2] by blast
qed


text \<open>The expiry of an entry that was stored at time \<open>t\<close> with this TTL: the cache keeps whole seconds.\<close>

definition expiry :: "int \<Rightarrow> 32 word \<Rightarrow> int" where
  "expiry t ttl = time_Unix (Unix (t + int (unat ttl) * 1000000000))"

lemma expiry_le: "expiry t ttl \<le> t + int (unat ttl) * 1000000000"
  unfolding expiry_def time_Unix_def Unix_def by (simp add: div_times_less_eq_dividend)

lemma uint32_Seconds_bound:
  assumes "- 1000000000 < d" and "d \<le> int n * 1000000000" and "n < 2 ^ 32"
  shows "unat (uint32_Seconds d) \<le> n" and "0 \<le> d \<Longrightarrow> int (unat (uint32_Seconds d)) = d div 1000000000"
proof -
  have pos: "int (unat (uint32_Seconds d)) = d div 1000000000 \<and> d div 1000000000 \<le> int n" if "0 \<le> d"
  proof -
    have le: "d div 1000000000 \<le> int n" "0 \<le> d div 1000000000"
      using that assms(2) zdiv_mono1 [OF assms(2), of 1000000000] by simp_all
    then have "d div 1000000000 < 2 ^ 32"
      using assms(3) by simp
    then have "uint (word_of_int (d div 1000000000) :: 32 word) = d div 1000000000"
      using le by (simp add: uint_word_of_int_eq take_bit_int_eq_self)
    then show ?thesis
      using that le by (simp add: uint32_Seconds_def flip: uint_nat)
  qed
  then show "0 \<le> d \<Longrightarrow> int (unat (uint32_Seconds d)) = d div 1000000000"
    by blast
  have "unat (uint32_Seconds d) = 0" if "d < 0"
  proof -
    have "(- d) div 1000000000 = 0"
      using that assms(1) by (simp add: div_pos_pos_trivial)
    then show ?thesis
      using that by (simp add: uint32_Seconds_def)
  qed
  then show "unat (uint32_Seconds d) \<le> n"
    using pos by (cases "0 \<le> d") linarith+
qed

text \<open>C25. TTLs of cached answers only run down. An answer stored at time \<open>t\<close> and asked for again before its
  expiry is served with all TTLs set to the whole seconds that remain, never more than the TTL of its
  first record; asked for after the expiry it is still served, with all TTLs set to one second, and a
  refresh is started. The rest of the message is as it was.\<close>

theorem served_ttl_bound:
  assumes "cache_inv (dcache st)" and "config (fst (dcache st)) = config (New [WithSize 65535, WithStale True] :: string LruCache)"
    and "a < length (dmsgs st)" and "mQuestion (dmsgs st ! a) = qa # qas"
    and "\<not> (Qtype qa = TypeTXT \<and> HasPrefix (qName qa) ''_acme-challenge'')"
    and "cache_ttl (dmsgs st ! a) = Some ttl" and "mQuestion m = q # qs" and "t \<le> w_until w" and "\<not> w_early w"
    and put: "putMsgToCache t ts (q_String L q) a st = (r, st1)"
  shows "\<exists>a' st2. ExchangeContext L w m st1 = (Ret a', st2) \<and>
    (if w_now w \<le> expiry t ttl
     then refreshing st2 = refreshing st1 \<and>
       (w_until w < expiry t ttl + 1000000000 \<longrightarrow> (\<exists>v. dmsgs st2 ! a' = setMsgTTL v (dmsgs st ! a) \<and> unat v \<le> unat ttl \<and>
          (w_until w \<le> expiry t ttl \<longrightarrow> int (unat v) = (expiry t ttl - w_until w) div 1000000000)))
     else refreshing st2 = refreshing st1 @ [m] \<and> dmsgs st2 ! a' = setMsgTTL 1 (dmsgs st ! a))"
proof -
  let ?n = "length (dmsgs st)" let ?x = "expiry t ttl"
  have st1: "st1 = st\<lparr>dmsgs := dmsgs st @ [dmsgs st ! a],
      dcache := SetWithExpire ts (q_String L q) ?n (t + int (unat ttl) * 1000000000) (dcache st)\<rparr>"
    using put assms(4-6) by (simp add: putMsgToCache_def Msg_Copy_def msg_new_def)
  have "\<not> expiring (fst (dcache st))" "\<not> (0 < maxAge (fst (dcache st)) \<and> updateAgeOnGet (fst (dcache st)))"
    using assms(2) by (simp_all add: expiring_def config_def New_def WithSize_def WithStale_def)
  from SetWithExpire_GetWithExpire [OF assms(1) this]
  obtain c where "GetWithExpire (w_get1 w) (w_get2 w) (q_String L q) (dcache st1) = (Some (?n, ?x), c)"
    unfolding st1 expiry_def by (simp add: prod_eq_iff)
  from exchange_begin_hit [OF assms(7) this] have b: "exchange_begin L w m st1 = (Ret (Served (Suc ?n) (?x < w_now w)),
      st1\<lparr>dcache := c, dmsgs := dmsgs st @ [dmsgs st ! a, setMsgTTL (hit_ttl w ?x) (dmsgs st ! a)]\<rparr>)"
    by (simp add: st1)
  have nth: "(dmsgs st @ [dmsgs st ! a, setMsgTTL v (dmsgs st ! a)]) ! Suc ?n = setMsgTTL v (dmsgs st ! a)" for v
    by (simp add: nth_append)
  show ?thesis
  proof (cases "w_now w \<le> ?x")
    case False
    then show ?thesis
      using b nth assms(9) by (simp add: ExchangeContext_def hit_ttl_def)
  next
    case True
    have "?x - w_until w \<le> int (unat ttl) * 1000000000"
      using expiry_le [of t ttl] assms(8) by linarith
    from uint32_Seconds_bound [OF _ this] have v: "unat (uint32_Seconds (?x - w_until w)) \<le> unat ttl"
      "w_until w \<le> ?x \<Longrightarrow> int (unat (uint32_Seconds (?x - w_until w))) = (?x - w_until w) div 1000000000"
      if "w_until w < ?x + 1000000000"
      using that unsigned_less [of ttl] by simp_all
    have "ExchangeContext L w m st1 = (Ret (Suc ?n),
        st1\<lparr>dcache := c, dmsgs := dmsgs st @ [dmsgs st ! a, setMsgTTL (uint32_Seconds (?x - w_until w)) (dmsgs st ! a)]\<rparr>)"
      using b True by (simp add: ExchangeContext_def hit_ttl_def)
    then show ?thesis
      using True v nth by auto
  qed
qed

theorem served_ttl_bound_witness:
  "\<exists>st1 a' st2 v. putMsgToCache 0 0 ''a.b.A'' 0 ((NewResolver [] example_heap)\<lparr>dmsgs := [example_reply]\<rparr>) = (Ret (), st1) \<and>
    ExchangeContext example_dns (example_world\<lparr>w_now := 100000000000, w_until := 100000000000\<rparr>)
      (SetQuestion example_dns (Fqdn example_dns ''a.b'') TypeA) st1 = (Ret a', st2) \<and>
    dmsgs st2 ! a' = setMsgTTL v example_reply \<and> int (unat v) = 200"
proof -
  let ?st = "(NewResolver [] example_heap)\<lparr>dmsgs := [example_reply]\<rparr>"
  let ?w = "example_world\<lparr>w_now := 100000000000, w_until := 100000000000\<rparr>"
  let ?m = "SetQuestion example_dns (Fqdn example_dns ''a.b'') TypeA"
  let ?q = "\<lparr>qName = ''a.b.'', Qtype = TypeA, Qclass = ClassINET\<rparr>"
  have k: "q_String example_dns ?q = ''a.b.A''"
    by (simp add: example_dns_def)
  obtain r st1 where put: "putMsgToCache 0 0 (q_String example_dns ?q) 0 ?st = (r, st1)"
    by (rule prod.exhaust)
  then have r: "r = Ret ()"
    by (auto simp: putMsgToCache_def example_reply_def cache_ttl_def Msg_Copy_def msg_new_def TypeA_def TypeTXT_def)
  have x: "expiry 0 300 = 300000000000"
    by (simp add: expiry_def time_Unix_def Unix_def)
  have inv: "cache_inv (dcache ?st)" "config (fst (dcache ?st)) = config (New [WithSize 65535, WithStale True] :: string LruCache)"
    using cachedD(1) [OF cached_NewResolver] by (simp_all add: NewResolver_def)
  have a: "(0::nat) < length (dmsgs ?st)" "mQuestion (dmsgs ?st ! 0) = [?q]" "cache_ttl (dmsgs ?st ! 0) = Some 300"
    "\<not> (Qtype ?q = TypeTXT \<and> HasPrefix (qName ?q) ''_acme-challenge'')" "mQuestion ?m = [?q]"
    by (simp_all add: example_reply_def cache_ttl_def example_dns_def TypeA_def TypeTXT_def)
  have w: "0 \<le> w_until ?w" "\<not> w_early ?w" "w_now ?w \<le> expiry 0 300" "w_until ?w < expiry 0 300 + 1000000000" "w_until ?w \<le> expiry 0 300"
    "(expiry 0 300 - w_until ?w) div 1000000000 = 200"
    by (simp_all add: x example_world_def)
  from served_ttl_bound [OF inv a(1,2,4,3,5) w(1,2) put] obtain a' st2 v where
    "ExchangeContext example_dns ?w ?m st1 = (Ret a', st2)" "dmsgs st2 ! a' = setMsgTTL v (dmsgs ?st ! 0)" "int (unat v) = 200"
    using w(3-6) by auto
  moreover have "putMsgToCache 0 0 ''a.b.A'' 0 ?st = (Ret (), st1)" "dmsgs ?st ! 0 = example_reply"
    using put r k by simp_all
  ultimately show ?thesis
    by metis
qed


text \<open>C26. A name is resolved to its IPv4 addresses if it has any, else to its IPv6 addresses. For a name with
  neither question in the cache, and whichever of the two concurrent look-ups reaches the cache first,
  the result is the addresses in the answer to the A question, or if that failed or has
  none, those in the answer to the AAAA question, or the error that none was found. The answers carry
  a question, as those of name servers do.\<close>

theorem LookupIP_prefers_v4:
  assumes "cached (\<lambda>_ _. True) st" and "net_ParseIP host = []"
    and "mQuestion (SetQuestion L (Fqdn L host) TypeA) = [q4]" and "mQuestion (SetQuestion L (Fqdn L host) TypeAAAA) = [q6]"
    and "q_String L q4 \<noteq> q_String L q6"
    and "lookup (dcache st) (q_String L q4) = None" and "lookup (dcache st) (q_String L q6) = None"
    and "r4 = w_reply w4 (SetQuestion L (Fqdn L host) TypeA)" and "r6 = w_reply w6 (SetQuestion L (Fqdn L host) TypeAAAA)"
    and "safe_reply r4" and "safe_reply r6"
  shows "fst (dns_LookupIP L v6_first w4 w6 host st) =
    (if reply_ips r4 \<noteq> [] then Ret (reply_ips r4) else if reply_ips r6 \<noteq> [] then Ret (reply_ips r6) else Fail ErrIPNotFound)"
proof -
  note m4 = lookupIP_miss [OF _ assms(2,3) _ assms(10) [unfolded assms(8)], folded assms(8)]
  note m6 = lookupIP_miss [OF _ assms(2,4) _ assms(11) [unfolded assms(9)], folded assms(9)]
  have "\<exists>e4 e6. fst (dns_LookupIP L v6_first w4 w6 host st) =
      lookup_result (if reply_ips r4 \<noteq> [] then Ret (reply_ips r4) else Fail e4) (if reply_ips r6 \<noteq> [] then Ret (reply_ips r6) else Fail e6)"
  proof (cases v6_first)
    case True
    obtain e6 st' where 1: "lookupIP L w6 host TypeAAAA st = (if reply_ips r6 \<noteq> [] then Ret (reply_ips r6) else Fail e6, st')"
      "cached (\<lambda>_ _. True) st'" "lookup (dcache st') (q_String L q4) = None"
      using m6 [OF assms(1,7)] assms(5,6) by blast
    obtain e4 st'' where 2: "lookupIP L w4 host TypeA st' = (if reply_ips r4 \<noteq> [] then Ret (reply_ips r4) else Fail e4, st'')"
      using m4 [OF 1(2,3)] by blast
    show ?thesis
      unfolding dns_LookupIP_run 1(1) fst_conv snd_conv 2 using True by auto
  next
    case False
    obtain e4 st' where 1: "lookupIP L w4 host TypeA st = (if reply_ips r4 \<noteq> [] then Ret (reply_ips r4) else Fail e4, st')"
      "cached (\<lambda>_ _. True) st'" "lookup (dcache st') (q_String L q6) = None"
      using m4 [OF assms(1,6)] assms(5,7) by metis
    obtain e6 st'' where 2: "lookupIP L w6 host TypeAAAA st' = (if reply_ips r6 \<noteq> [] then Ret (reply_ips r6) else Fail e6, st'')"
      using m6 [OF 1(2,3)] by blast
    show ?thesis
      unfolding dns_LookupIP_run 1(1) fst_conv snd_conv 2 using False by auto
  qed
  then show ?thesis
    by (auto simp: lookup_result_def)
qed

theorem LookupIP_prefers_v4_witness:
  "fst (dns_LookupIP example_dns True example_world (example_world\<lparr>w_reply := \<lambda>_. Fail EOF\<rparr>) ''a.b'' (NewResolver [] example_heap)) =
   Ret [[1, 2, 3, 4]]"
proof -
  let ?L = example_dns
  have r4: "safe_reply (Ret example_reply)" "reply_ips (Ret example_reply) = [[1, 2, 3, 4]]" and r6: "safe_reply (Fail EOF)"
    by (simp_all add: safe_reply_def reply_ips_def example_reply_def msgToIP_def ip_of_rr_def)
  have p: "net_ParseIP ''a.b'' = []"
    by (simp add: net_ParseIP_def parseIPv4_def numeral_eq_Suc dtoi_def is_digit_def)
  have "fst (dns_LookupIP ?L True example_world (example_world\<lparr>w_reply := \<lambda>_. Fail EOF\<rparr>) ''a.b'' (NewResolver [] example_heap)) =
    (if reply_ips (Ret example_reply) \<noteq> [] then Ret (reply_ips (Ret example_reply))
     else if reply_ips (Fail EOF) \<noteq> [] then Ret (reply_ips (Fail EOF)) else Fail ErrIPNotFound)"
    by (rule LookupIP_prefers_v4 [OF cached_NewResolver p, of ?L "\<lparr>qName = ''a.b.'', Qtype = TypeA, Qclass = ClassINET\<rparr>"
          "\<lparr>qName = ''a.b.'', Qtype = TypeAAAA, Qclass = ClassINET\<rparr>"])
      (simp_all add: r4(1) r6 lookup_NewResolver, simp_all add: example_dns_def example_world_def TypeA_def TypeAAAA_def)
  then show ?thesis
    using r4 by simp
qed

text \<open>Address literals need no name server. Whatever the resolver has cached, the tunnel's \<^verbatim>\<open>ResolveIP\<close> on
  the text of an IPv4 or IPv6 address returns an equal address, asks nobody and leaves the resolver as
  it was.\<close>

theorem ResolveIP_of_literal:
  assumes "cached (\<lambda>_ _. True) st" and "\<forall>n > 0. intn n < n" and "net_ParseIP host \<noteq> []"
  shows "\<exists>ip. resolver_ResolveIP intn sys (Some (dns_Resolver intn L v6_first w4 w6)) host st = (Ret ip, st) \<and>
    IP_Equal ip (net_ParseIP host)"
  by (rule dr.ResolveIP_literal [OF assms])

theorem ResolveIP_of_literal_witness:
  "\<exists>ip. resolver_ResolveIP (\<lambda>_. 0) (\<lambda>_ _. Fail EOF)
      (Some (dns_Resolver (\<lambda>_. 0) example_dns True example_world example_world)) ''8.8.4.4'' (NewResolver [] example_heap) =
      (Ret ip, NewResolver [] example_heap) \<and> IP_Equal ip (v4InV6Prefix @ [8, 8, 4, 4])"
  using ResolveIP_of_literal [OF cached_NewResolver, of "\<lambda>_. 0" "''8.8.4.4''" "\<lambda>_ _. Fail EOF" example_dns True
      example_world example_world "[]" example_heap] by (simp add: ParseIP_8844)

text \<open>An answer without a question section brings the process down: \<^verbatim>\<open>putMsgToCache\<close> indexes \<^verbatim>\<open>msg.Question[0]\<close>, so
  that an exchange for a question that is not cached panics exactly when the first usable answer
  carries no question.\<close>

theorem questionless_answer_panics:
  assumes "cached (\<lambda>_ _. True) st" and "mQuestion m = q # qs" and "lookup (dcache st) (q_String L q) = None"
    and "w_reply w m = Ret reply"
  shows "fst (ExchangeContext L w m st) = Panic \<longleftrightarrow> mQuestion reply = []"
proof -
  define st1 where "st1 = st\<lparr>dcache := snd (Get (w_get1 w) (w_get2 w) (q_String L q) (dcache st))\<rparr>"
  have x: "ExchangeContext L w m st = exchange_ask L w m st1"
    using exchange_begin_miss [OF cachedD(1) [OF assms(1)] assms(2,3)]
    by (simp add: ExchangeContext_def exchangeWithoutCache_def st1_def)
  show ?thesis
  proof (cases "mQuestion reply = []")
    case True
    then show ?thesis
      unfolding x using assms(2,4) by (simp add: exchange_ask_def ipExchange_eq msg_new_def putMsgToCache_def)
  next
    case False
    then show ?thesis
      unfolding x using exchange_ask_Ret [OF assms(2,4) False, of L st1] by auto
  qed
qed

theorem questionless_answer_panics_witness:
  "fst (ExchangeContext example_dns (example_world\<lparr>w_reply := \<lambda>_. Ret (example_reply\<lparr>mQuestion := []\<rparr>)\<rparr>)
     (SetQuestion example_dns ''a.b.'' TypeA) (NewResolver [] example_heap)) = Panic"
  using questionless_answer_panics [OF cached_NewResolver, of "SetQuestion example_dns ''a.b.'' TypeA"
      "\<lparr>qName = ''a.b.'', Qtype = TypeA, Qclass = ClassINET\<rparr>" "[]" "[]" example_heap example_dns
      "example_world\<lparr>w_reply := \<lambda>_. Ret (example_reply\<lparr>mQuestion := []\<rparr>)\<rparr>" "example_reply\<lparr>mQuestion := []\<rparr>"]
  by (simp add: lookup_NewResolver) (simp add: example_dns_def)

end
