(* ===== verification/Api.thy ===== *)
theory Api
  imports Conf Statistic Dns
begin

text \<open>
  \<^verbatim>\<open>internal/api\<close>: the control interface, an HTTP server over the router chi.

  A request is what the handlers read of it. The libraries are parameters (\<open>api_lib\<close>): how a
  route of chi matches a path, the websocket upgrade, the rendering of JSON, the tables and texts of
  miekg/dns. The trackers of \<^verbatim>\<open>internal/statistic\<close> live in a list (an address is an index), and the
  manager maps identifiers to addresses. A handler returns its response and the state left behind; a panic of a handler is
  caught by \<^verbatim>\<open>net/http\<close> and ends this request only.
\<close>

section \<open>errors.go\<close>

record HTTPError =
  Message :: string

definition newError :: "string \<Rightarrow> HTTPError" where
  "newError msg = \<lparr>Message = msg\<rparr>"

definition HTTPError_Error :: "HTTPError \<Rightarrow> string" where
  "HTTPError_Error e = Message e"

definition ErrUnauthorized :: HTTPError where
  "ErrUnauthorized = newError ''Unauthorized''"

definition ErrBadRequest :: HTTPError where
  "ErrBadRequest = newError ''Body invalid''"

section \<open>Requests, responses and the state\<close>

record request =
  Method :: string
  Path :: string
  Authorization :: string
  IsWebSocketUpgrade :: bool
  Query :: "string \<Rightarrow> string"
  UpgradeOk :: bool

record Traffic =
  Up :: int64
  Down :: int64

record rr_json =
  js_name :: string
  js_type :: "16 word"
  js_TTL :: "32 word"
  js_data :: string

record dns_json =
  js_Status :: int
  js_Question :: "Question list"
  js_TC :: bool
  js_RD :: bool
  js_RA :: bool
  js_AD :: bool
  js_CD :: bool
  js_Answer :: "rr_json list option"
  js_Authority :: "rr_json list option"
  js_Additional :: "rr_json list option"

datatype response =
    Err nat HTTPError
  | Hello string string
  | DnsAnswer dns_json
  | SnapshotJSON "nat Snapshot"
  | NoContent
  | NotFound
  | Profiled
  | TrafficStream "Traffic list"
  | SnapshotStream "nat Snapshot list"
  | Abandoned
  | HandlerPanic "nat Snapshot list"

record 's api =
  serverSecret :: string
  stats :: "nat Manager"
  trackers :: "nat tracked list"
  resolver_state :: 's

section \<open>server.go: authentication\<close>

definition unauthorized :: response where
  "unauthorized = Err 401 ErrUnauthorized"

definition authentication :: "string \<Rightarrow> request \<Rightarrow> ('s \<Rightarrow> response \<times> 's) \<Rightarrow> 's \<Rightarrow> response \<times> 's" where
  "authentication secret r next st =
     (if secret = '''' then next st
      else if IsWebSocketUpgrade r \<and> Query r ''token'' \<noteq> '''' then
        (let token = Query r ''token'' in if token \<noteq> secret then (unauthorized, st) else next st)
      else
        (let (bearer, token, found) = strings_Cut (Authorization r) '' '';
             hasInvalidHeader = (bearer \<noteq> ''Bearer'');
             hasInvalidSecret = (\<not> found \<or> token \<noteq> secret)
         in if hasInvalidHeader \<or> hasInvalidSecret then (unauthorized, st) else next st))"

definition hello :: "string \<Rightarrow> string \<Rightarrow> response" where
  "hello goos goarch = Hello goos goarch"

text \<open>\<^verbatim>\<open>traffic\<close>: at every tick the rates of the manager are written; \<open>ticks\<close> lists what the manager holds at a tick and whether
  its encoding and its write succeed. The stream ends at the first failure.\<close>

fun traffic_loop :: "('c Manager \<times> bool) list \<Rightarrow> Traffic list" where
  "traffic_loop [] = []"
| "traffic_loop ((m, ok) # ticks) =
     (let (up, down) = Now m in if ok then \<lparr>Up = up, Down = down\<rparr> # traffic_loop ticks else [])"

definition traffic :: "request \<Rightarrow> ('c Manager \<times> bool) list \<Rightarrow> response" where
  "traffic r ticks =
     (if IsWebSocketUpgrade r \<and> \<not> UpgradeOk r then Abandoned else TrafficStream (traffic_loop ticks))"

section \<open>connections.go\<close>

text \<open>\<^verbatim>\<open>time.Millisecond * time.Duration(interval)\<close> is a product of 64-bit integers; \<^verbatim>\<open>time.NewTicker\<close> panics if it is not
  positive.\<close>

definition tick_duration :: "int \<Rightarrow> int64" where
  "tick_duration interval = 1000000 * of_int interval"

definition parse_interval :: "string \<Rightarrow> int res" where
  "parse_interval intervalStr = (if intervalStr \<noteq> '''' then Atoi intervalStr else Ret 1000)"

fun snapshot_loop :: "(nat Manager \<times> bool) list \<Rightarrow> nat Snapshot list" where
  "snapshot_loop [] = []"
| "snapshot_loop ((m, ok) # ticks) = (if ok then Snapshot m # snapshot_loop ticks else [])"

text \<open>After the upgrade the connection belongs to the handler, which never closes it: \<open>Abandoned\<close>. An answer
  to a bad interval goes to the hijacked connection and is lost. \<open>first\<close> is the outcome of the first write.\<close>

definition getConnections :: "request \<Rightarrow> bool \<Rightarrow> (nat Manager \<times> bool) list \<Rightarrow> nat Manager \<Rightarrow> response" where
  "getConnections r first ticks m =
     (if \<not> IsWebSocketUpgrade r then SnapshotJSON (Snapshot m)
      else if \<not> UpgradeOk r then Abandoned
      else (case parse_interval (Query r ''interval'') of
              Ret interval \<Rightarrow>
                if \<not> first then Abandoned
                else if sint (tick_duration interval) \<le> 0 then HandlerPanic [Snapshot m]
                else SnapshotStream (Snapshot m # snapshot_loop ticks)
            | _ \<Rightarrow> Abandoned))"

text \<open>\<^verbatim>\<open>c.Close()\<close> on the tracker with address \<open>i\<close>, which works on the shared manager.\<close>

definition close_tracker :: "nat \<Rightarrow> 's api \<Rightarrow> 's api" where
  "close_tracker i s =
     (case TcpTracker_Close ((trackers s ! i)\<lparr>manager := stats s\<rparr>) of
        Some (_, t) \<Rightarrow> s\<lparr>stats := manager t, trackers := (trackers s)[i := t]\<rparr>
      | None \<Rightarrow> s)"

text \<open>The loops over \<^verbatim>\<open>snapshot.Connections\<close>; \<open>order\<close> lists the addresses of the snapshot.\<close>

fun close_first :: "string \<Rightarrow> nat list \<Rightarrow> 's api \<Rightarrow> 's api" where
  "close_first i [] s = s"
| "close_first i (c # cs) s = (if i = UUID (trackers s ! c) then close_tracker c s else close_first i cs s)"

definition closeConnection :: "string \<Rightarrow> nat list \<Rightarrow> 's api \<Rightarrow> response \<times> 's api" where
  "closeConnection i order s = (NoContent, close_first i order s)"

definition closeAllConnections :: "nat list \<Rightarrow> 's api \<Rightarrow> response \<times> 's api" where
  "closeAllConnections order s = (NoContent, fold close_tracker order s)"

section \<open>dns.go\<close>

record rr_lib =
  StringToType :: "string \<rightharpoonup> 16 word"
  rr_String :: "RR \<Rightarrow> string"
  hdr_String :: "RR \<Rightarrow> string"
  lo_Substring :: "string \<Rightarrow> nat \<Rightarrow> string"

text \<open>\<^verbatim>\<open>lo.Coalesce(type, "A")\<close>: the first that is not empty.\<close>

definition query_type :: "request \<Rightarrow> string" where
  "query_type r = (if Query r ''type'' \<noteq> '''' then Query r ''type'' else ''A'')"

definition rr2Json :: "rr_lib \<Rightarrow> RR \<Rightarrow> rr_json" where
  "rr2Json D rr = \<lparr>js_name = rrName rr, js_type = Rrtype rr, js_TTL = Ttl rr,
     js_data = lo_Substring D (rr_String D rr) (length (hdr_String D rr))\<rparr>"

definition responseData :: "rr_lib \<Rightarrow> Msg \<Rightarrow> dns_json" where
  "responseData D resp =
     (let sect = (\<lambda>rrs. if 0 < length rrs then Some (map (rr2Json D) rrs) else None)
      in \<lparr>js_Status = Rcode resp, js_Question = mQuestion resp, js_TC = Truncated resp, js_RD = RecursionDesired resp,
          js_RA = RecursionAvailable resp, js_AD = AuthenticatedData resp, js_CD = CheckingDisabled resp,
          js_Answer = sect (Answer resp), js_Authority = sect (Ns resp), js_Additional = sect (Extra resp)\<rparr>)"

text \<open>\<open>deref\<close> reads the message behind the pointer that the resolver returns.\<close>

definition queryDNS ::
    "dns_lib \<Rightarrow> rr_lib \<Rightarrow> (Msg, 'm, 's) Resolver option \<Rightarrow> ('m \<Rightarrow> 's \<Rightarrow> Msg) \<Rightarrow> request \<Rightarrow> 's \<Rightarrow> response \<times> 's" where
  "queryDNS L D R deref r st =
     (case R of
        None \<Rightarrow> (Err 500 (newError ''DNS section is disabled''), st)
      | Some R \<Rightarrow>
          (case StringToType D (query_type r) of
             None \<Rightarrow> (Err 400 (newError ''invalid query type''), st)
           | Some qType \<Rightarrow>
               (case r_ExchangeContext R (SetQuestion L (Fqdn L (Query r ''name'')) qType) st of
                  (Fail e, st) \<Rightarrow> (Err 500 (newError (goerr_Error e)), st)
                | (Panic, st) \<Rightarrow> (HandlerPanic [], st)
                | (Ret resp, st) \<Rightarrow> (DnsAnswer (responseData D (deref resp st)), st))))"

section \<open>server.go: the routes\<close>

datatype handler = Profiler | H_hello | H_traffic | H_getConnections | H_closeAllConnections | H_closeConnection | H_queryDNS

text \<open>Method (any for a mounted handler), pattern, whether the middleware \<^verbatim>\<open>authentication\<close> is in front, handler.\<close>

type_synonym route = "string option \<times> string \<times> bool \<times> handler"

definition connectionRouter :: "route list" where
  "connectionRouter =
     [(Some ''GET'', ''/'', True, H_getConnections), (Some ''DELETE'', ''/'', True, H_closeAllConnections),
      (Some ''DELETE'', ''/{id}'', True, H_closeConnection)]"

definition dnsRouter :: "route list" where
  "dnsRouter = [(Some ''GET'', ''/query'', True, H_queryDNS)]"

definition under :: "string \<Rightarrow> route list \<Rightarrow> route list" where
  "under prefix = map (\<lambda>(m, p, g, h). (m, prefix @ p, g, h))"

definition api_routes :: "route list" where
  "api_routes =
     (None, ''/debug'', False, Profiler) #
     under ''/api'' ([(Some ''GET'', ''/'', True, H_hello), (Some ''GET'', ''/traffic'', True, H_traffic)] @
       under ''/connections'' connectionRouter @ under ''/dns'' dnsRouter)"

record api_server =
  as_secret :: string
  as_listen :: "string option"

text \<open>\<^verbatim>\<open>Server\<close>: with port 0 nothing is served; the secret is set before the address is bound.\<close>

definition api_Server :: "(string \<Rightarrow> unit res) \<Rightarrow> Server \<Rightarrow> string \<Rightarrow> api_server" where
  "api_Server net_listen c secret =
     (if srv_Port c = 0 then \<lparr>as_secret = secret, as_listen = None\<rparr>
      else
        let addr = Host c @ '':'' @ FormatInt (srv_Port c)
        in case net_listen addr of
             Ret _ \<Rightarrow> \<lparr>as_secret = Token c, as_listen = Some addr\<rparr>
           | _ \<Rightarrow> \<lparr>as_secret = Token c, as_listen = None\<rparr>)"

text \<open>What one request meets: the outcomes of the writes, the order of \<^verbatim>\<open>sync.Map.Range\<close>, the libraries. \<open>chi_match\<close> tells whether a
  pattern matches a path and \<open>URLParam\<close> is the parameter \<^verbatim>\<open>id\<close>.\<close>

record ('m, 's) api_world =
  chi_match :: "string \<Rightarrow> string \<Rightarrow> bool"
  URLParam :: "string \<Rightarrow> string"
  first_write :: bool
  api_ticks :: "(nat Manager \<times> bool) list"
  range_order :: "nat list"
  GOOS :: string
  GOARCH :: string
  a_dns :: dns_lib
  a_rr :: rr_lib
  a_resolver :: "(Msg, 'm, 's) Resolver option"
  a_deref :: "'m \<Rightarrow> 's \<Rightarrow> Msg"

fun run_handler :: "('m, 's) api_world \<Rightarrow> handler \<Rightarrow> request \<Rightarrow> 's api \<Rightarrow> response \<times> 's api" where
  "run_handler w Profiler r s = (Profiled, s)"
| "run_handler w H_hello r s = (hello (GOOS w) (GOARCH w), s)"
| "run_handler w H_traffic r s = (traffic r (api_ticks w), s)"
| "run_handler w H_getConnections r s = (getConnections r (first_write w) (api_ticks w) (stats s), s)"
| "run_handler w H_closeAllConnections r s = closeAllConnections (range_order w) s"
| "run_handler w H_closeConnection r s = closeConnection (URLParam w (Path r)) (range_order w) s"
| "run_handler w H_queryDNS r s =
     (let (resp, st) = queryDNS (a_dns w) (a_rr w) (a_resolver w) (a_deref w) r (resolver_state s) in (resp, s\<lparr>resolver_state := st\<rparr>))"

definition route_for :: "('m, 's) api_world \<Rightarrow> request \<Rightarrow> route option" where
  "route_for w r = List.find (\<lambda>(m, p, g, h). (m = None \<or> m = Some (Method r)) \<and> chi_match w p (Path r)) api_routes"

definition ServeHTTP :: "('m, 's) api_world \<Rightarrow> request \<Rightarrow> 's api \<Rightarrow> response \<times> 's api" where
  "ServeHTTP w r s =
     (case route_for w r of
        None \<Rightarrow> (NotFound, s)
      | Some (_, _, guarded, h) \<Rightarrow>
          if guarded then authentication (serverSecret s) r (run_handler w h r) s else run_handler w h r s)"

section \<open>Properties\<close>

text \<open>Whether a request carries the secret.\<close>

definition authorized :: "string \<Rightarrow> request \<Rightarrow> bool" where
  "authorized secret r \<longleftrightarrow> secret = '''' \<or>
     (if IsWebSocketUpgrade r \<and> Query r ''token'' \<noteq> '''' then Query r ''token'' = secret
      else Authorization r = ''Bearer '' @ secret)"

lemma bearer_header: "strings_Cut h '' '' = (''Bearer'', secret, True) \<longleftrightarrow> h = ''Bearer '' @ secret"
  using strings_Cut_found [of h "'' ''" "''Bearer''" secret] strings_Cut_sep [of "'' ''" "''Bearer''" secret] by auto

lemma authentication_eq:
  "authentication secret r next st = (if authorized secret r then next st else (unauthorized, st))"
  using bearer_header [of "Authorization r" secret]
  by (auto simp: authentication_def authorized_def Let_def split: prod.splits)

lemma api_routes_guarded: "(m, p, g, h) \<in> set api_routes \<Longrightarrow> g \<or> (m, p, h) = (None, ''/debug'', Profiler)"
  by (auto simp: api_routes_def under_def connectionRouter_def dnsRouter_def)

lemma route_for_Some: "route_for w r = Some x \<Longrightarrow> x \<in> set api_routes"
  unfolding route_for_def find_Some_iff by (metis nth_mem)


definition example_request :: request where
  "example_request = \<lparr>Method = ''DELETE'', Path = ''/api/connections/'', Authorization = ''Bearer'', IsWebSocketUpgrade = False,
     Query = (\<lambda>_. ''''), UpgradeOk = False\<rparr>"

definition example_api :: "nat \<Rightarrow> nat api" where
  "example_api n = \<lparr>serverSecret = ''x'', stats = DefaultManager, trackers = [], resolver_state = n\<rparr>"


text \<open>The profiler is mounted outside the authenticated routes: every request whose path matches \<^verbatim>\<open>/debug\<close> reaches it,
  whatever the secret and the credentials.\<close>

theorem api_profiler_open:
  assumes "chi_match w ''/debug'' (Path r)"
  shows "ServeHTTP w r s = (Profiled, s)"
  using assms by (simp add: ServeHTTP_def route_for_def api_routes_def)

theorem api_profiler_open_witness:
  "\<forall>L D. ServeHTTP (\<lparr>chi_match = (\<lambda>p q. p = ''/debug'' \<and> take 6 q = p), URLParam = (\<lambda>_. ''''), first_write = True, api_ticks = [], range_order = [],
       GOOS = '''', GOARCH = '''', a_dns = L, a_rr = D, a_resolver = None, a_deref = (\<lambda>m st. undefined)\<rparr> :: (nat, nat) api_world)
     (example_request\<lparr>Method := ''GET'', Path := ''/debug/pprof/heap''\<rparr>) (example_api 0) = (Profiled, example_api 0)"
  by (intro allI api_profiler_open) (simp add: example_request_def)

lemma tick_duration_exact:
  assumes "- 9223372036854 \<le> n" and "n \<le> 9223372036854"
  shows "sint (tick_duration n) = 1000000 * n"
proof -
  have "tick_duration n = word_of_int (1000000 * n)"
    by (simp add: tick_duration_def)
  moreover have "signed_take_bit 63 (1000000 * n) = 1000000 * n"
    using assms by (simp add: signed_take_bit_int_eq_self)
  ultimately show ?thesis
    using sint_sbintrunc' [of "1000000 * n", where 'a = 64] by simp
qed

text \<open>The interval of the connection stream is checked by nobody: for the milliseconds from 1 to 9223372036854 the ticker runs with that
  many milliseconds, for zero and negative numbers down to the same bound the handler panics after the first snapshot, and beyond
  the bound the product wraps around, so that a huge positive interval may panic too.\<close>

theorem interval_bounds:
  assumes "IsWebSocketUpgrade r" and "UpgradeOk r" and "parse_interval (Query r ''interval'') = Ret n"
    and "- 9223372036854 \<le> n" and "n \<le> 9223372036854"
  shows "sint (tick_duration n) = 1000000 * n \<and>
    getConnections r True ticks m = (if 0 < n then SnapshotStream (Snapshot m # snapshot_loop ticks) else HandlerPanic [Snapshot m])"
  using assms tick_duration_exact [OF assms(4,5)] by (simp add: getConnections_def)

theorem interval_bounds_witness:
  "getConnections (example_request\<lparr>IsWebSocketUpgrade := True, UpgradeOk := True, Query := \<lambda>_. ''0''\<rparr>) True [] DefaultManager =
     HandlerPanic [Snapshot DefaultManager] \<and> sint (tick_duration (2 ^ 58)) = 0"
proof -
  have "parse_interval ''0'' = Ret 0"
    by (simp add: parse_interval_def Atoi_def ParseInt_def ParseUint_def is_digit_def digit_def)
  moreover have "sint (tick_duration (2 ^ 58)) = 0"
    by (simp add: tick_duration_def)
  ultimately show ?thesis
    using interval_bounds [of "example_request\<lparr>IsWebSocketUpgrade := True, UpgradeOk := True, Query := \<lambda>_. ''0''\<rparr>" 0 "[]" DefaultManager]
    by simp
qed

text \<open>The manager's table points to the trackers with the right identifiers.\<close>

definition api_inv :: "'s api \<Rightarrow> bool" where
  "api_inv s \<longleftrightarrow> (\<forall>k i. connections (stats s) k = Some i \<longrightarrow> i < length (trackers s) \<and> UUID (trackers s ! i) = k)"

lemma close_tracker_eq:
  "close_tracker i s = s\<lparr>stats := Leave (UUID (trackers s ! i)) (stats s),
     trackers := (trackers s)[i := (trackers s ! i)\<lparr>manager := Leave (UUID (trackers s ! i)) (stats s), closed := True\<rparr>]\<rparr>"
  by (simp add: close_tracker_def TcpTracker_Close_def conn_Close_def)

lemma close_tracker_effect:
  assumes "api_inv s" and "connections (stats s) k = Some i"
  shows "api_inv (close_tracker i s)" and "connections (stats (close_tracker i s)) = (connections (stats s))(k := None)"
    and "c < length (trackers s) \<Longrightarrow> closed (trackers (close_tracker i s) ! c) \<longleftrightarrow> closed (trackers s ! c) \<or> c = i"
    and "length (trackers (close_tracker i s)) = length (trackers s)"
    and "serverSecret (close_tracker i s) = serverSecret s" and "resolver_state (close_tracker i s) = resolver_state s"
  using assms by (auto simp: api_inv_def close_tracker_eq Leave_def nth_list_update)

lemma close_first_eq:
  assumes "\<forall>c \<in> set order. UUID (trackers s ! c) = i \<longleftrightarrow> connections (stats s) i = Some c"
  shows "close_first i order s = (case connections (stats s) i of Some c \<Rightarrow> if c \<in> set order then close_tracker c s else s | None \<Rightarrow> s)"
  using assms by (induction order) (auto split: option.splits)

lemma close_first_inv:
  "api_inv s \<Longrightarrow> \<forall>c \<in> set order. \<exists>k. connections (stats s) k = Some c \<Longrightarrow> api_inv (close_first i order s)"
  by (induction order) (auto dest: close_tracker_effect(1))

text \<open>Deleting a connection by its identifier closes exactly that connection: in whatever order the
  snapshot lists the trackers, the tracker registered under the identifier is closed and leaves the table,
  every other one stays as it is, and an unknown identifier changes nothing.\<close>

theorem closeConnection_exact:
  assumes "api_inv s" and "set order = ran (connections (stats s))"
  shows "fst (closeConnection i order s) = NoContent \<and> api_inv (snd (closeConnection i order s)) \<and>
    connections (stats (snd (closeConnection i order s))) = (connections (stats s))(i := None) \<and>
    (\<forall>c < length (trackers s). closed (trackers (snd (closeConnection i order s)) ! c) \<longleftrightarrow>
       closed (trackers s ! c) \<or> connections (stats s) i = Some c)"
proof -
  have u: "UUID (trackers s ! c) = i \<longleftrightarrow> connections (stats s) i = Some c" if "c \<in> set order" for c
    using that assms by (auto simp: ran_def api_inv_def)
  then have eq: "close_first i order s = (case connections (stats s) i of Some c \<Rightarrow> close_tracker c s | None \<Rightarrow> s)"
    using close_first_eq [of order s i] assms(2) by (auto simp: ran_def split: option.splits)
  show ?thesis
  proof (cases "connections (stats s) i")
    case None
    then show ?thesis
      using assms(1) eq by (simp add: closeConnection_def fun_upd_idem)
  next
    case (Some c)
    then show ?thesis
      using close_tracker_effect [OF assms(1) Some] eq by (auto simp: closeConnection_def)
  qed
qed

definition tracked_conn :: "string \<Rightarrow> nat tracked" where
  "tracked_conn u = \<lparr>inp = [], rend = AtEOF, outp = [], wfail = None, closed = False, raddr = '''', UUID = u, UploadBytes = 0,
     DownloadBytes = 0, manager = DefaultManager\<rparr>"

definition two_conns :: "nat api" where
  "two_conns = (example_api 0)\<lparr>stats := Join ''b'' 1 (Join ''a'' 0 DefaultManager), trackers := [tracked_conn ''a'', tracked_conn ''b'']\<rparr>"

lemma two_conns_table: "connections (stats two_conns) = [''a'' \<mapsto> 0, ''b'' \<mapsto> 1]"
  by (simp add: two_conns_def Join_def DefaultManager_def)

lemma two_conns_inv: "api_inv two_conns" "ran (connections (stats two_conns)) = {0, 1}"
proof -
  show "api_inv two_conns"
    unfolding api_inv_def two_conns_table by (simp add: two_conns_def tracked_conn_def)
  show "ran (connections (stats two_conns)) = {0, 1}"
    unfolding two_conns_table by (simp add: ran_map_upd insert_commute)
qed

theorem closeConnection_exact_witness:
  "closed (trackers (snd (closeConnection ''b'' [1, 0] two_conns)) ! 1) \<and> \<not> closed (trackers (snd (closeConnection ''b'' [1, 0] two_conns)) ! 0)"
proof -
  have "set [1, 0] = ran (connections (stats two_conns))"
    by (auto simp: two_conns_inv)
  from closeConnection_exact [OF two_conns_inv(1) this, of "''b''"] show ?thesis
    by (auto simp: two_conns_def Join_def example_api_def tracked_conn_def)
qed

lemma close_all_effect:
  assumes "api_inv s" and "distinct order" and "\<forall>c \<in> set order. \<exists>k. connections (stats s) k = Some c"
  shows "api_inv (fold close_tracker order s) \<and>
    connections (stats (fold close_tracker order s)) =
      (\<lambda>k. if \<exists>c \<in> set order. connections (stats s) k = Some c then None else connections (stats s) k) \<and>
    (\<forall>c < length (trackers s). closed (trackers (fold close_tracker order s) ! c) \<longleftrightarrow> closed (trackers s ! c) \<or> c \<in> set order)"
  using assms
proof (induction order arbitrary: s)
  case (Cons i order)
  obtain k where k: "connections (stats s) k = Some i"
    using Cons.prems(3) by auto
  note eff = close_tracker_effect [OF Cons.prems(1) k]
  have uniq: "connections (stats s) k' = Some i \<longleftrightarrow> k' = k" for k'
    using k Cons.prems(1) by (auto simp: api_inv_def)
  have "\<forall>c \<in> set order. \<exists>k'. connections (stats (close_tracker i s)) k' = Some c"
  proof
    fix c
    assume c: "c \<in> set order"
    then obtain k' where "connections (stats s) k' = Some c"
      using Cons.prems(3) by auto
    moreover have "k' \<noteq> k"
      using calculation k c Cons.prems(2) by auto
    ultimately show "\<exists>k'. connections (stats (close_tracker i s)) k' = Some c"
      unfolding eff(2) by (intro exI [of _ k']) simp
  qed
  from Cons.IH [OF eff(1) _ this] Cons.prems(2) have IH: "api_inv (fold close_tracker (i # order) s)"
    "connections (stats (fold close_tracker (i # order) s)) = (\<lambda>k'. if \<exists>c \<in> set order. ((connections (stats s))(k := None)) k' = Some c
       then None else ((connections (stats s))(k := None)) k')"
    "\<And>c. c < length (trackers s) \<Longrightarrow> closed (trackers (fold close_tracker (i # order) s) ! c) \<longleftrightarrow>
       (closed (trackers s ! c) \<or> c = i) \<or> c \<in> set order"
    by (simp_all add: eff cong: if_cong)
  have "connections (stats (fold close_tracker (i # order) s)) k' =
      (if \<exists>c \<in> set (i # order). connections (stats s) k' = Some c then None else connections (stats s) k')" for k'
    using uniq [of k'] unfolding IH(2) by (cases "k' = k") simp_all
  then show ?case
    using IH(1,3) by auto
qed (simp add: fun_eq_iff)

text \<open>Deleting all connections closes every registered one and empties the table.\<close>

theorem closeAllConnections_exact:
  assumes "api_inv s" and "distinct order" and "set order = ran (connections (stats s))"
  shows "fst (closeAllConnections order s) = NoContent \<and> connections (stats (snd (closeAllConnections order s))) = Map.empty \<and>
    (\<forall>c < length (trackers s). closed (trackers (snd (closeAllConnections order s)) ! c) \<longleftrightarrow>
       closed (trackers s ! c) \<or> c \<in> ran (connections (stats s)))"
proof -
  note eff = close_all_effect [OF assms(1,2)]
  have "connections (stats (fold close_tracker order s)) k = None" for k
    using eff assms(3) by (cases "connections (stats s) k") (auto simp: ran_def)
  then show ?thesis
    using eff assms(3) by (auto simp: closeAllConnections_def ran_def)
qed

theorem closeAllConnections_exact_witness:
  "closed (trackers (snd (closeAllConnections [1, 0] two_conns)) ! 0) \<and> closed (trackers (snd (closeAllConnections [1, 0] two_conns)) ! 1)"
proof -
  have "set [1, 0] = ran (connections (stats two_conns))"
    by (auto simp: two_conns_inv)
  from closeAllConnections_exact [OF two_conns_inv(1) _ this] show ?thesis
    by (simp add: two_conns_inv) (simp add: two_conns_def)
qed

lemma queryDNS_of_dns:
  assumes "StringToType D (query_type r) = Some qType"
    and "m = SetQuestion L (Fqdn L (Query r ''name'')) qType" and "mQuestion m = q # qs"
    and "cached (\<lambda>_ _. True) st" and "lookup (dcache st) (q_String L q) = None" and "w_reply w m = reply" and "safe_reply reply"
  shows "fst (queryDNS L D (Some (dns_Resolver intn L v6 w w6)) (\<lambda>a st. dmsgs st ! a) r st) =
    (case reply of Ret resp \<Rightarrow> DnsAnswer (responseData D resp) | Fail e \<Rightarrow> Err 500 (newError (goerr_Error e)) | Panic \<Rightarrow> HandlerPanic [])"
proof -
  define st1 where "st1 = st\<lparr>dcache := snd (Get (w_get1 w) (w_get2 w) (q_String L q) (dcache st))\<rparr>"
  have x: "ExchangeContext L w m st = exchange_ask L w m st1"
    using exchange_begin_miss [OF cachedD(1) [OF assms(4)] assms(3,5)]
    by (simp add: ExchangeContext_def exchangeWithoutCache_def st1_def)
  have c1: "cached (\<lambda>_ _. True) st1"
    unfolding st1_def by (rule cached_Get [OF assms(4)])
  show ?thesis
  proof (cases reply)
    case (Ret resp)
    then have "w_reply w m = Ret resp" "mQuestion resp \<noteq> []"
      using assms(6,7) by (auto simp: safe_reply_def)
    then obtain a st2 where ask: "exchange_ask L w m st1 = (Ret a, st2)"
      using exchange_ask_Ret [OF assms(3), of w resp L st1] by blast
    have "dmsgs st2 ! a = resp"
      using exchange_ask_spec [OF ask c1] assms(6) Ret by auto
    then show ?thesis
      using x ask Ret assms(1) by (simp add: queryDNS_def dns_Resolver_def assms(2) [symmetric])
  next
    case (Fail e)
    then have "exchange_ask L w m st1 = (Fail e, st1)"
      using assms(3,6) by (simp add: exchange_ask_def ipExchange_eq)
    then show ?thesis
      using x Fail assms(1) by (simp add: queryDNS_def dns_Resolver_def assms(2) [symmetric])
  qed (use assms(7) in \<open>simp add: safe_reply_def\<close>)
qed

text \<open>The DNS endpoint over the caching resolver: without a resolver the answer is 500, with an unknown type 400 and no
  exchange; a question that is not cached is answered by what the name servers said, section by section (absent sections are left out), or with 500
  and the text of the error.\<close>

theorem api_dns_query:
  assumes "cached (\<lambda>_ _. True) st" and "safe_reply (w_reply w (SetQuestion L (Fqdn L (Query r ''name'')) qType))"
    and "mQuestion (SetQuestion L (Fqdn L (Query r ''name'')) qType) = q # qs" and "lookup (dcache st) (q_String L q) = None"
  shows "queryDNS L D None (\<lambda>a st. dmsgs st ! a) r st = (Err 500 (newError ''DNS section is disabled''), st) \<and>
    (StringToType D (query_type r) = None \<longrightarrow>
       queryDNS L D (Some (dns_Resolver intn L v6 w w6)) (\<lambda>a st. dmsgs st ! a) r st = (Err 400 (newError ''invalid query type''), st)) \<and>
    (StringToType D (query_type r) = Some qType \<longrightarrow>
       fst (queryDNS L D (Some (dns_Resolver intn L v6 w w6)) (\<lambda>a st. dmsgs st ! a) r st) =
         (case w_reply w (SetQuestion L (Fqdn L (Query r ''name'')) qType) of
            Ret resp \<Rightarrow> DnsAnswer (responseData D resp) | Fail e \<Rightarrow> Err 500 (newError (goerr_Error e)) | Panic \<Rightarrow> HandlerPanic []))"
proof (intro conjI impI)
  assume "StringToType D (query_type r) = Some qType"
  from queryDNS_of_dns [OF this refl assms(3,1,4) refl assms(2)]
  show "fst (queryDNS L D (Some (dns_Resolver intn L v6 w w6)) (\<lambda>a st. dmsgs st ! a) r st) =
         (case w_reply w (SetQuestion L (Fqdn L (Query r ''name'')) qType) of
            Ret resp \<Rightarrow> DnsAnswer (responseData D resp) | Fail e \<Rightarrow> Err 500 (newError (goerr_Error e)) | Panic \<Rightarrow> HandlerPanic [])"
    by simp
qed (simp_all add: queryDNS_def)

definition example_rr :: rr_lib where
  "example_rr = \<lparr>StringToType = [''A'' \<mapsto> TypeA], rr_String = (\<lambda>rr. rrName rr @ ''data''), hdr_String = rrName, lo_Substring = (\<lambda>s n. drop n s)\<rparr>"

theorem api_dns_query_witness:
  "fst (queryDNS example_dns example_rr (Some (dns_Resolver (\<lambda>_. 0) example_dns True example_world example_world)) (\<lambda>a st. dmsgs st ! a)
      example_request (NewResolver [] example_heap)) = DnsAnswer (responseData example_rr example_reply)"
proof -
  let ?m = "SetQuestion example_dns (Fqdn example_dns (Query example_request ''name'')) TypeA"
  have "safe_reply (w_reply example_world ?m)"
    using example_reply_facts(2) by (simp add: safe_reply_def example_world_def)
  moreover have "mQuestion ?m = [\<lparr>qName = ''.'', Qtype = TypeA, Qclass = ClassINET\<rparr>]"
    by (simp add: example_dns_def example_request_def)
  moreover have "StringToType example_rr (query_type example_request) = Some TypeA"
    by (simp add: example_rr_def query_type_def example_request_def)
  ultimately show ?thesis
    using api_dns_query [where intn = "\<lambda>_. 0" and ?v6.0 = True and ?w6.0 = example_world and D = example_rr,
        OF cached_NewResolver [of _ "[]" example_heap], of example_world example_dns example_request TypeA _ "[]"]
      lookup_NewResolver [of "[]" example_heap] by (simp add: example_world_def)
qed


definition example_api_world :: "(nat, nat) api_world" where
  "example_api_world = \<lparr>chi_match = (=), URLParam = (\<lambda>_. ''''), first_write = True, api_ticks = [], range_order = [0, 1],
     GOOS = '''', GOARCH = '''', a_dns = example_dns, a_rr = example_rr, a_resolver = None, a_deref = (\<lambda>_ _. example_reply)\<rparr>"


end
