(* ===== verification/Auth.thy ===== *)
theory Auth
  imports Conf
begin

text \<open>
  Package \<^verbatim>\<open>internal/auth\<close>: the IP white list (\<^verbatim>\<open>ip.go\<close>) and the user check (\<^verbatim>\<open>user.go\<close>).
\<close>

section \<open>ip.go\<close>

definition cidr_matches :: "IP_bytes \<Rightarrow> string \<Rightarrow> bool" where
  "cidr_matches src ipMask =
     (if net_ParseIP ipMask \<noteq> [] then IP_Equal (net_ParseIP ipMask) src
      else (case net_ParseCIDR ipMask of Ret ipNet \<Rightarrow> IPNet_Contains ipNet src | _ \<Rightarrow> False))"

definition verifyCIDR :: "string \<Rightarrow> string list \<Rightarrow> bool" where
  "verifyCIDR host cidr = list_ex (cidr_matches (net_ParseIP host)) cidr"

definition host_of :: "string \<Rightarrow> string" where
  "host_of addr = (case net_SplitHostPort addr of Ret (host, _) \<Rightarrow> host | _ \<Rightarrow> addr)"

definition VerifyIP :: "Config \<Rightarrow> string \<Rightarrow> bool" where
  "VerifyIP cfg addr =
     (let host = host_of addr; cidr = cfg_CIDR cfg
      in if length cidr = 0 then True else verifyCIDR host cidr)"

section \<open>user.go\<close>

text \<open>The loop over the users does not break: the last user of that name is kept.\<close>

definition find_user :: "User list \<Rightarrow> string \<Rightarrow> User option" where
  "find_user us username = fold (\<lambda>v res. if UserName v = username then Some v else res) us None"

definition users_of :: "Config \<Rightarrow> User list" where
  "users_of cfg = (case Users cfg of None \<Rightarrow> [] | Some us \<Rightarrow> us)"

definition Verify :: "Config \<Rightarrow> string \<Rightarrow> string \<Rightarrow> string \<Rightarrow> bool" where
  "Verify cfg username password addr =
     (case find_user (users_of cfg) username of
        None \<Rightarrow> False
      | Some res \<Rightarrow>
          if password \<noteq> '''' \<and> Password res \<noteq> password then False
          else (case CIDR res of
                  None \<Rightarrow> True
                | Some cidr \<Rightarrow> verifyCIDR (host_of addr) cidr))"

definition auth_Enable :: "Config \<Rightarrow> bool" where
  "auth_Enable cfg \<longleftrightarrow> Users cfg \<noteq> None"

section \<open>What the white list admits\<close>

text \<open>An entry of a white list of IPv4 addresses: a single address, or a block of it with a prefix
  length; and the addresses it means.\<close>

type_synonym v4_entry = "bytes \<times> nat option"

fun entry_text :: "v4_entry \<Rightarrow> string" where
  "entry_text (net, None) = v4_String net"
| "entry_text (net, Some n) = cidr_String net n"

fun entry_ok :: "v4_entry \<Rightarrow> bool" where
  "entry_ok (net, None) \<longleftrightarrow> length net = 4"
| "entry_ok (net, Some n) \<longleftrightarrow> length net = 4 \<and> n \<le> 32"

fun entry_admits :: "v4_entry \<Rightarrow> bytes \<Rightarrow> bool" where
  "entry_admits (net, None) ip \<longleftrightarrow> ip = net"
| "entry_admits (net, Some n) ip \<longleftrightarrow> prefix_agree n net ip"

lemma cidr_matches_entry:
  assumes "entry_ok e" and "length ip = 4"
  shows "cidr_matches (v4InV6Prefix @ ip) (entry_text e) = entry_admits e ip"
  using assms
  by (cases "(e, ip)" rule: entry_admits.cases)
    (auto simp: cidr_matches_def ParseIP_v4_String IP_Equal_def ParseIP_cidr_String ParseCIDR_cidr_String
      Contains_cidr)

lemma verifyCIDR_entries:
  assumes "\<forall>e \<in> set es. entry_ok e" and "length ip = 4"
  shows "verifyCIDR (v4_String ip) (map entry_text es) = list_ex (\<lambda>e. entry_admits e ip) es"
  using assms by (induction es) (auto simp: verifyCIDR_def ParseIP_v4_String cidr_matches_entry)

lemma host_of_v4:
  assumes "length ip = 4" and "\<forall>c \<in> set port. is_digit c"
  shows "host_of (v4_String ip @ '':'' @ port) = v4_String ip"
  using v4_host_port(2) [OF assms] by (simp add: host_of_def)

text \<open>C20. The white list admits exactly the addresses its entries mean: an IPv4 client with
  remote address \<open>a.b.c.d:port\<close> passes \<^verbatim>\<open>VerifyIP\<close> if and only if the list is empty or some entry
  is its address or a CIDR block of \<open>n\<close> bits whose first \<open>n\<close> bits are those of the client. This
  covers the textual parsing of the entries and of the remote address, and the masking.\<close>

theorem VerifyIP_v4:
  assumes "length ip = 4" and "\<forall>c \<in> set port. is_digit c"
    and "cfg_CIDR cfg = map entry_text es" and "\<forall>e \<in> set es. entry_ok e"
  shows "VerifyIP cfg (v4_String ip @ '':'' @ port) \<longleftrightarrow> es = [] \<or> list_ex (\<lambda>e. entry_admits e ip) es"
  using assms host_of_v4 [OF assms(1,2)] verifyCIDR_entries [OF assms(4,1)]
  by (simp add: VerifyIP_def)

section \<open>Users\<close>

lemma find_user_last:
  "find_user us u = (if u \<in> UserName ` set us then Some (last (filter (\<lambda>v. UserName v = u) us)) else None)"
proof -
  have "fold (\<lambda>v res. if UserName v = u then Some v else res) us r =
        (if u \<in> UserName ` set us then Some (last (filter (\<lambda>v. UserName v = u) us)) else r)" for r
    by (induction us arbitrary: r) (auto simp: filter_empty_conv)
  then show ?thesis
    by (simp add: find_user_def)
qed

lemma Verify_user:
  assumes "u \<in> UserName ` set (users_of cfg)"
  shows "Verify cfg u p addr \<longleftrightarrow>
    (let res = last (filter (\<lambda>v. UserName v = u) (users_of cfg))
     in (p = '''' \<or> Password res = p) \<and> (\<forall>cidr. CIDR res = Some cidr \<longrightarrow> verifyCIDR (host_of addr) cidr))"
  using assms by (auto simp: Verify_def find_user_last Let_def split: option.splits)

lemma Verify_unknown: "u \<notin> UserName ` set (users_of cfg) \<Longrightarrow> \<not> Verify cfg u p addr"
  by (simp add: Verify_def find_user_last)


theorem VerifyIP_v4_witness:
  "VerifyIP (initial_Config\<lparr>cfg_CIDR := map entry_text [([10, 0, 0, 0], Some 8), ([192, 168, 1, 0], Some 24)]\<rparr>)
     (v4_String [192, 168, 1, 7] @ '':'' @ ''4711'')"
proof -
  have "prefix_agree 24 [192, 168, 1, 0] [192, 168, 1, 7]"
    by (simp add: prefix_agree_code) code_simp
  then show ?thesis
    by (subst VerifyIP_v4 [where es = "[([10, 0, 0, 0], Some 8), ([192, 168, 1, 0], Some 24)]"])
      (auto simp: is_digit_def)
qed

text \<open>C24. The user check: for a user with an IPv4 address list, \<^verbatim>\<open>Verify\<close> admits exactly the
  credentials of the last configured user of that name, from an address on the list of that user;
  a name that is not configured is refused, and an offered empty password is never compared with
  the configured one.\<close>

theorem Verify_spec:
  assumes "length ip = 4" and "\<forall>c \<in> set port. is_digit c"
    and "\<forall>v \<in> set (users_of cfg). CIDR v = None \<or>
      (\<exists>es. CIDR v = Some (map entry_text es) \<and> (\<forall>e \<in> set es. entry_ok e))"
  shows "Verify cfg u p (v4_String ip @ '':'' @ port) \<longleftrightarrow>
    u \<in> UserName ` set (users_of cfg) \<and>
    (let v = last (filter (\<lambda>v. UserName v = u) (users_of cfg))
     in (p = '''' \<or> Password v = p) \<and>
        (\<forall>es. CIDR v = Some (map entry_text es) \<and> (\<forall>e \<in> set es. entry_ok e) \<longrightarrow>
           list_ex (\<lambda>e. entry_admits e ip) es))"
proof (cases "u \<in> UserName ` set (users_of cfg)")
  case True
  define v where "v = last (filter (\<lambda>v. UserName v = u) (users_of cfg))"
  have "filter (\<lambda>v. UserName v = u) (users_of cfg) \<noteq> []"
    using True by (auto simp: filter_empty_conv)
  then have "v \<in> set (users_of cfg)"
    using last_in_set by (fastforce simp: v_def)
  then have "(\<forall>cidr. CIDR v = Some cidr \<longrightarrow> verifyCIDR (v4_String ip) cidr) \<longleftrightarrow>
    (\<forall>es. CIDR v = Some (map entry_text es) \<and> (\<forall>e \<in> set es. entry_ok e) \<longrightarrow> list_ex (\<lambda>e. entry_admits e ip) es)"
    (is "?L \<longleftrightarrow> ?R")
  proof -
    have entries: "list_ex (\<lambda>e. entry_admits e ip) es = verifyCIDR (v4_String ip) (map entry_text es)"
      if "\<forall>e \<in> set es. entry_ok e" for es
      using verifyCIDR_entries [OF that assms(1)] by simp
    show ?thesis
    proof (cases "CIDR v")
      case (Some cidr)
      then obtain es where es: "cidr = map entry_text es" "\<forall>e \<in> set es. entry_ok e"
        using assms(3) \<open>v \<in> set (users_of cfg)\<close> by fastforce
      then have "?R \<longrightarrow> verifyCIDR (v4_String ip) cidr"
        using entries [OF es(2)] Some es by (intro impI) (drule spec [of _ es], simp)
      then show ?thesis
        using Some entries by auto
    qed simp
  qed
  then show ?thesis
    using True Verify_user [OF True, of p "v4_String ip @ '':'' @ port"] host_of_v4 [OF assms(1,2)]
    by (simp add: Let_def v_def [symmetric])
next
  case False
  then show ?thesis
    using Verify_unknown by simp
qed

theorem Verify_spec_witness:
  "Verify (initial_Config\<lparr>Users := Some [\<lparr>UserName = ''bob'', Password = ''x'', CIDR = None\<rparr>]\<rparr>) ''bob'' ''''
     (v4_String [1, 2, 3, 4] @ '':'' @ ''5'')"
  by (subst Verify_spec) (simp_all add: is_digit_def users_of_def Let_def)

end
