(* ===== verification/Proxy_Interface.thy ===== *)
theory Proxy_Interface
  imports Auth Constant
begin

text \<open>
  The interface \<^verbatim>\<open>mixed.Proxy\<close> (\<^verbatim>\<open>internal/mixed/interface.go\<close>): what the listener relies on when it hands a
  connection to the \<^verbatim>\<open>Handle\<close> of a front end. The contract is proved for the SOCKS4, SOCKS5 and HTTP
  front ends in their theories.
\<close>

text \<open>Access control was passed: if authentication is enabled, \<^verbatim>\<open>Verify\<close> has admitted some credentials from
  this remote address.\<close>

definition authorised :: "Config \<Rightarrow> string \<Rightarrow> bool" where
  "authorised cfg a \<longleftrightarrow> (auth_Enable cfg \<longrightarrow> (\<exists>u p. Verify cfg u p a))"

text \<open>A context sent for the connection with this identifier and remote address.\<close>

definition ctx_for :: "ctype set \<Rightarrow> uuid \<Rightarrow> string \<Rightarrow> TCPContext \<Rightarrow> bool" where
  "ctx_for ts uid a ctx \<longleftrightarrow>
     ID (Metadata ctx) = uid \<and> NetWork (Metadata ctx) = TCP \<and> Type (Metadata ctx) \<in> ts \<and> Src (Metadata ctx) = IP_of a \<and> PostFn ctx = WgDone"

text \<open>After a return without error: nothing was sent, or one context was sent and access control was
  passed.\<close>

definition handled :: "ctype set \<Rightarrow> Config \<Rightarrow> uuid \<Rightarrow> TCPContext list \<Rightarrow> int \<Rightarrow> string \<Rightarrow> session \<Rightarrow> bool" where
  "handled ts cfg uid q w a s \<longleftrightarrow>
     rest_is q w a s \<or> (\<exists>ctx. rest_is (q @ [ctx]) w a s \<and> ctx_for ts uid a ctx \<and> authorised cfg a)"

locale proxy_handler =
  fixes Handle :: "Config \<Rightarrow> uuid \<Rightarrow> (unit, session) io" and ts :: "ctype set"
  assumes Handle_contract: "triple (rest_is q w a) (Handle cfg uid) (\<lambda>_. handled ts cfg uid q w a) (rest_is q w a)"
begin

text \<open>On an error or a panic nothing was sent and the wait group still counts the connection.\<close>

lemma Handle_error:
  assumes "Handle cfg uid s = Some (r, s')" and "r \<noteq> Ret ()"
  shows "tcpIn s' = tcpIn s \<and> wg s' = wg s \<and> raddr s' = raddr s"
proof -
  have "rest_is (tcpIn s) (wg s) (raddr s) s"
    by (simp add: rest_is_def)
  then have "rest_is (tcpIn s) (wg s) (raddr s) s'"
    using assms by (cases r) (auto dest: tripleD_Fail [OF Handle_contract] tripleD_Panic [OF Handle_contract])
  then show ?thesis
    by (simp add: rest_is_def)
qed

lemma Handle_sends:
  assumes "Handle cfg uid s = Some (r, s')" and "tcpIn s' \<noteq> tcpIn s"
  shows "r = Ret () \<and> authorised cfg (raddr s) \<and>
    (\<exists>ctx. tcpIn s' = tcpIn s @ [ctx] \<and> ctx_for ts uid (raddr s) ctx) \<and> wg s' = wg s"
proof -
  have ret: "r = Ret ()"
    using Handle_error assms by blast
  have "rest_is (tcpIn s) (wg s) (raddr s) s"
    by (simp add: rest_is_def)
  then have "handled ts cfg uid (tcpIn s) (wg s) (raddr s) s'"
    using tripleD [OF Handle_contract] assms(1) ret by blast
  then show ?thesis
    using assms(2) ret by (auto simp: handled_def rest_is_def)
qed

lemma Handle_wg:
  assumes "Handle cfg uid s = Some (r, s')"
  shows "wg s' = wg s"
proof (cases "r = Ret ()")
  case True
  have "handled ts cfg uid (tcpIn s) (wg s) (raddr s) s'"
    using tripleD [OF Handle_contract, of "tcpIn s" "wg s" "raddr s" s] assms True by (simp add: rest_is_def)
  then show ?thesis
    by (auto simp: handled_def rest_is_def)
next
  case False
  then show ?thesis
    using Handle_error [OF assms] by blast
qed

end

lemma triple_send:
  "triple (rest_is q w a) (\<lambda>s. send_ctx (f s) s) (\<lambda>_ s. \<exists>s0. rest_is q w a s0 \<and> rest_is (q @ [f s0]) w a s) E"
  by (auto simp: triple_def send_ctx_def rest_is_def)

text \<open>Processing a request after access control.\<close>

lemma Handle_contract_bind:
  assumes "triple (rest_is q w a) m (\<lambda>_ s. rest_is q w a s \<and> authorised cfg a) (rest_is q w a)"
    and "\<And>x. authorised cfg a \<Longrightarrow> triple (rest_is q w a) (f x) (\<lambda>_. handled ts cfg uid q w a) (rest_is q w a)"
  shows "triple (rest_is q w a) (io_bind m f) (\<lambda>_. handled ts cfg uid q w a) (rest_is q w a)"
  by (rule triple_bind [OF assms(1)], rule triple_pre_conj, rule assms(2))

lemma handled_same: "rest_is q w a s \<Longrightarrow> handled ts cfg uid q w a s"
  by (simp add: handled_def)

end
