(* ===== verification/Socks4.thy ===== *)
theory Socks4
  imports Proxy_Interface
begin

text \<open>
  \<^verbatim>\<open>internal/socks4\<close>: the SOCKS4 and SOCKS4a front end (\<^verbatim>\<open>tcp.go\<close>).
\<close>

definition socks4_Version :: byte where "socks4_Version = 4"
definition socks4_CmdConnect :: byte where "socks4_CmdConnect = 1"

definition ErrRequestRejected :: goerr where
  "ErrRequestRejected = ErrNew ''request rejected or failed''"

definition ErrRequestIdentdMismatched :: goerr where
  "ErrRequestIdentdMismatched =
     ErrNew ''request rejected because the client program and identd report different user-ids''"

definition ErrRequestUnknownCode :: goerr where
  "ErrRequestUnknownCode = ErrNew ''request failed with unknown code''"

section \<open>The operations\<close>

definition readUntilNull :: "bytes \<Rightarrow> string" where
  "readUntilNull src = string_of (takeWhile (\<lambda>v. v \<noteq> 0) src)"

text \<open>The loops that jump to the next NUL of \<open>buf\<close> from \<open>j\<close> on, or to its end.\<close>

definition jump_null :: "bytes \<Rightarrow> nat \<Rightarrow> nat" where
  "jump_null buf j = j + length (takeWhile (\<lambda>b. b \<noteq> 0x00) (drop j buf))"

text \<open>The target host: \<open>buf\<close> is \<^verbatim>\<open>buf[1:n]\<close>, whose capacity is 4095; slicing beyond that panics.\<close>

definition target_host :: "bytes \<Rightarrow> string res" where
  "target_host buf =
     (let ip = take 4 (drop 3 buf); j = jump_null buf 7
      in if ip ! 0 = 0x00 \<and> ip ! 1 = 0x00 \<and> ip ! 2 = 0x00 \<and> ip ! 3 \<noteq> 0x00
         then let i = j + 1; j = jump_null buf i
              in if 4095 < j then Panic else Ret (string_of (take (j - i) (drop i buf)))
         else Ret (IP_String ip))"

definition socks4_handshake :: "Config \<Rightarrow> (string, session) io" where
  "socks4_handshake cfg =
     io_bind (io_catch (io_ReadAtLeast 4096 8) (\<lambda>_. io_fail ErrRequestRejected)) (\<lambda>got.
     let buf = tl got; command = buf ! 0
     in if command \<noteq> socks4_CmdConnect then io_fail ErrRequestUnknownCode
        else
          let user = readUntilNull (drop 7 buf)
          in (\<lambda>s. (if auth_Enable cfg \<and> \<not> Verify cfg user '''' (raddr s)
                   then io_bind (io_skip (conn_Write [0x01, 0x00])) (\<lambda>_. io_fail ErrRequestIdentdMismatched)
                   else
                     let port = getUint16 (take 2 (drop 1 buf))
                     in (case target_host buf of
                           Ret host \<Rightarrow> io_ret (net_JoinHostPort host (FormatUint (unat port)))
                         | Fail e \<Rightarrow> io_fail e
                         | Panic \<Rightarrow> io_panic)) s))"

definition socks4_processRequest :: "uuid \<Rightarrow> string \<Rightarrow> (unit, session) io" where
  "socks4_processRequest uid target s =
     send_ctx \<lparr>
       Metadata = \<lparr>ID = uid, NetWork = TCP, Type = SOCKS4, Src = IP_of (raddr s), Dest = IP_of target\<rparr>,
       Line = '''',
       PreFn = WriteReply [0x00, 0x5A, 0x00, 0x00, 0, 0, 0, 0],
       PostFn = WgDone\<rparr> s"

definition socks4_Handle :: "Config \<Rightarrow> uuid \<Rightarrow> (unit, session) io" where
  "socks4_Handle cfg uid = io_bind (socks4_handshake cfg) (\<lambda>target. socks4_processRequest uid target)"

section \<open>The contract of the interface\<close>

lemma socks4_handshake_triple:
  "triple (rest_is q w a) (socks4_handshake cfg) (\<lambda>_ s. rest_is q w a s \<and> authorised cfg a) (rest_is q w a)"
proof -
  have verdict: "triple (rest_is q w a)
      (\<lambda>s. (if auth_Enable cfg \<and> \<not> Verify cfg u '''' (raddr s)
            then io_bind (io_skip (conn_Write bs)) (\<lambda>_. io_fail e)
            else case r of Ret host \<Rightarrow> io_ret (f host) | Fail e \<Rightarrow> io_fail e | Panic \<Rightarrow> io_panic) s)
      (\<lambda>_ s. rest_is q w a s \<and> authorised cfg a) (rest_is q w a)" for u bs e f r
    by (cases r) (auto simp: triple_def rest_is_def authorised_def written_def io_bind_def split: if_splits)
  have read: "keeps (rest_is q w a) (io_catch (io_ReadAtLeast 4096 8) (\<lambda>_. io_fail ErrRequestRejected))"
    by (rule triple_catch [where R = "rest_is q w a"]) (auto intro: triples)
  show ?thesis
    unfolding socks4_handshake_def Let_def
    by (rule triple_bind [where R = "\<lambda>_. rest_is q w a"] read triple_if verdict triples | simp)+
qed

lemma socks4_processRequest_triple:
  assumes "authorised cfg a"
  shows "triple (rest_is q w a) (socks4_processRequest uid target) (\<lambda>_. handled {SOCKS4} cfg uid q w a) (rest_is q w a)"
  using assms by (auto simp: triple_def socks4_processRequest_def send_ctx_def handled_def rest_is_def ctx_for_def)

interpretation s4: proxy_handler "\<lambda>cfg uid. socks4_Handle cfg uid" "{SOCKS4}"
  unfolding socks4_Handle_def
  by unfold_locales (rule Handle_contract_bind [OF socks4_handshake_triple socks4_processRequest_triple])

section \<open>Requests\<close>

text \<open>A SOCKS4 request names an address, a SOCKS4a request the address 0.0.0.x and a domain name. \<open>cut\<close> is
  what has arrived of the domain name: all of it with its NUL, or only a part.\<close>

datatype s4_dest = S4Addr bytes | S4Domain byte bytes bool

fun s4_ok :: "s4_dest \<Rightarrow> bool" where
  "s4_ok (S4Addr ip) \<longleftrightarrow> length ip = 4 \<and> \<not> (take 3 ip = [0, 0, 0] \<and> ip ! 3 \<noteq> 0)"
| "s4_ok (S4Domain x d whole) \<longleftrightarrow> x \<noteq> 0 \<and> 0 \<notin> set d \<and>
     CHR ''['' \<notin> set (string_of d) \<and> CHR '']'' \<notin> set (string_of d)"

fun s4_ip :: "s4_dest \<Rightarrow> bytes" where
  "s4_ip (S4Addr ip) = ip"
| "s4_ip (S4Domain x d whole) = [0, 0, 0, x]"

fun s4_tail :: "s4_dest \<Rightarrow> bytes" where
  "s4_tail (S4Addr ip) = []"
| "s4_tail (S4Domain x d whole) = d @ (if whole then [0] else [])"

fun s4_host :: "s4_dest \<Rightarrow> string" where
  "s4_host (S4Addr ip) = IP_String ip"
| "s4_host (S4Domain x d whole) = string_of d"

definition s4_request :: "16 word \<Rightarrow> s4_dest \<Rightarrow> bytes \<Rightarrow> bytes" where
  "s4_request port d user = [4, 1] @ putUint16 port @ s4_ip d @ user @ [0] @ s4_tail d"

lemma takeWhile_no_null: "0 \<notin> set ys \<Longrightarrow> takeWhile (\<lambda>b. b \<noteq> 0) (ys :: bytes) = ys"
  by (induction ys) auto

lemma takeWhile_null: "0 \<notin> set ys \<Longrightarrow> takeWhile (\<lambda>b. b \<noteq> 0) (ys @ 0 # zs :: bytes) = ys"
  by (induction ys) auto

lemma jump_null_app: "length xs = j \<Longrightarrow> 0 \<notin> set ys \<Longrightarrow> jump_null (xs @ ys @ 0 # zs) j = j + length ys"
  by (simp add: jump_null_def takeWhile_null)

lemma jump_null_end: "length xs = j \<Longrightarrow> 0 \<notin> set ys \<Longrightarrow> jump_null (xs @ ys) j = j + length ys"
  by (simp add: jump_null_def takeWhile_no_null)

lemma length_s4_ip: "s4_ok d \<Longrightarrow> length (s4_ip d) = 4"
  by (cases d) simp_all

lemma target_host_request:
  assumes "s4_ok d" and "0 \<notin> set user" and "length (s4_request port d user) \<le> 4096"
  shows "target_host (tl (s4_request port d user)) = Ret (s4_host d)"
proof -
  define buf where "buf = tl (s4_request port d user)"
  define head where "head = [1] @ putUint16 port @ s4_ip d"
  have head: "length head = 7"
    using length_s4_ip [OF assms(1)] by (simp add: head_def)
  have buf: "buf = head @ user @ 0 # s4_tail d"
    by (simp add: buf_def s4_request_def head_def)
  have ip: "take 4 (drop 3 buf) = s4_ip d"
    using length_s4_ip [OF assms(1)] by (simp add: buf head_def putUint16_def)
  have j: "jump_null buf 7 = 7 + length user"
    unfolding buf by (rule jump_null_app [OF head assms(2)])
  show ?thesis
  proof (cases d)
    case (S4Addr a)
    then have "\<not> (a ! 0 = 0 \<and> a ! 1 = 0 \<and> a ! 2 = 0 \<and> a ! 3 \<noteq> 0)"
      using assms(1) length_4_exhaust [of a] by auto
    then show ?thesis
      unfolding buf_def [symmetric] target_host_def Let_def ip using S4Addr by auto
  next
    case (S4Domain x dom whole)
    let ?i = "7 + length user + 1" and ?pre = "head @ user @ [0]"
    have pre: "length ?pre = ?i"
      using head by simp
    have i: "jump_null buf ?i = ?i + length dom"
      using jump_null_app [OF pre, of dom "[]"] jump_null_end [OF pre, of dom] assms(1) S4Domain
      by (cases whole) (simp_all add: buf)
    have "drop ?i buf = s4_tail d"
      by (rule drop_prefix [OF _ pre]) (simp add: buf)
    then have dom: "take (?i + length dom - ?i) (drop ?i buf) = dom"
      using S4Domain by simp
    have fits: "4095 < ?i + length dom \<longleftrightarrow> False"
      using assms(3) S4Domain by (simp add: s4_request_def)
    show ?thesis
      unfolding buf_def [symmetric] target_host_def Let_def ip j i dom fits using S4Domain assms(1) by simp
  qed
qed

text \<open>C37. A SOCKS4 or SOCKS4a request whose first segment is read leads, when access control passes, to
  one context with the address or the domain name of the request and its port. Only the first
  segment counts: a domain name that has arrived in part is taken to end there, so that the
  context names a shortened host.\<close>

theorem socks4_connect:
  assumes "\<not> closed s" and "inp s = s4_request port d user # rest" and "length (s4_request port d user) \<le> 4096"
    and "s4_ok d" and "0 \<notin> set user" and "auth_Enable cfg \<longrightarrow> Verify cfg (string_of user) '''' (raddr s)"
  shows "socks4_Handle cfg uid s = Some (Ret (), s\<lparr>inp := rest, tcpIn := tcpIn s @ [
      \<lparr>Metadata = \<lparr>ID = uid, NetWork = TCP, Type = SOCKS4, Src = IP_of (raddr s),
         Dest = \<lparr>Addr = s4_host d, Port = int (unat port)\<rparr>\<rparr>,
       Line = '''', PreFn = WriteReply [0x00, 0x5A, 0x00, 0x00, 0, 0, 0, 0], PostFn = WgDone\<rparr>]\<rparr>)"
proof -
  let ?r = "s4_request port d user" and ?t = "net_JoinHostPort (s4_host d) (FormatUint (unat port))"
  have ipl: "length (s4_ip d) = 4"
    by (rule length_s4_ip [OF assms(4)])
  have "io_ReadAtLeast 4096 8 s = Some (Ret ?r, s\<lparr>inp := rest\<rparr>)"
    using assms(1,2,3) ipl by (intro ReadAtLeast_segment) (simp_all add: s4_request_def)
  then have got: "io_catch (io_ReadAtLeast 4096 8) h s = Some (Ret ?r, s\<lparr>inp := rest\<rparr>)" for h
    by (simp add: io_catch_def)
  have cmd: "tl ?r ! 0 = socks4_CmdConnect"
    by (simp add: s4_request_def socks4_CmdConnect_def)
  have user: "readUntilNull (drop 7 (tl ?r)) = string_of user"
  proof -
    have "drop 7 (tl ?r) = user @ 0 # s4_tail d"
      using ipl by (intro drop_prefix [of _ "[1] @ putUint16 port @ s4_ip d"]) (simp_all add: s4_request_def)
    then show ?thesis
      using assms(5) by (simp add: readUntilNull_def takeWhile_null)
  qed
  have port: "getUint16 (take 2 (drop 1 (tl ?r))) = port"
    using getUint16_putUint16 [of port "[]"] by (simp add: s4_request_def)
  have hs: "socks4_handshake cfg s = Some (Ret ?t, s\<lparr>inp := rest\<rparr>)"
    unfolding socks4_handshake_def Let_def io_bind_run(1) [where m = "io_catch _ _" and s = s, OF got]
    using target_host_request [OF assms(4,5,3)] assms(6) by (simp add: cmd [unfolded One_nat_def] user port [unfolded One_nat_def])
  have "unat port < 2 ^ 63"
    using unsigned_less [of port] by (rule less_trans) simp
  moreover have "CHR ''['' \<notin> set (s4_host d)" "CHR '']'' \<notin> set (s4_host d)"
    using assms(4) by (cases d; simp add: IP_String_brackets)+
  ultimately have "IP_of ?t = \<lparr>Addr = s4_host d, Port = int (unat port)\<rparr>"
    by (intro IP_of_Join)
  then show ?thesis
    using hs by (simp add: socks4_Handle_def socks4_processRequest_def send_ctx_def)
qed

theorem socks4_connect_witness:
  "\<exists>s'. socks4_Handle initial_Config [] (client_session [s4_request 80 (S4Domain 1 (bytes_of ''example.co'') False) [],
     bytes_of ''m'']) = Some (Ret (), s') \<and>
     map (\<lambda>ctx. Dest (Metadata ctx)) (tcpIn s') = [\<lparr>Addr = ''example.co'', Port = 80\<rparr>]"
proof -
  let ?d = "S4Domain 1 (bytes_of ''example.co'') False"
  let ?s = "client_session [s4_request 80 ?d [], bytes_of ''m'']"
  have "0 \<notin> set (bytes_of ''example.co'')"
    by (simp add: bytes_of_def)
  then have "s4_ok ?d"
    by simp
  from socks4_connect [OF _ _ _ this, of ?s 80 "[]" "[bytes_of ''m'']" initial_Config "[]"] show ?thesis
    by (simp add: client_session_def s4_request_def auth_Enable_def initial_Config_def)
qed

end
