(* ===== verification/Socks5.thy ===== *)
theory Socks5
  imports Proxy_Interface
begin

text \<open>
  \<^verbatim>\<open>internal/socks5\<close>: the SOCKS5 front end (\<^verbatim>\<open>tcp.go\<close>). The proxy object is its fields: the identifier
  of the connection, the address of the UDP listener and the configuration its authenticator reads;
  its connection and wait group are the session. \<^verbatim>\<open>net.ResolveIPAddr\<close> is the parameter \<open>resolve\<close>.
\<close>

definition Version :: byte where "Version = 5"
definition CmdConnect :: byte where "CmdConnect = 1"
definition CmdBind :: byte where "CmdBind = 2"
definition CmdUdp :: byte where "CmdUdp = 3"

section \<open>The operations\<close>

text \<open>The loops \<^verbatim>\<open>for n < p1\<close> and \<^verbatim>\<open>for n < p4\<close>: read until the first \<open>p\<close> bytes of the buffer are there. A
  buffer that is full before that is read into again and again, with no room left.\<close>

partial_function (option) fill_loop ::
    "nat \<Rightarrow> nat \<Rightarrow> bytes \<Rightarrow> 'z conn_scheme \<Rightarrow> (bytes res \<times> 'z conn_scheme) option" where
  "fill_loop len p got c =
     (if p \<le> length got then Some (Ret got, c)
      else (case conn_Read (len - length got) c of
              None \<Rightarrow> None
            | Some rc \<Rightarrow>
                (case fst rc of
                   Ret bs \<Rightarrow> fill_loop len p (got @ bs) (snd rc)
                 | Fail e \<Rightarrow> Some (Fail e, snd rc)
                 | Panic \<Rightarrow> Some (Panic, snd rc))))"

definition passwordAuth :: "Config \<Rightarrow> (unit, session) io" where
  "passwordAuth cfg =
     io_bind (io_skip (conn_Write [0x05, 0x02])) (\<lambda>_.
     io_bind (io_ReadAtLeast 32 2) (\<lambda>got.
     if zbuf 32 got ! 0 \<noteq> 0x01 then io_fail (ErrNew ''unsupported auth version'')
     else
       let usernameLen = unat (zbuf 32 got ! 1); p0 = 2; p1 = p0 + usernameLen
       in io_bind (fill_loop 32 p1 got) (\<lambda>got.
          let user = string_of (take usernameLen (drop p0 (zbuf 32 got)))
          in if 32 \<le> p1 then io_panic
             else
               let passwordLen = unat (zbuf 32 got ! p1); p3 = p1 + 1; p4 = p3 + passwordLen
               in io_bind (fill_loop 32 p4 got) (\<lambda>got.
                  let password = string_of (take passwordLen (drop p3 (zbuf 32 got)))
                  in (\<lambda>s. (if Verify cfg user password (raddr s)
                           then io_skip (conn_Write [0x01, 0x00])
                           else io_bind (io_skip (conn_Write [0x01, 0x01]))
                                  (\<lambda>_. io_fail (ErrNew ''access denied''))) s)))))"

definition handshake :: "Config \<Rightarrow> (unit, session) io" where
  "handshake cfg =
     io_bind (io_ReadAtLeast 4096 1) (\<lambda>got.
     let n = length got; l = unat (zbuf 4096 got ! 1)
     in io_bind (if n \<noteq> l + 2
                 then (if l + 2 + 1 < n then io_panic
                       else io_bind (io_ReadFull (l + 2 + 1 - n)) (\<lambda>more. io_ret (got @ more)))
                 else io_ret got) (\<lambda>got.
        if \<not> auth_Enable cfg then io_skip (conn_Write [0x05, 0x00])
        else if \<not> list_ex (\<lambda>b. b = 0x02) (drop 2 got)
        then io_bind (io_skip (conn_Write [0x05, 0xff])) (\<lambda>_. io_fail (ErrNew ''no supported auth method''))
        else passwordAuth cfg))"

definition handleConnectCmd :: "uuid \<Rightarrow> string \<Rightarrow> (unit, session) io" where
  "handleConnectCmd uid target s =
     send_ctx \<lparr>
       Metadata = \<lparr>ID = uid, NetWork = TCP, Type = SOCKS5, Src = IP_of (raddr s), Dest = IP_of target\<rparr>,
       Line = '''',
       PreFn = WriteReply [0x05, 0x00, 0x00, 0x01, 0x00, 0x00, 0x00, 0x00, 0x01, 0x01],
       PostFn = WgDone\<rparr> s"

text \<open>The closure \<^verbatim>\<open>forward\<close> of \<^verbatim>\<open>handleUdpCmd\<close>: it discards what the client sends until a read fails.\<close>

partial_function (option) drain_loop ::
    "'z conn_scheme \<Rightarrow> (unit res \<times> 'z conn_scheme) option" where
  "drain_loop c =
     (case io_ReadFull 100 c of
        None \<Rightarrow> None
      | Some rc \<Rightarrow>
          (case fst rc of
             Ret bs \<Rightarrow> drain_loop (snd rc)
           | Fail e \<Rightarrow> Some (Ret (), snd rc)
           | Panic \<Rightarrow> Some (Panic, snd rc)))"

definition handleUdpCmd :: "(string \<Rightarrow> IP_bytes res) \<Rightarrow> string \<Rightarrow> (unit, session) io" where
  "handleUdpCmd resolve Udp =
     (case net_SplitHostPort Udp of
        Ret (host, port) \<Rightarrow>
          (case Atoi port of
             Ret p \<Rightarrow>
               (case resolve host of
                  Ret ip \<Rightarrow>
                    io_bind (conn_Write ([Version, 0x00, 0x00, 0x01] @ To4 ip @ putUint16 (of_int p))) (\<lambda>_.
                    io_bind drain_loop (\<lambda>_. conn_Close))
                | Fail e \<Rightarrow> io_fail e
                | Panic \<Rightarrow> io_panic)
           | Fail e \<Rightarrow> io_fail e
           | Panic \<Rightarrow> io_panic)
      | Fail e \<Rightarrow> io_fail e
      | Panic \<Rightarrow> io_panic)"

definition processRequest :: "(string \<Rightarrow> IP_bytes res) \<Rightarrow> string \<Rightarrow> uuid \<Rightarrow> (unit, session) io" where
  "processRequest resolve Udp uid =
     io_bind (io_ReadAtLeast 258 10) (\<lambda>got.
     if zbuf 258 got ! 0 \<noteq> Version then io_fail (ErrNew ''error version'')
     else
       let n = length got;
           atyp = zbuf 258 got ! 3;
           hlen = (if atyp = ATypeIPv4 then 4
                   else if atyp = ATypeDomainName then unat (zbuf 258 got ! 4) + 1
                   else if atyp = ATypeIPv6 then 16
                   else 0);
           msglen = 6 + hlen
       in io_bind (if n < msglen
                   then (if 258 < msglen then io_panic
                         else io_bind (io_ReadFull (msglen - n)) (\<lambda>more. io_ret (got @ more)))
                   else io_ret got) (\<lambda>got.
          let buf = zbuf 258 got;
              addr = take hlen (drop 4 buf);
              host = (if atyp = ATypeDomainName then string_of (tl addr) else IP_String addr);
              port = getUint16 (take 2 (drop (msglen - 2) buf));
              target = net_JoinHostPort host (FormatUint (unat port))
          in if buf ! 1 = CmdUdp then handleUdpCmd resolve Udp
             else if buf ! 1 = CmdConnect \<or> buf ! 1 = CmdBind then handleConnectCmd uid target
             else io_fail (ErrNew ''command not supported'')))"

definition socks5_Handle ::
    "Config \<Rightarrow> (string \<Rightarrow> IP_bytes res) \<Rightarrow> string \<Rightarrow> uuid \<Rightarrow> (unit, session) io" where
  "socks5_Handle cfg resolve Udp uid = io_bind (handshake cfg) (\<lambda>_. processRequest resolve Udp uid)"

section \<open>The contract of the interface\<close>

lemma fill_loop_keeps:
  assumes "stable I" and "fill_loop len p got c = Some rc"
  shows "I c \<longrightarrow> I (snd rc)"
  by (rule fill_loop.raw_induct [OF _ assms(2), of "\<lambda>len p got c rc. I c \<longrightarrow> I (snd rc)"])
    (auto dest: conn_Read_keeps [OF assms(1)] split: if_splits option.splits res.splits)

lemma keeps_fill_loop [triples]: "stable I \<Longrightarrow> keeps I (fill_loop len p got)"
  unfolding triple_def by (auto dest: fill_loop_keeps)

lemma drain_loop_keeps:
  assumes "stable I" and "drain_loop c = Some rc"
  shows "I c \<longrightarrow> I (snd rc)"
  by (rule drain_loop.raw_induct [OF _ assms(2), of "\<lambda>c rc. I c \<longrightarrow> I (snd rc)"])
    (auto dest: ReadFull_keeps [OF assms(1)] split: option.splits res.splits)

lemma keeps_drain_loop [triples]: "stable I \<Longrightarrow> keeps I drain_loop"
  unfolding triple_def by (auto dest: drain_loop_keeps)

lemma passwordAuth_triple:
  assumes "auth_Enable cfg"
  shows "triple (rest_is q w a) (passwordAuth cfg) (\<lambda>_ s. rest_is q w a s \<and> authorised cfg a) (rest_is q w a)"
proof -
  have verdict: "triple (rest_is q w a)
      (\<lambda>s. (if Verify cfg u p (raddr s) then io_skip (conn_Write [0x01, 0x00])
            else io_bind (io_skip (conn_Write [0x01, 0x01])) (\<lambda>_. io_fail e)) s)
      (\<lambda>_ s. rest_is q w a s \<and> authorised cfg a) (rest_is q w a)" for u p e
    using assms by (auto simp: triple_def rest_is_def authorised_def written_def io_bind_def)
  show ?thesis
    unfolding passwordAuth_def Let_def
    by (rule triple_bind [where R = "\<lambda>_. rest_is q w a"] triples verdict | simp)+
qed

lemma handshake_triple:
  "triple (rest_is q w a) (handshake cfg) (\<lambda>_ s. rest_is q w a s \<and> authorised cfg a) (rest_is q w a)"
proof -
  have open_access: "triple (rest_is q w a) (io_skip (conn_Write bs))
      (\<lambda>_ s. rest_is q w a s \<and> authorised cfg a) (rest_is q w a)" if "\<not> auth_Enable cfg" for bs
    using that by (auto simp: triple_def rest_is_def authorised_def written_def)
  show ?thesis
    unfolding handshake_def Let_def
    by (rule triple_bind [where R = "\<lambda>_. rest_is q w a"] triple_if open_access passwordAuth_triple triples | simp)+
qed

lemma handleConnectCmd_triple:
  assumes "authorised cfg a"
  shows "triple (rest_is q w a) (handleConnectCmd uid target) (\<lambda>_. handled {SOCKS5} cfg uid q w a) (rest_is q w a)"
  using assms by (auto simp: triple_def handleConnectCmd_def send_ctx_def handled_def rest_is_def ctx_for_def)

lemma handleUdpCmd_triple:
  "triple (rest_is q w a) (handleUdpCmd resolve Udp) (\<lambda>_. handled {SOCKS5} cfg uid q w a) (rest_is q w a)"
proof (rule triple_conseq [where Q' = "\<lambda>_. rest_is q w a"])
  show "keeps (rest_is q w a) (handleUdpCmd resolve Udp)"
    unfolding handleUdpCmd_def
    by (cases "net_SplitHostPort Udp") (auto intro!: triples triple_bind [where R = "\<lambda>_. rest_is q w a"] split: res.splits)
qed (auto intro: handled_same)

lemma processRequest_triple:
  assumes "authorised cfg a"
  shows "triple (rest_is q w a) (processRequest resolve Udp uid) (\<lambda>_. handled {SOCKS5} cfg uid q w a) (rest_is q w a)"
  unfolding processRequest_def Let_def
  by (rule triple_bind [where R = "\<lambda>_. rest_is q w a"] triple_if handleUdpCmd_triple
      handleConnectCmd_triple [OF assms] triples | simp)+

interpretation s5: proxy_handler "\<lambda>cfg uid. socks5_Handle cfg resolve Udp uid" "{SOCKS5}" for resolve Udp
  unfolding socks5_Handle_def
  by unfold_locales (rule Handle_contract_bind [OF handshake_triple processRequest_triple])

section \<open>Requests\<close>

text \<open>A request as RFC 1928 describes it, and the host a front end should hand on.\<close>

datatype s5_addr = IPv4 bytes | DomainName bytes | IPv6 bytes

fun s5_atyp :: "s5_addr \<Rightarrow> byte" where
  "s5_atyp (IPv4 _) = ATypeIPv4"
| "s5_atyp (DomainName _) = ATypeDomainName"
| "s5_atyp (IPv6 _) = ATypeIPv6"

fun s5_body :: "s5_addr \<Rightarrow> bytes" where
  "s5_body (IPv4 ip) = ip"
| "s5_body (DomainName d) = of_nat (length d) # d"
| "s5_body (IPv6 ip) = ip"

fun s5_host :: "s5_addr \<Rightarrow> string" where
  "s5_host (IPv4 ip) = IP_String ip"
| "s5_host (DomainName d) = string_of d"
| "s5_host (IPv6 ip) = IP_String ip"

text \<open>Besides the lengths of the addresses: the request has at least the ten bytes the code waits for
  and fits its buffer.\<close>

fun s5_ok :: "s5_addr \<Rightarrow> bool" where
  "s5_ok (IPv4 ip) \<longleftrightarrow> length ip = 4"
| "s5_ok (DomainName d) \<longleftrightarrow> 3 \<le> length d \<and> length d \<le> 251"
| "s5_ok (IPv6 ip) \<longleftrightarrow> length ip = 16"

definition s5_request :: "byte \<Rightarrow> s5_addr \<Rightarrow> 16 word \<Rightarrow> bytes" where
  "s5_request cmd a port = [0x05, cmd, 0x00, s5_atyp a] @ s5_body a @ putUint16 port"

lemmas atyp_defs = ATypeIPv4_def ATypeDomainName_def ATypeIPv6_def

lemma s5_hlen:
  assumes "s5_ok a"
  shows "(if s5_atyp a = ATypeIPv4 then 4
          else if s5_atyp a = ATypeDomainName then unat (s5_request cmd a port ! 4) + 1
          else if s5_atyp a = ATypeIPv6 then 16 else 0) = length (s5_body a)"
  using assms by (cases a) (simp_all add: s5_request_def atyp_defs unat_of_nat_small)

lemma s5_body_length: "s5_ok a \<Longrightarrow> 4 \<le> length (s5_body a) \<and> length (s5_body a) \<le> 252"
  by (cases a) simp_all

text \<open>The read that completes the header: whatever the segmentation, the buffer then holds the whole
  request.\<close>

lemma read_request_alone:
  assumes "stream s = str" and "10 \<le> m" and "m \<le> length str" and "m \<le> 258" and "\<not> closed s"
  obtains k q k' q' where "io_ReadAtLeast 258 10 s = Some (Ret (take k str), s\<lparr>inp := q\<rparr>)" and "10 \<le> k"
    and "k \<le> length str"
    and "(if k < m then io_bind (io_ReadFull (m - k)) (\<lambda>more. io_ret (take k str @ more))
          else io_ret (take k str)) (s\<lparr>inp := q\<rparr>) = Some (Ret (take k' str), s\<lparr>inp := q'\<rparr>)"
    and "m \<le> k'" and "k' \<le> length str" and "concat q' = drop k' str"
proof -
  obtain k q where k: "io_ReadAtLeast 258 10 s = Some (Ret (take k str), s\<lparr>inp := q\<rparr>)"
    "concat q = drop k str" "10 \<le> k" "k \<le> length str"
    by (rule io_ReadAtLeast_delivers [of 10 258 s]) (use assms in auto)
  show thesis
  proof (cases "k < m")
    case True
    obtain q' where q': "io_ReadFull (m - k) (s\<lparr>inp := q\<rparr>) =
        Some (Ret (take (m - k) (drop k str)), s\<lparr>inp := q'\<rparr>)" "concat q' = drop m str"
      using ReadFull_more [of "s\<lparr>inp := q\<rparr>" k str m] k(2) True assms by auto
    have "take k str @ take (m - k) (drop k str) = take m str"
      using True take_add [of k "m - k" str] by simp
    then show thesis
      using True k q' assms(3) by (intro that [of k q m q']) simp_all
  next
    case False
    then show thesis
      using k by (intro that [of k q k q]) simp_all
  qed
qed

text \<open>Later segments stay where they are.\<close>

lemma read_request:
  assumes "inp s = rs @ ds" and "concat rs = str" and "10 \<le> m" and "m \<le> length str" and "m \<le> 258" and "\<not> closed s"
  obtains k q k' q' where "io_ReadAtLeast 258 10 s = Some (Ret (take k str), s\<lparr>inp := q @ ds\<rparr>)" and "10 \<le> k"
    and "k \<le> length str"
    and "(if k < m then io_bind (io_ReadFull (m - k)) (\<lambda>more. io_ret (take k str @ more))
          else io_ret (take k str)) (s\<lparr>inp := q @ ds\<rparr>) = Some (Ret (take k' str), s\<lparr>inp := q' @ ds\<rparr>)"
    and "m \<le> k'" and "k' \<le> length str" and "concat q' = drop k' str"
proof -
  let ?s = "s\<lparr>inp := rs\<rparr>"
  have s: "more_input ds ?s = s"
    using assms(1) by (simp add: more_input_def)
  have "stream ?s = str" "\<not> closed ?s"
    using assms by simp_all
  from read_request_alone [OF this(1) assms(3-5) this(2)] obtain k q k' q'
    where rd: "io_ReadAtLeast 258 10 ?s = Some (Ret (take k str), ?s\<lparr>inp := q\<rparr>)" "10 \<le> k" "k \<le> length str"
    and more: "(if k < m then io_bind (io_ReadFull (m - k)) (\<lambda>more. io_ret (take k str @ more))
          else io_ret (take k str)) (?s\<lparr>inp := q\<rparr>) = Some (Ret (take k' str), ?s\<lparr>inp := q'\<rparr>)"
    and k': "m \<le> k'" "k' \<le> length str" "concat q' = drop k' str"
    by metis
  have "io_ReadAtLeast 258 10 s = Some (Ret (take k str), s\<lparr>inp := q @ ds\<rparr>)"
    using ReadAtLeast_more_input [OF rd(1), of ds] unfolding s by simp
  moreover have "(if k < m then io_bind (io_ReadFull (m - k)) (\<lambda>more. io_ret (take k str @ more))
          else io_ret (take k str)) (s\<lparr>inp := q @ ds\<rparr>) = Some (Ret (take k' str), s\<lparr>inp := q' @ ds\<rparr>)"
  proof (cases "k < m")
    case True
    then obtain bs where "io_ReadFull (m - k) (?s\<lparr>inp := q\<rparr>) = Some (Ret bs, ?s\<lparr>inp := q'\<rparr>)" "take k str @ bs = take k' str"
      using more by (auto simp: io_bind_def split: option.splits res.splits)
    then have "io_ReadFull (m - k) (s\<lparr>inp := q @ ds\<rparr>) = Some (Ret bs, s\<lparr>inp := q' @ ds\<rparr>)"
      using ReadAtLeast_more_input [of "m - k" "m - k" "?s\<lparr>inp := q\<rparr>" bs "?s\<lparr>inp := q'\<rparr>" ds] by (simp add: io_ReadFull_def)
    then show ?thesis
      using True \<open>take k str @ bs = take k' str\<close> by simp
  next
    case False
    then have "take k str = take k' str" "?s\<lparr>inp := q\<rparr> = ?s\<lparr>inp := q'\<rparr>"
      using more by simp_all
    then have "q = q'"
      by (metis conn.select_convs(1) conn.simps(1) conn.update_convs(1) conn.surjective)
    then show ?thesis
      using False \<open>take k str = take k' str\<close> by simp
  qed
  ultimately show thesis
    using rd(2,3) k' by (intro that)
qed

lemma processRequest_runs:
  assumes str: "inp s = rs @ ds" "concat rs = s5_request cmd a port @ extra" and ok: "s5_ok a" and op: "\<not> closed s"
  shows "\<exists>k q. concat q = drop k extra \<and>
    processRequest resolve Udp uid s =
      (if cmd = CmdUdp then handleUdpCmd resolve Udp
       else if cmd = CmdConnect \<or> cmd = CmdBind
         then handleConnectCmd uid (net_JoinHostPort (s5_host a) (FormatUint (unat port)))
       else io_fail (ErrNew ''command not supported'')) (s\<lparr>inp := q @ ds\<rparr>)"
proof -
  define str where "str = s5_request cmd a port @ extra"
  let ?h = "length (s5_body a)"
  have len: "6 + ?h \<le> length str" "10 \<le> 6 + ?h" "6 + ?h \<le> 258"
    using s5_body_length [OF ok] by (simp_all add: str_def s5_request_def)
  have "concat rs = str"
    using str by (simp add: str_def)
  from read_request [OF str(1) this len(2,1,3) op] obtain k q k' q'
    where rd: "io_ReadAtLeast 258 10 s = Some (Ret (take k str), s\<lparr>inp := q @ ds\<rparr>)" "10 \<le> k" "k \<le> length str"
      "(if k < 6 + ?h then io_bind (io_ReadFull (6 + ?h - k)) (\<lambda>more. io_ret (take k str @ more))
        else io_ret (take k str)) (s\<lparr>inp := q @ ds\<rparr>) = Some (Ret (take k' str), s\<lparr>inp := q' @ ds\<rparr>)"
    and k': "6 + ?h \<le> k'" "k' \<le> length str" "concat q' = drop k' str"
    by blast
  have hd: "zbuf 258 (take k str) ! 0 = Version" "zbuf 258 (take k str) ! 3 = s5_atyp a"
    "zbuf 258 (take k str) ! 4 = s5_request cmd a port ! 4"
    using rd(2,3) len s5_body_length [OF ok] by (simp_all add: str_def nth_append s5_request_def Version_def)
  have cmd: "zbuf 258 (take k' str) ! 1 = cmd"
    using k' len by (simp add: str_def nth_append s5_request_def)
  have body: "take ?h (drop 4 (zbuf 258 (take k' str))) = s5_body a"
    using k' len by (simp add: zbuf_slice take_slice) (simp add: str_def s5_request_def)
  have prt: "getUint16 (take 2 (drop (4 + ?h) (zbuf 258 (take k' str)))) = port"
  proof -
    have "str = ([0x05, cmd, 0x00, s5_atyp a] @ s5_body a) @ putUint16 port @ extra"
      by (simp add: str_def s5_request_def)
    then have "drop (4 + ?h) str = putUint16 port @ extra"
      by (rule drop_prefix) simp
    then show ?thesis
      using k' len getUint16_putUint16 [of port "[]"] by (simp add: zbuf_slice take_slice)
  qed
  have host: "(if s5_atyp a = ATypeDomainName then string_of (tl (s5_body a)) else IP_String (s5_body a)) = s5_host a"
    by (cases a) (simp_all add: atyp_defs)
  have rest: "concat q' = drop (k' - (6 + ?h)) extra"
  proof -
    have "length (s5_request cmd a port) = 6 + ?h"
      by (simp add: s5_request_def)
    then show ?thesis
      using k' by (simp add: str_def)
  qed
  show ?thesis
  proof (intro exI conjI)
    let ?more = "if k < 6 + ?h then io_bind (io_ReadFull (6 + ?h - k)) (\<lambda>more. io_ret (take k str @ more))
      else io_ret (take k str)"
    have lk: "length (take k str) = k" and small: "258 < 6 + ?h \<longleftrightarrow> False"
      using rd(3) len by simp_all
    have m2: "6 + ?h - 2 = 4 + ?h"
      by simp
    show "processRequest resolve Udp uid s =
      (if cmd = CmdUdp then handleUdpCmd resolve Udp
       else if cmd = CmdConnect \<or> cmd = CmdBind
         then handleConnectCmd uid (net_JoinHostPort (s5_host a) (FormatUint (unat port)))
       else io_fail (ErrNew ''command not supported'')) (s\<lparr>inp := q' @ ds\<rparr>)"
      unfolding processRequest_def Let_def io_bind_run(1) [where m = "io_ReadAtLeast 258 10" and s = s, OF rd(1)]
      by (simp only: hd lk s5_hlen [OF ok] small if_False not_True_eq_False simp_thms
          io_bind_run(1) [where m = ?more and s = "s\<lparr>inp := q @ ds\<rparr>", OF rd(4)] cmd body prt host m2)
  qed (rule rest)
qed

section \<open>The greeting\<close>

definition s5_greeting :: "bytes \<Rightarrow> bytes" where
  "s5_greeting methods = [0x05, of_nat (length methods)] @ methods"

text \<open>A greeting that arrives as one segment.\<close>

lemma handshake_greeting:
  assumes "inp s = s5_greeting ms # rest" and "length ms \<le> 255" and "\<not> closed s"
  shows "handshake cfg s =
    (if \<not> auth_Enable cfg then io_skip (conn_Write [0x05, 0x00])
     else if 0x02 \<notin> set ms
     then io_bind (io_skip (conn_Write [0x05, 0xff])) (\<lambda>_. io_fail (ErrNew ''no supported auth method''))
     else passwordAuth cfg) (s\<lparr>inp := rest\<rparr>)"
proof -
  have got: "io_ReadAtLeast 4096 1 s = Some (Ret (s5_greeting ms), s\<lparr>inp := rest\<rparr>)"
    using assms by (intro ReadAtLeast_segment) (simp_all add: s5_greeting_def)
  have l: "length (s5_greeting ms) = unat (zbuf 4096 (s5_greeting ms) ! 1) + 2"
    using assms(2) by (simp add: s5_greeting_def unat_of_nat_small)
  show ?thesis
    unfolding handshake_def io_bind_run(1) [where m = "io_ReadAtLeast 4096 1" and s = s, OF got]
    using l by (simp add: Let_def s5_greeting_def list_ex_iff)
qed

lemma s5_host_no_bracket:
  assumes "s5_ok a"
    and "\<forall>d. a = DomainName d \<longrightarrow> CHR ''['' \<notin> set (string_of d) \<and> CHR '']'' \<notin> set (string_of d)"
  shows "CHR ''['' \<notin> set (s5_host a)" "CHR '']'' \<notin> set (s5_host a)"
  using assms by (cases a; simp add: IP_String_brackets)+

lemma socks5_connect_rest:
  assumes "\<not> auth_Enable cfg" and "\<not> closed s"
    and "inp s = s5_greeting ms # segs" and "length ms \<le> 255"
    and "segs = rs @ ds" and "concat rs = s5_request cmd a port" and "s5_ok a" and "cmd = CmdConnect \<or> cmd = CmdBind"
    and "\<forall>d. a = DomainName d \<longrightarrow> CHR ''['' \<notin> set (string_of d) \<and> CHR '']'' \<notin> set (string_of d)"
  shows "\<exists>q. concat q = concat ds \<and>
    socks5_Handle cfg resolve Udp uid s = Some (Ret (), (written [0x05, 0x00] s)\<lparr>inp := q, tcpIn := tcpIn s @ [
      \<lparr>Metadata = \<lparr>ID = uid, NetWork = TCP, Type = SOCKS5, Src = IP_of (raddr s),
         Dest = \<lparr>Addr = s5_host a, Port = int (unat port)\<rparr>\<rparr>,
       Line = '''', PreFn = WriteReply [0x05, 0x00, 0x00, 0x01, 0x00, 0x00, 0x00, 0x00, 0x01, 0x01],
       PostFn = WgDone\<rparr>]\<rparr>)"
proof -
  let ?s = "written [0x05, 0x00] (s\<lparr>inp := segs\<rparr>)"
  have hs: "handshake cfg s = Some (Ret (), ?s)"
    using handshake_greeting [OF assms(3,4,2)] assms(1) by simp
  have "inp ?s = rs @ ds" "concat rs = s5_request cmd a port @ []" "\<not> closed ?s"
    using assms by (simp_all add: written_inp)
  from processRequest_runs [OF this(1,2) assms(7) this(3), of resolve Udp uid] obtain q0
    where "concat q0 = []" and run: "processRequest resolve Udp uid ?s =
      (if cmd = CmdUdp then handleUdpCmd resolve Udp
       else if cmd = CmdConnect \<or> cmd = CmdBind
         then handleConnectCmd uid (net_JoinHostPort (s5_host a) (FormatUint (unat port)))
       else io_fail (ErrNew ''command not supported'')) (?s\<lparr>inp := q0 @ ds\<rparr>)"
    by auto
  then have q: "concat (q0 @ ds) = concat ds"
    by simp
  have "unat port < 2 ^ 63"
    using unsigned_less [of port] by (rule less_trans) simp
  then have dest: "IP_of (net_JoinHostPort (s5_host a) (FormatUint (unat port))) =
      \<lparr>Addr = s5_host a, Port = int (unat port)\<rparr>"
    by (rule IP_of_Join [OF s5_host_no_bracket [OF assms(7,9)]])
  have "cmd \<noteq> CmdUdp"
    using assms(8) by (auto simp: CmdUdp_def CmdConnect_def CmdBind_def)
  with hs run assms(8) dest show ?thesis
    by (intro exI [of _ "q0 @ ds"] conjI q)
      (simp add: socks5_Handle_def handleConnectCmd_def send_ctx_def written_inp written_tcpIn)
qed



section \<open>User name and password\<close>

definition s5_credentials :: "bytes \<Rightarrow> bytes \<Rightarrow> bytes" where
  "s5_credentials u p = [0x01, of_nat (length u)] @ u @ [of_nat (length p)] @ p"

lemma fill_loop_done [simp]: "p \<le> length got \<Longrightarrow> fill_loop len p got c = Some (Ret got, c)"
  by (simp add: fill_loop.simps)

lemma passwordAuth_credentials:
  assumes "inp s = s5_credentials u p # rest" and "length u + length p \<le> 29" and "\<not> closed s"
  shows "passwordAuth cfg s =
    (if Verify cfg (string_of u) (string_of p) (raddr s) then io_skip (conn_Write [0x01, 0x00])
     else io_bind (io_skip (conn_Write [0x01, 0x01])) (\<lambda>_. io_fail (ErrNew ''access denied'')))
    (written [0x05, 0x02] (s\<lparr>inp := rest\<rparr>))"
proof -
  let ?m = "s5_credentials u p" and ?s = "written [0x05, 0x02] s"
  have got: "io_ReadAtLeast 32 2 ?s = Some (Ret ?m, ?s\<lparr>inp := rest\<rparr>)"
    using assms by (intro ReadAtLeast_segment) (simp_all add: s5_credentials_def)
  have ver: "zbuf 32 ?m ! 0 = 0x01" and ul: "unat (zbuf 32 ?m ! 1) = length u"
    and pl: "unat (zbuf 32 ?m ! (2 + length u)) = length p"
    using assms(2) by (simp_all add: s5_credentials_def unat_of_nat_small nth_append)
  have user: "take (length u) (drop 2 (zbuf 32 ?m)) = u"
    by (simp add: zbuf_slice s5_credentials_def)
  have pass: "take (length p) (drop (2 + length u + 1) (zbuf 32 ?m)) = p"
    by (simp add: zbuf_slice s5_credentials_def)
  have fill: "fill_loop 32 (2 + length u) ?m c = Some (Ret ?m, c)"
    "fill_loop 32 (2 + length u + 1 + length p) ?m c = Some (Ret ?m, c)" for c :: session
    by (simp_all add: s5_credentials_def)
  have small: "32 \<le> 2 + length u \<longleftrightarrow> False"
    using assms(2) by simp
  show ?thesis
    unfolding passwordAuth_def Let_def
    by (simp only: io_bind_run(1) [where m = "io_skip (conn_Write [5, 2])" and s = s, OF io_skip_Write]
        io_bind_run(1) [where m = "io_ReadAtLeast 32 2" and s = ?s, OF got] ver ul
        io_bind_run(1) [where m = "fill_loop 32 (2 + length u) ?m", OF fill(1)]
        pl user small if_False not_True_eq_False simp_thms
        io_bind_run(1) [where m = "fill_loop 32 (2 + length u + 1 + length p) ?m", OF fill(2)] pass)
      (simp add: written_inp)
qed


definition bob_config :: Config where
  "bob_config = initial_Config\<lparr>Users := Some [\<lparr>UserName = ''bob'', Password = ''secret'', CIDR = None\<rparr>]\<rparr>"


lemma fill_loop_step:
  "length got < p \<Longrightarrow> conn_Read (len - length got) c = Some (Ret bs, c') \<Longrightarrow>
   fill_loop len p got c = fill_loop len p (got @ bs) c'"
  by (subst fill_loop.simps) simp

text \<open>C23. When the credentials arrive in two segments, cut behind the user name, the password is not
  looked at: the byte of its length is taken from the still empty buffer, so that an empty password
  is verified, which \<^verbatim>\<open>Verify\<close> never compares. Any password whatever then opens the session of a
  configured user without address list.\<close>

theorem socks5_split_credentials_skip_password:
  assumes "auth_Enable cfg" and "\<not> closed s" and "wfail s = None"
    and "inp s = s5_greeting ms # ([0x01, of_nat (length u)] @ u) # ([of_nat (length p)] @ p) # rest"
    and "length ms \<le> 255" and "0x02 \<in> set ms" and "length u + length p \<le> 29"
    and "find_user (users_of cfg) (string_of u) = Some v" and "CIDR v = None"
  shows "handshake cfg s = Some (Ret (), s\<lparr>inp := rest, outp := outp s @ [0x05, 0x02, 0x01, 0x00]\<rparr>)"
proof -
  let ?m = "[0x01, of_nat (length u)] @ u" and ?p = "[of_nat (length p)] @ p"
  let ?s = "s\<lparr>inp := ?m # ?p # rest\<rparr>"
  let ?w = "written [0x05, 0x02] ?s"
  have got: "io_ReadAtLeast 32 2 ?w = Some (Ret ?m, ?w\<lparr>inp := ?p # rest\<rparr>)"
    using assms by (intro ReadAtLeast_segment) simp_all
  have ver: "zbuf 32 ?m ! 0 = 0x01" and ul: "unat (zbuf 32 ?m ! 1) = length u"
    using assms(7) by (simp_all add: unat_of_nat_small)
  have pl: "unat (zbuf 32 ?m ! (2 + length u)) = 0"
    using assms(7) by (simp add: zbuf_def nth_append)
  have small: "32 \<le> 2 + length u \<longleftrightarrow> False"
    using assms(7) by simp
  have fill1: "fill_loop 32 (2 + length u) ?m c = Some (Ret ?m, c)" for c :: session
    by simp
  have fill2: "fill_loop 32 (2 + length u + 1 + 0) ?m (?w\<lparr>inp := ?p # rest\<rparr>) = Some (Ret (?m @ ?p), ?w\<lparr>inp := rest\<rparr>)"
  proof -
    have "conn_Read (32 - length ?m) (?w\<lparr>inp := ?p # rest\<rparr>) = Some (Ret ?p, ?w\<lparr>inp := rest\<rparr>)"
      using assms by (intro conn_Read_whole) simp_all
    from fill_loop_step [OF _ this, of "2 + length u + 1 + 0"] show ?thesis
      by simp
  qed
  have ok: "Verify cfg (string_of u) (string_of (take 0 xs)) a" for xs a
    using assms(8,9) by (simp add: Verify_def string_of_def)
  have user: "take (length u) (drop 2 (zbuf 32 ?m)) = u"
    by (simp add: zbuf_slice)
  have "passwordAuth cfg ?s = io_skip (conn_Write [0x01, 0x00]) (?w\<lparr>inp := rest\<rparr>)"
    unfolding passwordAuth_def Let_def
    by (simp only: io_bind_run(1) [where m = "io_skip (conn_Write [5, 2])" and s = ?s, OF io_skip_Write]
        io_bind_run(1) [where m = "io_ReadAtLeast 32 2" and s = ?w, OF got] ver ul
        io_bind_run(1) [where m = "fill_loop 32 (2 + length u) ?m", OF fill1]
        pl user small if_False if_True not_True_eq_False simp_thms
        io_bind_run(1) [where m = "fill_loop 32 (2 + length u + 1 + 0) ?m" and s = "?w\<lparr>inp := ?p # rest\<rparr>", OF fill2] ok)
  then show ?thesis
    using handshake_greeting [OF assms(4,5,2)] assms(1,2,3,6) by (simp add: written_def)
qed

theorem socks5_split_credentials_skip_password_witness:
  "\<exists>s'. handshake bob_config (client_session [s5_greeting [2],
     [0x01, of_nat (length (bytes_of ''bob''))] @ bytes_of ''bob'',
     [of_nat (length (bytes_of ''guess''))] @ bytes_of ''guess'']) = Some (Ret (), s')"
proof -
  let ?s = "client_session [s5_greeting [2], [0x01, of_nat (length (bytes_of ''bob''))] @ bytes_of ''bob'',
     [of_nat (length (bytes_of ''guess''))] @ bytes_of ''guess'']"
  have "find_user (users_of bob_config) (string_of (bytes_of ''bob'')) =
      Some \<lparr>UserName = ''bob'', Password = ''secret'', CIDR = None\<rparr>"
    by (simp add: bob_config_def users_of_def find_user_def initial_Config_def)
  from socks5_split_credentials_skip_password [OF _ _ _ _ _ _ _ this, of ?s "[2]" "bytes_of ''guess''" "[]"] show ?thesis
    by (simp add: auth_Enable_def bob_config_def client_session_def)
qed

section \<open>Inputs that hang or crash the front end\<close>

text \<open>A buffer smaller than what the loop waits for is filled and then read into without room, for ever.\<close>

lemma fill_loop_overfull:
  assumes "len < p" and "length got \<le> len" and "\<not> closed c" and "len \<le> length got + length (stream c)"
  shows "fill_loop len p got c = None"
proof (rule ccontr)
  let ?P = "\<lambda>len p got (c :: 'a conn_scheme) rc.
    \<not> (len < p \<and> length got \<le> len \<and> \<not> closed c \<and> len \<le> length got + length (stream c))"
  assume "fill_loop len p got c \<noteq> None"
  then obtain rc where "fill_loop len p got c = Some rc"
    by blast
  then have "?P len p got c rc"
  proof (rule fill_loop.raw_induct [of ?P, rotated])
    fix fl :: "nat \<Rightarrow> nat \<Rightarrow> bytes \<Rightarrow> 'a conn_scheme \<Rightarrow> (bytes res \<times> 'a conn_scheme) option"
      and len p got rc and c :: "'a conn_scheme"
    assume IH: "\<And>len p got c rc. fl len p got c = Some rc \<Longrightarrow> ?P len p got c rc"
      and step: "(if p \<le> length got then Some (Ret got, c)
        else case conn_Read (len - length got) c of None \<Rightarrow> None
          | Some rc \<Rightarrow> (case fst rc of Ret bs \<Rightarrow> fl len p (got @ bs) (snd rc)
              | Fail e \<Rightarrow> Some (Fail e, snd rc) | Panic \<Rightarrow> Some (Panic, snd rc))) = Some rc"
    show "?P len p got c rc"
    proof
      assume a: "len < p \<and> length got \<le> len \<and> \<not> closed c \<and> len \<le> length got + length (stream c)"
      obtain bs c' where rd: "conn_Read (len - length got) c = Some (Ret bs, c')" "\<not> closed c'"
        "length (got @ bs) \<le> len" "len \<le> length (got @ bs) + length (stream c')"
      proof -
        have "len - length got \<le> length (stream c)"
          using a by linarith
        with a obtain bs c' where "conn_Read (len - length got) c = Some (Ret bs, c')" "\<not> closed c'"
          "length bs \<le> len - length got" "len - length got \<le> length bs + length (stream c')"
          using conn_Read_room [of c "len - length got"] by blast
        moreover from this a have "length got + length bs \<le> len" "len \<le> length got + length bs + length (stream c')"
          by linarith+
        ultimately show thesis
          using that [of bs c'] by simp
      qed
      then show False
        using step IH [of len p "got @ bs" c' rc] a by auto
    qed
  qed
  then show False
    using assms by blast
qed

text \<open>A user name of more than 30 bytes never gets a verdict: once 32 bytes have arrived the
  front end loops for ever on its full buffer.\<close>

theorem socks5_long_username_loops:
  assumes "\<not> closed s" and "32 \<le> length (stream s)" and "stream s ! 0 = 0x01" and "30 < unat (stream s ! 1)"
  shows "passwordAuth cfg s = None"
proof -
  let ?w = "written [0x05, 0x02] s"
  define str where "str = stream s"
  obtain k q where k: "io_ReadAtLeast 32 2 ?w = Some (Ret (take k str), ?w\<lparr>inp := q\<rparr>)"
    "concat q = drop k str" "2 \<le> k" "k \<le> 32"
    by (rule io_ReadAtLeast_delivers [of 2 32 ?w]) (use assms(1,2) in \<open>auto simp: str_def\<close>)
  have hd: "zbuf 32 (take k str) ! 0 = 0x01" "zbuf 32 (take k str) ! 1 = str ! 1"
  proof -
    have "1 < length (take k str)"
      using k(3) assms(2) by (simp add: str_def)
    then have nth: "zbuf 32 (take k str) ! 0 = take k str ! 0" "zbuf 32 (take k str) ! 1 = take k str ! 1"
      by (intro zbuf_nth; linarith)+
    show "zbuf 32 (take k str) ! 0 = 0x01" "zbuf 32 (take k str) ! 1 = str ! 1"
      using k(3) assms(3) unfolding nth by (simp_all add: str_def)
  qed
  have "fill_loop 32 (2 + unat (str ! 1)) (take k str) (?w\<lparr>inp := q\<rparr>) = None"
    using assms(1,2,4) k by (intro fill_loop_overfull) (auto simp: str_def)
  then show ?thesis
    unfolding passwordAuth_def Let_def
    by (simp add: io_bind_run(1) [where m = "io_skip (conn_Write [5, 2])" and s = s, OF io_skip_Write]
        io_bind_run(1) [where m = "io_ReadAtLeast 32 2" and s = ?w, OF k(1)] hd [unfolded One_nat_def])
qed

theorem socks5_long_username_loops_witness:
  "passwordAuth bob_config (client_session [[0x01, 40] @ replicate 40 0x61]) = None"
  by (rule socks5_long_username_loops) (simp_all add: client_session_def nth_append)

text \<open>A greeting that does not arrive in one segment blocks the handshake: it waits for a byte behind
  the greeting, which a client does not send before it has got the reply.\<close>

theorem socks5_fragmented_greeting_blocks:
  assumes "inp s = [g1, g2]" and "g1 @ g2 = s5_greeting ms" and "length ms \<le> 255" and "2 \<le> length g1" and "g2 \<noteq> []"
    and "\<not> closed s" and "rend s = Silent"
  shows "handshake cfg s = None"
proof -
  have g1: "length g1 \<le> 4096" "length g1 < length ms + 2" "length g2 = length ms + 2 - length g1"
  proof -
    have "length g1 + length g2 = length ms + 2" "0 < length g2"
      using arg_cong [OF assms(2), of length] assms(5) by (simp_all add: s5_greeting_def)
    then show "length g1 \<le> 4096" "length g1 < length ms + 2" "length g2 = length ms + 2 - length g1"
      using assms(3) by linarith+
  qed
  have got: "io_ReadAtLeast 4096 1 s = Some (Ret g1, s\<lparr>inp := [g2]\<rparr>)"
    using assms g1 by (intro ReadAtLeast_segment) simp_all
  have "zbuf 4096 g1 ! 1 = (g1 @ g2) ! 1"
    using assms(4) by (simp add: nth_append)
  then have l: "unat (zbuf 4096 g1 ! 1) = length ms"
    using assms(2,3) by (simp add: s5_greeting_def unat_of_nat_small)
  have "io_ReadFull (length ms + 2 + 1 - length g1) (s\<lparr>inp := [g2]\<rparr>) = None"
    using assms(6,7) g1 by (subst io_ReadFull_starves) (auto simp: end_error_def)
  then show ?thesis
    unfolding handshake_def Let_def io_bind_run(1) [where m = "io_ReadAtLeast 4096 1" and s = s, OF got]
    using l g1 by (simp only: l) simp
qed

theorem socks5_fragmented_greeting_blocks_witness:
  "handshake initial_Config (client_session [[0x05, 0x01], [0x00]]) = None"
  by (rule socks5_fragmented_greeting_blocks [where ms = "[0]" and ?g1.0 = "[0x05, 0x01]" and ?g2.0 = "[0x00]"])
    (simp_all add: client_session_def s5_greeting_def)

text \<open>A domain name of 252 or more bytes, which the protocol allows, makes the front end panic: the
  request does not fit its buffer of 258 bytes. There is no recover in the program, so this ends it.\<close>

theorem socks5_long_domain_panics:
  assumes "\<not> closed s" and "10 \<le> length (stream s)" and "stream s ! 0 = 0x05" and "stream s ! 3 = ATypeDomainName"
    and "252 \<le> unat (stream s ! 4)"
  shows "\<exists>s'. processRequest resolve Udp uid s = Some (Panic, s')"
proof -
  define str where "str = stream s"
  obtain k q where k: "io_ReadAtLeast 258 10 s = Some (Ret (take k str), s\<lparr>inp := q\<rparr>)" "10 \<le> k" "k \<le> 258" "k \<le> length str"
    by (rule io_ReadAtLeast_delivers [of 10 258 s]) (use assms(1,2) in \<open>auto simp: str_def\<close>)
  have hd: "zbuf 258 (take k str) ! 0 = Version" "zbuf 258 (take k str) ! 3 = ATypeDomainName"
    "zbuf 258 (take k str) ! 4 = str ! 4"
    using k assms(3,4) by (simp_all add: str_def Version_def)
  have "258 < 6 + (unat (str ! 4) + 1)" "length (take k str) < 6 + (unat (str ! 4) + 1)"
    using assms(5) k by (simp_all add: str_def)
  then show ?thesis
    unfolding processRequest_def Let_def io_bind_run(1) [where m = "io_ReadAtLeast 258 10" and s = s, OF k(1)] hd
    by (simp add: atyp_defs)
qed

theorem socks5_long_domain_panics_witness:
  "\<exists>s'. processRequest (\<lambda>_. Fail EOF) '''' [] (client_session [[5, 1, 0, 3, 253] @ replicate 9 0x61]) = Some (Panic, s')"
  by (rule socks5_long_domain_panics) (simp_all add: client_session_def nth_append atyp_defs)

end
