(* ===== verification/Http.thy ===== *)
theory Http
  imports Proxy_Interface
begin

text \<open>
  \<^verbatim>\<open>internal/http\<close>: the HTTP front end (\<^verbatim>\<open>tcp.go\<close>).
\<close>

definition ProxyAuthorization :: string where
  "ProxyAuthorization = ''Proxy-Authorization: Basic ''"

definition HTTPCONNECT_method :: string where
  "HTTPCONNECT_method = ''CONNECT''"

definition CRLF :: string where
  "CRLF = [CHR 0x0D, CHR 0x0A]"

section \<open>The operations\<close>

text \<open>The number of bytes read is dropped: the string is the whole buffer, with its zeros.\<close>

definition readString :: "string \<Rightarrow> (string list, session) io" where
  "readString delim =
     io_bind (io_catch (io_ReadAtLeast 4096 1) (\<lambda>e. if e \<noteq> EOF then io_fail e else io_ret [])) (\<lambda>got.
     io_ret (strings_Split (string_of (zbuf 4096 got)) delim))"

text \<open>One round of the loop over the header lines: the last well-formed credentials win.\<close>

definition credentials_step :: "string \<Rightarrow> string \<times> string \<Rightarrow> string \<times> string" where
  "credentials_step line up =
     (if HasPrefix line ProxyAuthorization then
        (case base64_Decode (TrimPrefix line ProxyAuthorization) of
           None \<Rightarrow> up
         | Some bs \<Rightarrow>
             (case IndexByte (string_of bs) CHR '':'' of
                None \<Rightarrow> up
              | Some i \<Rightarrow> (take i (string_of bs), drop (i + 1) (string_of bs))))
      else up)"

definition http_handshake :: "Config \<Rightarrow> string list \<Rightarrow> (unit, session) io" where
  "http_handshake cfg lines s =
     (let (user, pass) = fold credentials_step lines ('''', '''')
      in if auth_Enable cfg \<and> \<not> Verify cfg user pass (raddr s)
         then io_bind (io_skip (conn_Write [0x00, 0xff])) (\<lambda>_. io_fail (ErrNew ''authentication failed'')) s
         else io_ret () s)"

definition send_http :: "uuid \<Rightarrow> ctype \<Rightarrow> PreFn \<Rightarrow> string \<Rightarrow> 16 word \<Rightarrow> string \<Rightarrow> (unit, session) io" where
  "send_http uid t pre addr port line s =
     send_ctx \<lparr>
       Metadata = \<lparr>ID = uid, NetWork = TCP, Type = t, Src = IP_of (raddr s),
         Dest = IP_of (addr @ '':'' @ FormatUint (unat port))\<rparr>,
       Line = line, PreFn = pre, PostFn = WgDone\<rparr> s"

definition handleHTTPConnectMethod :: "uuid \<Rightarrow> string \<Rightarrow> 16 word \<Rightarrow> (unit, session) io" where
  "handleHTTPConnectMethod uid addr port = send_http uid HTTPCONNECT WriteProxyHeader addr port ''''"

definition handleHTTPProxy :: "uuid \<Rightarrow> string \<Rightarrow> 16 word \<Rightarrow> string \<Rightarrow> (unit, session) io" where
  "handleHTTPProxy uid addr port line = send_http uid HTTP NoPreFn addr port line"

text \<open>The header lines that go to the target.\<close>

definition forwarded_header :: "string list \<Rightarrow> string" where
  "forwarded_header lines =
     concat (map (\<lambda>line. TrimPrefix line ''Proxy-'' @ CRLF) (filter (\<lambda>line. \<not> HasPrefix line ProxyAuthorization) lines))"

definition http_processRequest :: "uuid \<Rightarrow> string list \<Rightarrow> (unit, session) io" where
  "http_processRequest uid lines =
     (let requestLine = strings_Split (lines ! 0) '' ''
      in if length requestLine < 3 then io_fail (ErrNew ''request line error'')
         else
           let mthd = requestLine ! 0; requestTarget = requestLine ! 1; version = requestLine ! 2
           in if mthd = HTTPCONNECT_method then
                let shp = strings_Split requestTarget '':''
                in if length shp < 2 then io_panic
                   else handleHTTPConnectMethod uid (shp ! 0) (of_int (fst (ParseInt (shp ! 1))))
              else
                let from = (case strings_Index requestTarget ''//'' of Some si \<Rightarrow> si + 2 | None \<Rightarrow> 1)
                in if length requestTarget < from then io_panic
                   else
                     let restUrl = drop from requestTarget
                     in if restUrl = '''' then
                          io_bind (io_skip (conn_Write (bytes_of (''HTTP/1.0 404 Not Found'' @ CRLF @ CRLF))))
                            (\<lambda>_. io_fail (ErrNew ''HTTP/1.0 404 Not Found''))
                        else
                          let (hostPort, url) = (case strings_Index restUrl ''/'' of
                                  Some ei \<Rightarrow> (take ei restUrl, drop ei restUrl)
                                | None \<Rightarrow> (restUrl, ''/''));
                              as = strings_Split hostPort '':'';
                              port = (if length as = 2 then fst (ParseInt (as ! 1)) else 80);
                              newline = mthd @ '' '' @ url @ '' '' @ version @ CRLF @ forwarded_header (tl lines)
                          in handleHTTPProxy uid (as ! 0) (of_int port) newline)"

definition http_Handle :: "Config \<Rightarrow> uuid \<Rightarrow> (unit, session) io" where
  "http_Handle cfg uid =
     io_bind (readString CRLF) (\<lambda>lines.
     if length lines < 2 then io_fail (ErrNew ''request line error'')
     else io_bind (http_handshake cfg lines) (\<lambda>_. http_processRequest uid lines))"

text \<open>\<^verbatim>\<open>httpWriteProxyHeader\<close>, the \<^verbatim>\<open>PreFn\<close> of CONNECT: four writes, none after a failing one; the date is
  that of the call.\<close>

definition httpWriteProxyHeader :: "string \<Rightarrow> (unit, 'z conn_scheme) io" where
  "httpWriteProxyHeader date =
     io_skip (io_bind (conn_Write (bytes_of (''HTTP/1.1 200 OK Connection Established'' @ CRLF))) (\<lambda>_.
              io_bind (conn_Write (bytes_of (''Date: '' @ date @ CRLF))) (\<lambda>_.
              io_bind (conn_Write (bytes_of (''Transfer-Encoding: chunked'' @ CRLF))) (\<lambda>_.
              conn_Write (bytes_of CRLF)))))"

section \<open>The contract of the interface\<close>

lemma readString_keeps: "keeps (rest_is q w a) (readString delim)"
  unfolding readString_def
  by (rule triple_bind [where R = "\<lambda>_. rest_is q w a"] triple_catch [where R = "rest_is q w a"] triple_if triples | simp)+

lemma http_handshake_triple:
  "triple (rest_is q w a) (http_handshake cfg lines) (\<lambda>_ s. rest_is q w a s \<and> authorised cfg a) (rest_is q w a)"
  by (auto simp: triple_def http_handshake_def rest_is_def authorised_def written_def io_bind_def
      split: if_splits prod.splits)

lemma send_http_triple:
  "authorised cfg a \<Longrightarrow> t = HTTP \<or> t = HTTPCONNECT \<Longrightarrow>
   triple (rest_is q w a) (send_http uid t pre addr port line) (\<lambda>_. handled {HTTP, HTTPCONNECT} cfg uid q w a) (rest_is q w a)"
  by (auto simp: triple_def send_http_def send_ctx_def handled_def rest_is_def ctx_for_def)

lemma http_processRequest_triple:
  assumes "authorised cfg a"
  shows "triple (rest_is q w a) (http_processRequest uid lines) (\<lambda>_. handled {HTTP, HTTPCONNECT} cfg uid q w a) (rest_is q w a)"
  unfolding http_processRequest_def Let_def handleHTTPConnectMethod_def handleHTTPProxy_def
  by (auto simp: split_beta intro!: triple_if triples triple_bind [where R = "\<lambda>_. rest_is q w a"] send_http_triple assms)

interpretation ht: proxy_handler "\<lambda>cfg uid. http_Handle cfg uid" "{HTTP, HTTPCONNECT}"
proof
  show "triple (rest_is q w a) (http_Handle cfg uid) (\<lambda>_. handled {HTTP, HTTPCONNECT} cfg uid q w a) (rest_is q w a)" for q w a cfg uid
    unfolding http_Handle_def
    by (rule triple_bind [OF readString_keeps] triple_if Handle_contract_bind [OF http_handshake_triple]
        http_processRequest_triple triples | simp)+
qed

section \<open>Requests\<close>

lemma hd_CRLF [simp]: "CRLF \<noteq> []" "hd CRLF = CHR 0x0D" "length CRLF = 2"
  by (simp_all add: CRLF_def)

abbreviation zeros :: "nat \<Rightarrow> string" where
  "zeros n \<equiv> replicate n (CHR 0x00)"

lemma readString_segment:
  assumes "inp s = bytes_of req # rest" and "req \<noteq> ''''" and "length req \<le> 4096" and "\<not> closed s"
  shows "readString CRLF s = Some (Ret (strings_Split (req @ zeros (4096 - length req)) CRLF), s\<lparr>inp := rest\<rparr>)"
proof -
  have "io_ReadAtLeast 4096 1 s = Some (Ret (bytes_of req), s\<lparr>inp := rest\<rparr>)"
    using assms by (intro ReadAtLeast_segment) (simp_all add: Suc_le_eq)
  then have got: "io_catch (io_ReadAtLeast 4096 1) h s = Some (Ret (bytes_of req), s\<lparr>inp := rest\<rparr>)" for h
    by (simp add: io_catch_def)
  have "string_of (xs @ ys) = string_of xs @ string_of ys" for xs ys
    by (simp add: string_of_def)
  moreover have "string_of (replicate n 0) = zeros n" for n
    by (simp add: string_of_def char_of_def)
  ultimately have "string_of (zbuf 4096 (bytes_of req)) = req @ zeros (4096 - length req)"
    by (simp add: zbuf_def)
  then show ?thesis
    unfolding readString_def io_bind_run(1) [where m = "io_catch _ _" and s = s, OF got] by simp
qed

lemma http_handshake_open: "\<not> auth_Enable cfg \<Longrightarrow> http_handshake cfg lines s = Some (Ret (), s)"
  by (simp add: http_handshake_def split: prod.splits)

text \<open>A first line of three words.\<close>

definition request_line :: "string \<Rightarrow> string \<Rightarrow> string \<Rightarrow> string" where
  "request_line mthd target version = mthd @ '' '' @ target @ '' '' @ version"

lemma split_request_line:
  assumes "CHR '' '' \<notin> set mthd" "CHR '' '' \<notin> set target" "CHR '' '' \<notin> set version"
  shows "strings_Split (request_line mthd target version) '' '' = [mthd, target, version]"
  using assms strings_Split_sep [of "'' ''" mthd "target @ '' '' @ version"]
    strings_Split_sep [of "'' ''" target version] strings_Split_none [of "'' ''" version]
  by (simp add: request_line_def)

lemma http_Handle_runs:
  assumes "\<not> auth_Enable cfg" and "\<not> closed s" and "inp s = bytes_of (l @ CRLF @ tail) # rest"
    and "length (l @ CRLF @ tail) \<le> 4096" and "CHR 0x0D \<notin> set l"
  shows "http_Handle cfg uid s =
    http_processRequest uid (l # strings_Split (tail @ zeros (4096 - length (l @ CRLF @ tail))) CRLF) (s\<lparr>inp := rest\<rparr>)"
proof -
  let ?z = "zeros (4096 - length (l @ CRLF @ tail))"
  have ls: "strings_Split ((l @ CRLF @ tail) @ ?z) CRLF = l # strings_Split (tail @ ?z) CRLF"
    using strings_Split_sep [of CRLF l "tail @ ?z"] assms(5) by simp
  have rd: "readString CRLF s = Some (Ret (l # strings_Split (tail @ ?z) CRLF), s\<lparr>inp := rest\<rparr>)"
    using readString_segment [OF assms(3) _ assms(4,2)] ls by simp
  have ne: "\<not> length (l # strings_Split (tail @ ?z) CRLF) < 2"
  proof -
    have "Split sep cur x \<noteq> []" for sep cur x
      by (induction sep cur x rule: Split.induct) auto
    then show ?thesis
      by (simp add: strings_Split_def Suc_le_eq not_less)
  qed
  show ?thesis
    unfolding http_Handle_def io_bind_run(1) [where m = "readString CRLF" and s = s, OF rd]
    using ne http_handshake_open [OF assms(1)] by simp
qed

lemma of_int_port: "p < 65536 \<Longrightarrow> unat (of_int (int p) :: 16 word) = p"
  by (simp add: unat_of_nat_small)

lemma IP_of_plain:
  assumes "CHR '':'' \<notin> set host" "CHR ''['' \<notin> set host" "CHR '']'' \<notin> set host" and "p < 65536"
  shows "IP_of (host @ '':'' @ FormatUint p) = \<lparr>Addr = host, Port = int p\<rparr>"
  using IP_of_Join [of host p] assms by (simp add: net_JoinHostPort_def)




lemma strings_Index_single: "c \<notin> set x \<Longrightarrow> strings_Index (x @ c # y) [c] = Some (length x)"
  by (induction x) (auto simp: HasPrefix_def)

lemma forwarded_header_app: "forwarded_header (xs @ ys) = forwarded_header xs @ forwarded_header ys"
  by (simp add: forwarded_header_def)

lemma HasPrefix_zeros: "\<not> HasPrefix (zeros n) (CHR ''P'' # p)"
  by (cases n) (auto simp: HasPrefix_def)

lemma forwarded_header_end: "forwarded_header ['''', zeros n] = CRLF @ zeros n @ CRLF"
  by (simp add: forwarded_header_def ProxyAuthorization_def TrimPrefix_def HasPrefix_zeros)
    (simp add: HasPrefix_def)



text \<open>Two malformed requests make the front end panic, and with it the process: a CONNECT whose target
  has no colon, and any other method with an empty target (two spaces in a row).\<close>

theorem http_malformed_panics:
  assumes "\<not> auth_Enable cfg" and "\<not> closed s"
    and "inp s = bytes_of (request_line mthd target version @ CRLF @ tail) # rest"
    and "length (request_line mthd target version @ CRLF @ tail) \<le> 4096"
    and "\<forall>x \<in> {mthd, target, version}. CHR '' '' \<notin> set x \<and> CHR 0x0D \<notin> set x"
    and "mthd = ''CONNECT'' \<and> CHR '':'' \<notin> set target \<or> mthd \<noteq> ''CONNECT'' \<and> target = ''''"
  shows "http_Handle cfg uid s = Some (Panic, s\<lparr>inp := rest\<rparr>)"
proof -
  have line: "CHR 0x0D \<notin> set (request_line mthd target version)"
    using assms(5) by (simp add: request_line_def)
  have sp: "strings_Split (request_line mthd target version) '' '' = [mthd, target, version]"
    using assms(5) by (intro split_request_line) simp_all
  have shp: "CHR '':'' \<notin> set target \<Longrightarrow> strings_Split target '':'' = [target]"
    by (rule strings_Split_none) simp_all
  show ?thesis
    unfolding http_Handle_runs [OF assms(1-4) line] http_processRequest_def Let_def nth_Cons_0 sp
    using assms(6) shp by (auto simp: HTTPCONNECT_method_def)
qed

theorem http_malformed_panics_witness:
  "\<exists>s'. http_Handle initial_Config [] (client_session [bytes_of (request_line ''GET'' '''' ''HTTP/1.1'' @ CRLF @ CRLF)]) =
     Some (Panic, s')"
  using http_malformed_panics [of initial_Config
      "client_session [bytes_of (request_line ''GET'' '''' ''HTTP/1.1'' @ CRLF @ CRLF)]" "''GET''" "''''" "''HTTP/1.1''" CRLF "[]" "[]"]
  by (simp add: client_session_def auth_Enable_def initial_Config_def request_line_def)

end
