(* ===== verification/Mixed.thy ===== *)
theory Mixed
  imports Socks4 Socks5 Http
begin

text \<open>
  \<^verbatim>\<open>internal/mixed\<close>: the listener that serves SOCKS4, SOCKS5 and HTTP on one port (\<^verbatim>\<open>mixed.go\<close>,
  \<^verbatim>\<open>interface.go\<close>), and \<^verbatim>\<open>BufferedConn.Peek\<close> (\<^verbatim>\<open>internal/net/bufconn.go\<close>), by which it looks at the
  first byte.
\<close>

section \<open>Peeking\<close>

text \<open>\<^verbatim>\<open>Peek(1)\<close> reads the socket until a byte is buffered; nothing is consumed.\<close>

definition buf_Peek1 :: "(byte, 'z conn_scheme) io" where
  "buf_Peek1 c =
     (if closed c then Some (Fail errClosed, c)
      else (case dropWhile (\<lambda>seg. seg = []) (inp c) of
              [] \<Rightarrow> (case rend c of
                       AtEOF \<Rightarrow> Some (Fail EOF, c\<lparr>inp := []\<rparr>)
                     | AtErr e \<Rightarrow> Some (Fail (NetErr e), c\<lparr>inp := []\<rparr>)
                     | Silent \<Rightarrow> None)
            | seg # rest \<Rightarrow> Some (Ret (hd seg), c\<lparr>inp := seg # rest\<rparr>)))"

section \<open>Connections\<close>

datatype proxy = newSocks4 | newSocks5 string | newHttp

definition proxy_Handle ::
    "Config \<Rightarrow> (string \<Rightarrow> IP_bytes res) \<Rightarrow> proxy \<Rightarrow> uuid \<Rightarrow> (unit, session) io" where
  "proxy_Handle cfg resolve p uid =
     (case p of
        newSocks4 \<Rightarrow> socks4_Handle cfg uid
      | newSocks5 udpAddr \<Rightarrow> socks5_Handle cfg resolve udpAddr uid
      | newHttp \<Rightarrow> http_Handle cfg uid)"

definition choose_proxy :: "string \<Rightarrow> byte \<Rightarrow> proxy" where
  "choose_proxy udpAddr head =
     (if head = socks4_Version then newSocks4 else if head = Version then newSocks5 udpAddr else newHttp)"

text \<open>\<^verbatim>\<open>(*Listener).handle\<close>: every error closes the connection and ends the goroutine.\<close>

definition mixed_handle :: "Config \<Rightarrow> (string \<Rightarrow> IP_bytes res) \<Rightarrow> string \<Rightarrow> uuid \<Rightarrow> (unit, session) io" where
  "mixed_handle cfg resolve udpAddr uid =
     io_catch
       (io_bind buf_Peek1 (\<lambda>head. proxy_Handle cfg resolve (choose_proxy udpAddr head) uid))
       (\<lambda>_. conn_Close)"

text \<open>What \<^verbatim>\<open>ListenAndServe\<close> does with an accepted connection.\<close>

definition mixed_serve :: "Config \<Rightarrow> (string \<Rightarrow> IP_bytes res) \<Rightarrow> string \<Rightarrow> uuid \<Rightarrow> (unit, session) io" where
  "mixed_serve cfg resolve udpAddr uid s =
     (if \<not> VerifyIP cfg (raddr s) then conn_Close s
      else io_bind (wg_Add 1) (\<lambda>_. mixed_handle cfg resolve udpAddr uid) s)"

section \<open>The listener\<close>

text \<open>A socket of the listener: \<open>NilPtr\<close> is the nil pointer that a failing \<^verbatim>\<open>net.ListenTCP\<close> leaves in the
  field, which as an interface value differs from nil.\<close>

datatype sock = Open | Closed | NilPtr

record Listener =
  tcp :: "sock option"
  udp :: "sock option"

definition mixed_New :: Listener where
  "mixed_New = \<lparr>tcp = None, udp = None\<rparr>"

definition RawAddress :: "Config \<Rightarrow> string" where
  "RawAddress cfg = Host (Local cfg) @ '':'' @ FormatInt (srv_Port (Local cfg))"

definition sock_Close :: "sock \<Rightarrow> sock" where
  "sock_Close k = (if k = NilPtr then NilPtr else Closed)"

definition mixed_close :: "Listener \<Rightarrow> Listener" where
  "mixed_close l =
     (case (tcp l, udp l) of
        (Some t, Some u) \<Rightarrow> l\<lparr>tcp := Some (sock_Close t), udp := Some (sock_Close u)\<rparr>
      | (Some t, None) \<Rightarrow> l\<lparr>tcp := Some (sock_Close t)\<rparr>
      | (None, Some u) \<Rightarrow> l\<lparr>udp := Some (sock_Close u)\<rparr>
      | (None, None) \<Rightarrow> l)"

definition mixed_State :: "Listener \<Rightarrow> bool" where
  "mixed_State l \<longleftrightarrow> tcp l \<noteq> None \<and> udp l \<noteq> None"

text \<open>\<^verbatim>\<open>ShutdownWithTimeout\<close>: \<open>idle_at\<close> is the time after the call at which the wait group's counter is
  zero, \<open>None\<close> if it never is. When both channels are ready \<^verbatim>\<open>select\<close> picks one, as \<open>pick\<close> says.\<close>

definition DeadlineExceeded :: goerr where
  "DeadlineExceeded = ErrNew ''context deadline exceeded''"

definition ShutdownWithTimeout ::
    "int \<Rightarrow> int option \<Rightarrow> bool \<Rightarrow> Listener \<Rightarrow> unit res \<times> Listener" where
  "ShutdownWithTimeout timeout idle_at pick l =
     (let l = mixed_close l;
          idle_first = (case idle_at of
              None \<Rightarrow> False
            | Some t \<Rightarrow> t < timeout \<or> t \<le> max 0 timeout \<and> pick)
      in (if idle_first then Ret () else Fail DeadlineExceeded, l\<lparr>tcp := None, udp := None\<rparr>))"

definition Shutdown :: "int option \<Rightarrow> bool \<Rightarrow> Listener \<Rightarrow> unit res \<times> Listener" where
  "Shutdown = ShutdownWithTimeout 0"

text \<open>The set-up of \<^verbatim>\<open>ListenAndServe\<close>, given what the library calls return.\<close>

definition mixed_listen ::
    "'a res \<Rightarrow> unit res \<Rightarrow> 'b res \<Rightarrow> unit res \<Rightarrow> Listener \<Rightarrow> unit res \<times> Listener" where
  "mixed_listen ResolveTCPAddr ListenTCP ResolveUDPAddr ListenUDP l =
     (case ResolveTCPAddr of
        Ret _ \<Rightarrow>
          (case ListenTCP of
             Ret _ \<Rightarrow>
               (case ResolveUDPAddr of
                  Ret _ \<Rightarrow>
                    (case ListenUDP of
                       Ret _ \<Rightarrow> (Ret (), l\<lparr>tcp := Some Open, udp := Some Open\<rparr>)
                     | Fail e \<Rightarrow> (Fail e, l\<lparr>tcp := Some Open, udp := None\<rparr>)
                     | Panic \<Rightarrow> (Panic, l\<lparr>tcp := Some Open\<rparr>))
                | Fail e \<Rightarrow> (Fail e, l\<lparr>tcp := Some Open\<rparr>)
                | Panic \<Rightarrow> (Panic, l\<lparr>tcp := Some Open\<rparr>))
           | Fail e \<Rightarrow> (Fail e, l\<lparr>tcp := Some NilPtr\<rparr>)
           | Panic \<Rightarrow> (Panic, l))
      | Fail e \<Rightarrow> (Fail e, l)
      | Panic \<Rightarrow> (Panic, l))"

section \<open>Access control and accounting\<close>

lemma buf_Peek1_keeps: "stable I \<Longrightarrow> keeps I buf_Peek1"
  by (auto simp: triple_def buf_Peek1_def stable_def split: if_splits list.splits rd_end.splits)

definition proxy_types :: "proxy \<Rightarrow> ctype set" where
  "proxy_types p = (case p of newSocks4 \<Rightarrow> {SOCKS4} | newSocks5 _ \<Rightarrow> {SOCKS5} | newHttp \<Rightarrow> {HTTP, HTTPCONNECT})"

text \<open>The front end behind the interface satisfies the contract, whichever it is.\<close>

interpretation px: proxy_handler "\<lambda>cfg uid. proxy_Handle cfg resolve p uid" "proxy_types p" for resolve p
proof (cases p)
  case newSocks4
  then show "proxy_handler (\<lambda>cfg uid. proxy_Handle cfg resolve p uid) (proxy_types p)"
    using s4.proxy_handler_axioms by (simp add: proxy_Handle_def proxy_types_def)
next
  case (newSocks5 u)
  then show "proxy_handler (\<lambda>cfg uid. proxy_Handle cfg resolve p uid) (proxy_types p)"
    using s5.proxy_handler_axioms [of resolve u] by (simp add: proxy_Handle_def proxy_types_def)
next
  case newHttp
  then show "proxy_handler (\<lambda>cfg uid. proxy_Handle cfg resolve p uid) (proxy_types p)"
    using ht.proxy_handler_axioms by (simp add: proxy_Handle_def proxy_types_def)
qed

text \<open>The first byte of the client's stream.\<close>

definition first_byte :: "'z conn_scheme \<Rightarrow> byte" where
  "first_byte c = hd (stream c)"

lemma dropWhile_stream: "dropWhile (\<lambda>seg. seg = []) xs = seg # rest \<Longrightarrow> concat xs = seg @ concat rest \<and> seg \<noteq> []"
  by (induction xs) (auto split: if_splits)

lemma mixed_handle_run:
  assumes "mixed_handle cfg resolve udpAddr uid s = Some (r, s')"
  shows "(r = Ret () \<and> closed s' \<and> tcpIn s' = tcpIn s \<and> wg s' = wg s) \<or>
    (\<exists>s0. proxy_Handle cfg resolve (choose_proxy udpAddr (first_byte s)) uid s0 = Some (r, s') \<and>
       tcpIn s0 = tcpIn s \<and> wg s0 = wg s \<and> raddr s0 = raddr s)"
proof (cases "buf_Peek1 s")
  case None
  then show ?thesis
    using assms by (simp add: mixed_handle_def io_catch_def)
next
  case (Some ps)
  obtain pr s0 where ps: "buf_Peek1 s = Some (pr, s0)"
    using Some by (cases ps) auto
  have same: "tcpIn s0 = tcpIn s" "wg s0 = wg s" "raddr s0 = raddr s" "pr \<noteq> Panic"
    using ps by (auto simp: buf_Peek1_def split: if_splits list.splits rd_end.splits)
  show ?thesis
  proof (cases pr)
    case (Ret b)
    then have "b = first_byte s"
      using ps by (auto simp: buf_Peek1_def first_byte_def split: if_splits list.splits rd_end.splits
          dest: dropWhile_stream)
    let ?p = "choose_proxy udpAddr (first_byte s)"
    show ?thesis
    proof (cases "proxy_Handle cfg resolve ?p uid s0")
      case (Some rs)
      obtain hr s1 where rs: "proxy_Handle cfg resolve ?p uid s0 = Some (hr, s1)"
        using Some by (cases rs) auto
      have "\<exists>e. hr = Fail e \<Longrightarrow> tcpIn s1 = tcpIn s \<and> wg s1 = wg s"
        using px.Handle_error [OF rs] same by auto
      then show ?thesis
        using assms ps Ret rs same \<open>b = first_byte s\<close>
        by (cases hr) (auto simp: mixed_handle_def io_catch_def conn_Close_def)
    qed (use assms ps Ret \<open>b = first_byte s\<close> in \<open>simp add: mixed_handle_def io_catch_def\<close>)
  qed (use assms ps same in \<open>auto simp: mixed_handle_def io_catch_def conn_Close_def\<close>)
qed

lemma mixed_serve_run:
  assumes "mixed_serve cfg resolve udpAddr uid s = Some (r, s')" and "VerifyIP cfg (raddr s)" and "0 \<le> wg s"
  shows "mixed_handle cfg resolve udpAddr uid (s\<lparr>wg := wg s + 1\<rparr>) = Some (r, s')"
  using assms by (simp add: mixed_serve_def wg_Add_def io_bind_def)



text \<open>A connection that ends in an error keeps the wait group from ever reaching zero: it was counted
  when it was accepted, it is closed, no context with a \<^verbatim>\<open>PostFn\<close> was queued, and the count is not taken
  back, so that a later shutdown has to wait for its whole timeout.\<close>

theorem mixed_error_leaks_wait_group:
  assumes "mixed_serve cfg resolve udpAddr uid s = Some (r, s')" and "VerifyIP cfg (raddr s)" and "0 \<le> wg s"
    and "tcpIn s' = tcpIn s"
  shows "wg s' = wg s + 1"
proof -
  consider "wg s' = wg s + 1" | s0 where
    "proxy_Handle cfg resolve (choose_proxy udpAddr (first_byte (s\<lparr>wg := wg s + 1\<rparr>))) uid s0 = Some (r, s')"
    "wg s0 = wg s + 1"
    using mixed_handle_run [OF mixed_serve_run [OF assms(1-3)]] by auto
  then show ?thesis
    by cases (use px.Handle_wg in \<open>auto\<close>)
qed

theorem mixed_error_leaks_wait_group_witness:
  "\<exists>s'. mixed_serve initial_Config (\<lambda>_. Fail EOF) '''' [] ((client_session [])\<lparr>rend := AtEOF\<rparr>) = Some (Ret (), s') \<and>
     closed s' \<and> wg s' = 2"
proof -
  let ?s = "(client_session [])\<lparr>rend := AtEOF\<rparr>"
  have ip: "VerifyIP initial_Config (raddr ?s)"
    by (simp add: VerifyIP_def initial_Config_def)
  have run: "mixed_serve initial_Config (\<lambda>_. Fail EOF) '''' [] ?s = Some (Ret (), ?s\<lparr>wg := 2, closed := True\<rparr>)"
    using ip by (simp add: mixed_serve_def wg_Add_def mixed_handle_def io_catch_def io_bind_def buf_Peek1_def
        client_session_def conn_Close_def)
  show ?thesis
    using mixed_error_leaks_wait_group [OF run ip] run by (simp add: client_session_def)
qed

section \<open>A SOCKS5 connection\<close>

lemma mixed_serve_connect:
  assumes "VerifyIP cfg (raddr s)" and "0 \<le> wg s" and "\<not> auth_Enable cfg" and "\<not> closed s"
    and "inp s = s5_greeting ms # rs @ ds" and "length ms \<le> 255"
    and "concat rs = s5_request cmd a port" and "s5_ok a" and "cmd = CmdConnect \<or> cmd = CmdBind"
    and "\<forall>d. a = DomainName d \<longrightarrow> CHR ''['' \<notin> set (string_of d) \<and> CHR '']'' \<notin> set (string_of d)"
  shows "\<exists>s'. mixed_serve cfg resolve udpAddr uid s = Some (Ret (), s') \<and> stream s' = concat ds \<and> closed s' = closed s \<and>
    wg s' = wg s + 1 \<and> tcpIn s' = tcpIn s @ [
      \<lparr>Metadata = \<lparr>ID = uid, NetWork = TCP, Type = SOCKS5, Src = IP_of (raddr s),
         Dest = \<lparr>Addr = s5_host a, Port = int (unat port)\<rparr>\<rparr>,
       Line = '''', PreFn = WriteReply [0x05, 0x00, 0x00, 0x01, 0x00, 0x00, 0x00, 0x00, 0x01, 0x01],
       PostFn = WgDone\<rparr>]"
proof -
  let ?w = "s\<lparr>wg := wg s + 1\<rparr>"
  have peek: "buf_Peek1 ?w = Some (Ret Version, ?w)"
    using assms(4,5) by (simp add: buf_Peek1_def s5_greeting_def Version_def)
  have proxy: "choose_proxy udpAddr Version = newSocks5 udpAddr"
    by (simp add: choose_proxy_def Version_def socks4_Version_def)
  have w: "\<not> closed ?w" "inp ?w = s5_greeting ms # rs @ ds"
    using assms(4,5) by simp_all
  obtain q where q: "concat q = concat ds" and run: "socks5_Handle cfg resolve udpAddr uid ?w =
      Some (Ret (), (written [0x05, 0x00] ?w)\<lparr>inp := q, tcpIn := tcpIn ?w @ [
      \<lparr>Metadata = \<lparr>ID = uid, NetWork = TCP, Type = SOCKS5, Src = IP_of (raddr ?w),
         Dest = \<lparr>Addr = s5_host a, Port = int (unat port)\<rparr>\<rparr>,
       Line = '''', PreFn = WriteReply [0x05, 0x00, 0x00, 0x01, 0x00, 0x00, 0x00, 0x00, 0x01, 0x01],
       PostFn = WgDone\<rparr>]\<rparr>)"
    using socks5_connect_rest [OF assms(3) w assms(6) refl assms(7-10), of resolve udpAddr uid] by auto
  have "mixed_serve cfg resolve udpAddr uid s = socks5_Handle cfg resolve udpAddr uid ?w"
    using assms(1,2) peek proxy run
    by (simp add: mixed_serve_def wg_Add_def mixed_handle_def io_catch_def io_bind_def proxy_Handle_def)
  then show ?thesis
    using q run by (auto simp: written_def)
qed

end
