(* ===== verification/Go_Slices.thy ===== *)
theory Go_Slices
  imports Prelude
begin

text \<open>
  Byte slices over an explicit store. An array is a list of bytes at an address (its index in the
  store); a slice is a window of an array: an offset, a length and a capacity. Two slices that share
  an array alias each other, which is how \<^verbatim>\<open>append\<close> within the capacity and in-place loops of the
  code become visible to the caller.
\<close>

type_synonym store = "bytes list"

record slice =
  saddr :: nat
  soff :: nat
  slen :: nat
  scap :: nat

definition valid_slice :: "store \<Rightarrow> slice \<Rightarrow> bool" where
  "valid_slice st s \<longleftrightarrow>
     saddr s < length st \<and> slen s \<le> scap s \<and> soff s + scap s \<le> length (st ! saddr s)"

definition slice_bytes :: "store \<Rightarrow> slice \<Rightarrow> bytes" where
  "slice_bytes st s = take (slen s) (drop (soff s) (st ! saddr s))"

definition slice_get :: "store \<Rightarrow> slice \<Rightarrow> nat \<Rightarrow> byte" where
  "slice_get st s i = (st ! saddr s) ! (soff s + i)"

definition slice_set :: "store \<Rightarrow> slice \<Rightarrow> nat \<Rightarrow> byte \<Rightarrow> store" where
  "slice_set st s i b = st[saddr s := (st ! saddr s)[soff s + i := b]]"

definition subslice :: "slice \<Rightarrow> nat \<Rightarrow> nat \<Rightarrow> slice" where
  "subslice s i j = s\<lparr>soff := soff s + i, slen := j - i, scap := scap s - i\<rparr>"

definition new_slice :: "store \<Rightarrow> bytes \<Rightarrow> store \<times> slice" where
  "new_slice st bs =
     (st @ [bs], \<lparr>saddr = length st, soff = 0, slen = length bs, scap = length bs\<rparr>)"

definition overlay :: "'a list \<Rightarrow> nat \<Rightarrow> 'a list \<Rightarrow> 'a list" where
  "overlay xs i ys = take i xs @ ys @ drop (i + length ys) xs"

definition slice_append :: "store \<Rightarrow> slice \<Rightarrow> bytes \<Rightarrow> store \<times> slice" where
  "slice_append st s bs =
     (if slen s + length bs \<le> scap s
      then (st[saddr s := overlay (st ! saddr s) (soff s + slen s) bs],
            s\<lparr>slen := slen s + length bs\<rparr>)
      else new_slice st (slice_bytes st s @ bs))"

section \<open>Reading and writing through a slice\<close>

lemma length_overlay [simp]: "i + length ys \<le> length xs \<Longrightarrow> length (overlay xs i ys) = length xs"
  by (simp add: overlay_def)

lemma nth_overlay:
  "i + length ys \<le> length xs \<Longrightarrow> k < length xs \<Longrightarrow>
   overlay xs i ys ! k = (if i \<le> k \<and> k < i + length ys then ys ! (k - i) else xs ! k)"
  by (auto simp: overlay_def nth_append min_def)

lemma overlay_Nil [simp]: "overlay xs i [] = xs"
  by (simp add: overlay_def)

lemma overlay_all: "length ys = length xs \<Longrightarrow> overlay xs 0 ys = ys"
  by (simp add: overlay_def)

lemma overlay_append:
  assumes "i + length ys + length zs \<le> length xs"
  shows "overlay (overlay xs i ys) (i + length ys) zs = overlay xs i (ys @ zs)"
  using assms by (intro nth_equalityI) (auto simp: nth_overlay nth_append)

lemma overlay_snoc:
  assumes "i + length ys < length xs"
  shows "(overlay xs i ys)[i + length ys := z] = overlay xs i (ys @ [z])"
  using assms by (intro nth_equalityI) (auto simp: nth_overlay nth_append nth_list_update)

lemma overlay_overwrite:
  "length ys = length zs \<Longrightarrow> i + length ys \<le> length xs \<Longrightarrow> overlay (overlay xs i ys) i zs = overlay xs i zs"
  by (intro nth_equalityI) (auto simp: nth_overlay)

lemma map_upt_add: "map g [0..<i] @ map (\<lambda>j. g (i + j)) [0..<k] = map g [0..<i + k]"
  by (intro nth_equalityI) (auto simp: nth_append)

text \<open>A counted loop that writes one entry of a window per round fills the window.\<close>

lemma for_range_overlay:
  assumes "off + n \<le> length xs"
    and "\<And>j. j < n \<Longrightarrow> body j (overlay xs off (map h [0..<j])) = (overlay xs off (map h [0..<j]))[off + j := h j]"
  shows "for_range 0 n body xs = overlay xs off (map h [0..<n])"
proof (rule for_range_invariant [where I = "\<lambda>j ys. ys = overlay xs off (map h [0..<j])"])
  fix j ys assume "j < n" and "ys = overlay xs off (map h [0..<j])"
  then show "body j ys = overlay xs off (map h [0..<Suc j])"
    using assms overlay_snoc [of off "map h [0..<j]" xs "h j"] by simp
qed simp_all

lemma length_slice_set [simp]: "length (slice_set st s i b) = length st"
  by (simp add: slice_set_def)

lemma length_array_slice_set [simp]: "length (slice_set st s i b ! a) = length (st ! a)"
  by (cases "saddr s < length st") (auto simp: slice_set_def nth_list_update list_update_beyond)

lemma valid_slice_set [simp]: "valid_slice (slice_set st s i b) t = valid_slice st t"
  by (simp add: valid_slice_def)

lemma length_slice_bytes [simp]: "valid_slice st s \<Longrightarrow> length (slice_bytes st s) = slen s"
  by (auto simp: slice_bytes_def valid_slice_def)

lemma nth_slice_bytes: "valid_slice st s \<Longrightarrow> i < slen s \<Longrightarrow> slice_bytes st s ! i = slice_get st s i"
  by (auto simp: slice_bytes_def slice_get_def valid_slice_def)

lemma slice_bytes_eqI:
  assumes "valid_slice st s" and "length bs = slen s"
    and "\<And>i. i < slen s \<Longrightarrow> slice_get st s i = bs ! i"
  shows "slice_bytes st s = bs"
  using assms by (intro nth_equalityI) (simp_all add: nth_slice_bytes)

lemma slice_get_set:
  assumes "valid_slice st s" and "i < slen s" and "j < slen s"
  shows "slice_get (slice_set st s i b) s j = (if i = j then b else slice_get st s j)"
  using assms by (auto simp: slice_get_def slice_set_def valid_slice_def nth_list_update)

lemma slice_set_other_array: "a \<noteq> saddr s \<Longrightarrow> slice_set st s i b ! a = st ! a"
  by (simp add: slice_set_def)

lemma slice_set_outside:
  "k \<noteq> soff s + i \<Longrightarrow> saddr s < length st \<Longrightarrow> (slice_set st s i b ! saddr s) ! k = (st ! saddr s) ! k"
  by (simp add: slice_set_def)

lemma slice_get_subslice [simp]: "slice_get st (subslice s i j) k = slice_get st s (i + k)"
  by (simp add: slice_get_def subslice_def add.assoc)

lemma slice_set_subslice [simp]: "slice_set st (subslice s i j) k b = slice_set st s (i + k) b"
  by (simp add: slice_set_def subslice_def add.assoc)

lemma slen_subslice [simp]: "slen (subslice s i j) = j - i"
  by (simp add: subslice_def)

lemma valid_subslice:
  "valid_slice st s \<Longrightarrow> i \<le> j \<Longrightarrow> j \<le> slen s \<Longrightarrow> valid_slice st (subslice s i j)"
  by (auto simp: valid_slice_def subslice_def)

text \<open>The same for a loop that writes through a slice.\<close>

lemma for_range_slice_set:
  assumes "valid_slice st s"
    and "\<And>j st'. j < slen s \<Longrightarrow> valid_slice st' s \<Longrightarrow> slice_get st' s j = slice_get st s j \<Longrightarrow>
           body j st' = slice_set st' s j (h j)"
  shows "for_range 0 (slen s) body st =
           st[saddr s := overlay (st ! saddr s) (soff s) (map h [0..<slen s])]"
proof (rule for_range_invariant
    [where I = "\<lambda>j st'. st' = st[saddr s := overlay (st ! saddr s) (soff s) (map h [0..<j])]"])
  fix j st' assume j: "j < slen s"
    and st': "st' = st[saddr s := overlay (st ! saddr s) (soff s) (map h [0..<j])]"
  have arr: "soff s + slen s \<le> length (st ! saddr s)" and a: "saddr s < length st"
    using assms(1) by (auto simp: valid_slice_def)
  with j st' assms(1) have "valid_slice st' s"
    by (auto simp: valid_slice_def)
  moreover from j st' a arr have "slice_get st' s j = slice_get st s j"
    by (simp add: slice_get_def nth_overlay)
  ultimately have "body j st' = slice_set st' s j (h j)"
    using j assms(2) by simp
  also have "\<dots> = st[saddr s := overlay (st ! saddr s) (soff s) (map h [0..<Suc j])]"
    using j a arr overlay_snoc [of "soff s" "map h [0..<j]" "st ! saddr s" "h j"]
    by (simp add: slice_set_def st')
  finally show "body j st' = st[saddr s := overlay (st ! saddr s) (soff s) (map h [0..<Suc j])]" .
qed simp_all

section \<open>append\<close>

lemma valid_slice_append:
  assumes "valid_slice st s" and "slice_append st s bs = (st', s')"
  shows "valid_slice st' s'" and "slen s' = slen s + length bs"
  using assms
  by (auto simp: slice_append_def new_slice_def valid_slice_def slice_bytes_def nth_list_update
      min_def split: if_splits)

lemma slice_bytes_append:
  assumes "valid_slice st s" and "slice_append st s bs = (st', s')"
  shows "slice_bytes st' s' = slice_bytes st s @ bs"
proof (cases "slen s + length bs \<le> scap s")
  case True
  with assms have st': "st' = st[saddr s := overlay (st ! saddr s) (soff s + slen s) bs]"
    and s': "s' = s\<lparr>slen := slen s + length bs\<rparr>"
    by (auto simp: slice_append_def)
  show ?thesis
  proof (rule slice_bytes_eqI)
    show "valid_slice st' s'" "length (slice_bytes st s @ bs) = slen s'"
      using valid_slice_append [OF assms] assms(1) by simp_all
  next
    fix i assume i: "i < slen s'"
    with assms(1) True show "slice_get st' s' i = (slice_bytes st s @ bs) ! i"
      by (auto simp: slice_get_def st' s' valid_slice_def nth_overlay nth_append slice_bytes_def)
  qed
next
  case False
  with assms have "st' = st @ [slice_bytes st s @ bs]" and "saddr s' = length st" and "soff s' = 0"
    and "slen s' = length (slice_bytes st s @ bs)"
    by (auto simp: slice_append_def new_slice_def)
  then show ?thesis
    unfolding slice_bytes_def [of st' s'] by simp
qed

lemma slice_append_other:
  assumes "slice_append st s bs = (st', s')" and "a < length st" and "a \<noteq> saddr s"
  shows "st' ! a = st ! a"
  using assms by (auto simp: slice_append_def new_slice_def nth_append split: if_splits)


section \<open>Index and slice expressions\<close>

text \<open>An index is checked against the length; the upper bound of \<open>s[i:j]\<close> is checked against the capacity
  only, so that such a slice may show bytes behind the length; \<open>s[i:]\<close> ends at the length.\<close>

definition slice_at :: "store \<Rightarrow> slice \<Rightarrow> nat \<Rightarrow> byte res" where
  "slice_at st s i = (if i < slen s then Ret (slice_get st s i) else Panic)"

definition slice_between :: "slice \<Rightarrow> nat \<Rightarrow> nat \<Rightarrow> slice res" where
  "slice_between s i j = (if i \<le> j \<and> j \<le> scap s then Ret (subslice s i j) else Panic)"

definition slice_from :: "slice \<Rightarrow> nat \<Rightarrow> slice res" where
  "slice_from s i = (if i \<le> slen s then Ret (subslice s i (slen s)) else Panic)"

lemma slice_bytes_subslice:
  assumes "valid_slice st s" and "i \<le> j" and "j \<le> slen s"
  shows "slice_bytes st (subslice s i j) = take (j - i) (drop i (slice_bytes st s))"
  using assms by (simp add: slice_bytes_def subslice_def drop_take min_def add.commute)

text \<open>Appending to a slice leaves the slice itself as it was, for whoever still holds it.\<close>

lemma slice_append_keeps:
  assumes "valid_slice st s" and "slice_append st s bs = (st', s')"
  shows "valid_slice st' s" and "slice_bytes st' s = slice_bytes st s"
proof -
  show "valid_slice st' s"
    using assms by (auto simp: slice_append_def new_slice_def valid_slice_def nth_append split: if_splits)
  then show "slice_bytes st' s = slice_bytes st s"
    using assms
    by (intro slice_bytes_eqI) (auto simp: slice_append_def new_slice_def valid_slice_def slice_get_def nth_append nth_overlay
        slice_bytes_def split: if_splits)
qed

end
