(* ===== verification/Cipher.thy ===== *)
theory Cipher
  imports Go_Slices
begin

text \<open>
  The rotating cipher of \<^verbatim>\<open>internal/cipher/encryption.go\<close>.

  The data slice lives in the store, because \<^verbatim>\<open>complete\<close> appends to it (in place when it has spare
  capacity) and \<^verbatim>\<open>decrypt\<close> rotates it in place; the result is a fresh array, a list. The
  specification is the byte-wise map \<open>rot_enc\<close>/\<open>rot_dec\<close>; the loops are shown to compute it, and what
  they leave behind in the caller's array is stated exactly.
\<close>

section \<open>The code\<close>

record rotate =
  rdata :: slice
  rkey :: bytes
  dL :: nat
  kL :: nat
  pL :: nat

definition byte_shr :: "nat \<Rightarrow> byte \<Rightarrow> byte" where
  "byte_shr shift b = drop_bit shift b OR push_bit (8 - shift) b"

definition byte_shl :: "nat \<Rightarrow> byte \<Rightarrow> byte" where
  "byte_shl shift b = push_bit shift b OR drop_bit (8 - shift) b"

definition key_shift :: "bytes \<Rightarrow> nat \<Rightarrow> nat" where
  "key_shift key i = unat (key ! (i mod length key)) mod 8"

definition complete :: "rotate \<Rightarrow> store \<Rightarrow> (rotate \<times> store) res" where
  "complete r st =
     (if kL r = 0 then Panic
      else if 0 < slen (rdata r) mod kL r
      then (let p = kL r - slen (rdata r) mod kL r;
                (st', padded) = slice_append st (rdata r) (replicate p 0)
            in Ret (r\<lparr>pL := p, rdata := padded, dL := slen padded\<rparr>, st'))
      else Ret (r\<lparr>dL := slen (rdata r)\<rparr>, st))"

text \<open>\<^verbatim>\<open>shiftRight\<close> works on a window \<open>result[i : i + n]\<close> of the result array.\<close>

definition shiftRight :: "bytes \<Rightarrow> nat \<Rightarrow> nat \<Rightarrow> bytes \<Rightarrow> bytes" where
  "shiftRight key off n result =
     for_range 0 n (\<lambda>i xs. xs[off + i := byte_shr (key_shift key i) (xs ! (off + i))]) result"

text \<open>\<^verbatim>\<open>shiftLeft\<close> works on a slice of the data, in place.\<close>

definition shiftLeft :: "bytes \<Rightarrow> slice \<Rightarrow> store \<Rightarrow> store" where
  "shiftLeft key data st =
     for_range 0 (slen data)
       (\<lambda>i st. slice_set st data i (byte_shl (key_shift key i) (slice_get st data i))) st"

definition xor_row :: "rotate \<Rightarrow> store \<Rightarrow> nat \<Rightarrow> bytes \<Rightarrow> bytes" where
  "xor_row r st i result =
     for_range 0 (kL r)
       (\<lambda>j xs. if i + j < dL r
               then xs[i + j := slice_get st (rdata r) (i + j) XOR rkey r ! (j mod kL r)]
               else xs) result"

definition encrypt :: "rotate \<Rightarrow> store \<Rightarrow> (bytes \<times> store) res" where
  "encrypt r0 st0 =
     bind_res (complete r0 st0) (\<lambda>(r, st).
       let result = for_step 0 (dL r) (kL r)
             (\<lambda>i result. shiftRight (rkey r) i (kL r) (xor_row r st i result))
             (replicate (dL r) 0)
       in Ret (take (length result - pL r) result, st))"

definition decrypt :: "rotate \<Rightarrow> store \<Rightarrow> (bytes \<times> store) res" where
  "decrypt r0 st0 =
     bind_res (complete r0 st0) (\<lambda>(r, st).
       let (st', result) = for_step 0 (dL r) (kL r)
             (\<lambda>i (st, result).
                let st = shiftLeft (rkey r) (subslice (rdata r) i (i + kL r)) st
                in (st, xor_row r st i result))
             (st, replicate (dL r) 0)
       in Ret (take (length result - pL r) result, st'))"

definition new_rotate :: "slice \<Rightarrow> bytes \<Rightarrow> rotate" where
  "new_rotate data key = \<lparr>rdata = data, rkey = key, dL = slen data, kL = length key, pL = 0\<rparr>"

definition Encrypt :: "slice \<Rightarrow> bytes \<Rightarrow> store \<Rightarrow> (bytes \<times> store) res" where
  "Encrypt data key = encrypt (new_rotate data key)"

definition Decrypt :: "slice \<Rightarrow> bytes \<Rightarrow> store \<Rightarrow> (bytes \<times> store) res" where
  "Decrypt data key = decrypt (new_rotate data key)"

section \<open>The specification\<close>

definition rot_enc :: "bytes \<Rightarrow> bytes \<Rightarrow> bytes" where
  "rot_enc key xs =
     map (\<lambda>p. byte_shr (key_shift key p) (xs ! p XOR key ! (p mod length key))) [0..<length xs]"

definition rot_dec :: "bytes \<Rightarrow> bytes \<Rightarrow> bytes" where
  "rot_dec key xs =
     map (\<lambda>p. byte_shl (key_shift key p) (xs ! p) XOR key ! (p mod length key)) [0..<length xs]"

lemma length_rot [simp]: "length (rot_enc key xs) = length xs" "length (rot_dec key xs) = length xs"
  by (simp_all add: rot_enc_def rot_dec_def)

lemma nth_rot_enc:
  "p < length xs \<Longrightarrow>
   rot_enc key xs ! p = byte_shr (key_shift key p) (xs ! p XOR key ! (p mod length key))"
  by (simp add: rot_enc_def)

lemma nth_rot_dec:
  "p < length xs \<Longrightarrow>
   rot_dec key xs ! p = byte_shl (key_shift key p) (xs ! p) XOR key ! (p mod length key)"
  by (simp add: rot_dec_def)

lemma key_shift_less [simp]: "key_shift key i < 8"
  by (simp add: key_shift_def)

lemma key_shift_mod [simp]: "key_shift key (i mod length key) = key_shift key i"
  by (simp add: key_shift_def)

lemma byte_shl_shr [simp]: "byte_shl s (byte_shr s b) = b" if "s < 8"
proof (rule bit_word_eqI)
  fix n assume "n < LENGTH(8)"
  with that show "bit (byte_shl s (byte_shr s b)) n = bit b n"
    by (cases "n < s") (auto simp: byte_shl_def byte_shr_def bit_simps)
qed

lemma byte_shr_shl [simp]: "byte_shr s (byte_shl s b) = b" if "s < 8"
proof (rule bit_word_eqI)
  fix n assume "n < LENGTH(8)"
  moreover from that have "8 \<le> s + n \<Longrightarrow> 8 + (n + s - 8) - s = n"
    by arith
  ultimately show "bit (byte_shr s (byte_shl s b)) n = bit b n"
    using that by (cases "s + n < 8") (auto simp: byte_shl_def byte_shr_def bit_simps)
qed

lemma rot_dec_enc [simp]: "rot_dec key (rot_enc key xs) = xs"
  by (rule nth_equalityI) (simp_all add: nth_rot_dec nth_rot_enc xor.assoc)

lemma rot_enc_dec [simp]: "rot_enc key (rot_dec key xs) = xs"
  by (rule nth_equalityI) (simp_all add: nth_rot_dec nth_rot_enc xor.assoc)

lemma take_rot: "take n (rot_enc key xs) = rot_enc key (take n xs)"
  "take n (rot_dec key xs) = rot_dec key (take n xs)"
  by (rule nth_equalityI; simp add: nth_rot_enc nth_rot_dec)+

section \<open>The loops compute the specification\<close>

lemma xor_row_eq:
  assumes "length result = dL r" and "i + kL r \<le> dL r"
  shows "xor_row r st i result =
    overlay result i (map (\<lambda>j. slice_get st (rdata r) (i + j) XOR rkey r ! (j mod kL r)) [0..<kL r])"
  unfolding xor_row_def using assms by (intro for_range_overlay) simp_all

lemma shiftRight_eq:
  assumes "off + n \<le> length result"
  shows "shiftRight key off n result =
    overlay result off (map (\<lambda>i. byte_shr (key_shift key i) (result ! (off + i))) [0..<n])"
  unfolding shiftRight_def using assms by (intro for_range_overlay) (simp_all add: nth_overlay)

lemma shiftLeft_eq:
  assumes "valid_slice st s"
  shows "shiftLeft key s st = st[saddr s := overlay (st ! saddr s) (soff s)
    (map (\<lambda>i. byte_shl (key_shift key i) (slice_get st s i)) [0..<slen s])]"
  unfolding shiftLeft_def using assms by (intro for_range_slice_set) simp_all

text \<open>What \<^verbatim>\<open>complete\<close> leaves: the padded slice, in the caller's array when it has room.\<close>

definition pad_len :: "nat \<Rightarrow> nat \<Rightarrow> nat" where
  "pad_len n k = (if 0 < n mod k then k - n mod k else 0)"

definition padded :: "nat \<Rightarrow> slice \<Rightarrow> store \<Rightarrow> store \<times> slice" where
  "padded k s st = (if 0 < slen s mod k then slice_append st s (replicate (pad_len (slen s) k) 0) else (st, s))"

lemma dvd_pad_len: "0 < k \<Longrightarrow> k dvd n + pad_len n k"
  by (auto simp: pad_len_def dvd_eq_mod_eq_0 mod_add_left_eq [of n k, symmetric])

lemma padded_spec:
  assumes "valid_slice st s" and "padded k s st = (st', s')"
  shows "valid_slice st' s'" and "slen s' = slen s + pad_len (slen s) k"
    and "slice_bytes st' s' = slice_bytes st s @ replicate (pad_len (slen s) k) 0"
  using assms valid_slice_append [OF assms(1)] slice_bytes_append [OF assms(1)]
  by (auto simp: padded_def pad_len_def split: if_splits)

lemma complete_eq:
  assumes "padded (length key) s st = (st', s')" and "key \<noteq> []"
  shows "complete (new_rotate s key) st =
    Ret (\<lparr>rdata = s', rkey = key, dL = slen s', kL = length key, pL = pad_len (slen s) (length key)\<rparr>, st')"
  using assms by (auto simp: complete_def new_rotate_def padded_def pad_len_def Let_def split: prod.splits)

lemma complete_empty_key: "complete (new_rotate s []) st = Panic"
  by (simp add: complete_def new_rotate_def)

lemma mod_block: "(k::nat) dvd i \<Longrightarrow> (i + j) mod k = j mod k"
  by (auto elim!: dvdE)

lemma key_shift_block: "length key dvd i \<Longrightarrow> key_shift key (i + j) = key_shift key j"
  by (simp add: key_shift_def mod_block)

lemma encrypt_block:
  fixes st :: store
  assumes r: "kL r = length (rkey r)" "length (rkey r) dvd i" "i + kL r \<le> dL r"
  defines "g \<equiv> \<lambda>p. byte_shr (key_shift (rkey r) p)
                  (slice_get st (rdata r) p XOR rkey r ! (p mod length (rkey r)))"
  shows "shiftRight (rkey r) i (kL r) (xor_row r st i (overlay (replicate (dL r) 0) 0 (map g [0..<i]))) =
         overlay (replicate (dL r) 0) 0 (map g [0..<i + kL r])"
proof -
  let ?R = "overlay (replicate (dL r) 0) 0 (map g [0..<i])"
  let ?row = "map (\<lambda>j. slice_get st (rdata r) (i + j) XOR rkey r ! (j mod kL r)) [0..<kL r]"
  have len: "length ?R = dL r"
    using r by simp
  have row: "map (\<lambda>j. byte_shr (key_shift (rkey r) j) (overlay ?R i ?row ! (i + j))) [0..<kL r] =
        map (\<lambda>j. g (i + j)) [0..<kL r]"
    using r len by (auto simp: nth_overlay g_def key_shift_block mod_block)
  have "i + kL r \<le> length (overlay ?R i ?row)"
    using r len by simp
  then have "shiftRight (rkey r) i (kL r) (overlay ?R i ?row) =
      overlay (overlay ?R i ?row) i (map (\<lambda>j. g (i + j)) [0..<kL r])"
    unfolding row [symmetric] by (rule shiftRight_eq)
  also have "\<dots> = overlay ?R i (map (\<lambda>j. g (i + j)) [0..<kL r])"
    using r len by (intro overlay_overwrite) simp_all
  also have "\<dots> = overlay (replicate (dL r) 0) 0 (map g [0..<i + kL r])"
    using r overlay_append [of 0 "map g [0..<i]" "map (\<lambda>j. g (i + j)) [0..<kL r]" "replicate (dL r) 0"]
    by (simp add: map_upt_add)
  finally show ?thesis
    using r len by (simp add: xor_row_eq)
qed

lemma encrypt_loop:
  assumes "kL r = length (rkey r)" "rkey r \<noteq> []" "length (rkey r) dvd dL r"
  shows "for_step 0 (dL r) (kL r)
      (\<lambda>i result. shiftRight (rkey r) i (kL r) (xor_row r st i result)) (replicate (dL r) 0) =
    map (\<lambda>p. byte_shr (key_shift (rkey r) p)
           (slice_get st (rdata r) p XOR rkey r ! (p mod length (rkey r)))) [0..<dL r]"
    (is "for_step _ _ _ ?body _ = map ?g _")
proof -
  let ?I = "\<lambda>i result. result = overlay (replicate (dL r) 0) 0 (map ?g [0..<i])"
  have "?I (dL r) (for_step 0 (dL r) (kL r) ?body (replicate (dL r) 0))"
    using assms encrypt_block [of r _ st]
    by (intro for_step_invariant_dvd [where I = ?I]) simp_all
  then show ?thesis
    by (simp add: overlay_all)
qed

text \<open>The data byte at a position after \<^verbatim>\<open>shiftLeft\<close>.\<close>

definition unrotated :: "rotate \<Rightarrow> store \<Rightarrow> nat \<Rightarrow> byte" where
  "unrotated r st p = byte_shl (key_shift (rkey r) p) (slice_get st (rdata r) p)"

lemma decrypt_block:
  fixes st :: store
  assumes r: "kL r = length (rkey r)" "length (rkey r) dvd i" "i + kL r \<le> dL r" "dL r = slen (rdata r)"
    and valid: "valid_slice st (rdata r)"
  defines "f \<equiv> unrotated r st"
  defines "g \<equiv> \<lambda>p. f p XOR rkey r ! (p mod length (rkey r))"
  defines "store_at \<equiv> \<lambda>i. st[saddr (rdata r) := overlay (st ! saddr (rdata r)) (soff (rdata r)) (map f [0..<i])]"
  shows "shiftLeft (rkey r) (subslice (rdata r) i (i + kL r)) (store_at i) = store_at (i + kL r)"
    and "xor_row r (store_at (i + kL r)) i (overlay (replicate (dL r) 0) 0 (map g [0..<i])) =
         overlay (replicate (dL r) 0) 0 (map g [0..<i + kL r])"
proof -
  let ?s = "rdata r" let ?w = "subslice ?s i (i + kL r)"
  have bounds: "saddr ?s < length st" "soff ?s + dL r \<le> length (st ! saddr ?s)"
    using valid r by (auto simp: valid_slice_def)
  have get: "slice_get (store_at n) ?s p = (if p < n then f p else slice_get st ?s p)"
    if "n \<le> dL r" "p < dL r" for n p
    using that bounds by (auto simp: slice_get_def store_at_def nth_overlay)
  have "valid_slice (store_at i) ?s"
    using valid bounds r by (auto simp: valid_slice_def store_at_def)
  then have w: "valid_slice (store_at i) ?w"
    using r by (intro valid_subslice) simp_all
  have row: "map (\<lambda>j. byte_shl (key_shift (rkey r) j) (slice_get (store_at i) ?w j)) [0..<kL r] =
        map (\<lambda>j. f (i + j)) [0..<kL r]"
    using r get by (auto simp: f_def unrotated_def key_shift_block)
  have "shiftLeft (rkey r) ?w (store_at i) = (store_at i)[saddr ?s :=
      overlay (store_at i ! saddr ?s) (soff ?s + i) (map (\<lambda>j. f (i + j)) [0..<kL r])]"
    unfolding row [symmetric] using shiftLeft_eq [OF w, of "rkey r"] by (simp add: subslice_def)
  also have "\<dots> = store_at (i + kL r)"
    using r bounds overlay_append [of "soff ?s" "map f [0..<i]" "map (\<lambda>j. f (i + j)) [0..<kL r]" "st ! saddr ?s"]
    by (simp add: store_at_def map_upt_add)
  finally show "shiftLeft (rkey r) ?w (store_at i) = store_at (i + kL r)" .
  have row: "map (\<lambda>j. slice_get (store_at (i + kL r)) ?s (i + j) XOR rkey r ! (j mod kL r)) [0..<kL r] =
        map (\<lambda>j. g (i + j)) [0..<kL r]"
    using r get by (auto simp: g_def mod_block)
  let ?R = "overlay (replicate (dL r) 0) 0 (map g [0..<i])"
  have "xor_row r (store_at (i + kL r)) i ?R = overlay ?R i (map (\<lambda>j. g (i + j)) [0..<kL r])"
    unfolding row [symmetric] using r by (intro xor_row_eq) simp_all
  then show "xor_row r (store_at (i + kL r)) i ?R = overlay (replicate (dL r) 0) 0 (map g [0..<i + kL r])"
    using r overlay_append [of 0 "map g [0..<i]" "map (\<lambda>j. g (i + j)) [0..<kL r]" "replicate (dL r) 0"]
    by (simp add: map_upt_add)
qed

lemma decrypt_loop:
  assumes "kL r = length (rkey r)" "rkey r \<noteq> []" "length (rkey r) dvd dL r" "dL r = slen (rdata r)"
    and "valid_slice st (rdata r)"
  shows "for_step 0 (dL r) (kL r)
      (\<lambda>i (st, result).
         let st = shiftLeft (rkey r) (subslice (rdata r) i (i + kL r)) st
         in (st, xor_row r st i result))
      (st, replicate (dL r) 0) =
    (st[saddr (rdata r) := overlay (st ! saddr (rdata r)) (soff (rdata r)) (map (unrotated r st) [0..<dL r])],
     map (\<lambda>p. unrotated r st p XOR rkey r ! (p mod length (rkey r))) [0..<dL r])"
    (is "for_step _ _ _ ?body _ = (_, map ?g _)")
proof -
  let ?I = "\<lambda>i res. res =
     (st[saddr (rdata r) := overlay (st ! saddr (rdata r)) (soff (rdata r)) (map (unrotated r st) [0..<i])],
      overlay (replicate (dL r) 0) 0 (map ?g [0..<i]))"
  have "?I (dL r) (for_step 0 (dL r) (kL r) ?body (st, replicate (dL r) 0))"
    using assms(1-5) decrypt_block [of r _ st]
    by (intro for_step_invariant_dvd [where I = ?I]) (simp_all add: Let_def)
  then show ?thesis
    by (simp add: overlay_all)
qed

section \<open>Encrypt and Decrypt\<close>

lemma take_map_slice:
  assumes "slice_bytes st' s' = slice_bytes st s @ zs" and "valid_slice st s" and "valid_slice st' s'"
    and "slen s' = slen s + n"
  shows "take (slen s' - n) (map (\<lambda>p. h p (slice_get st' s' p)) [0..<slen s']) =
         map (\<lambda>p. h p (slice_bytes st s ! p)) [0..<slen s]"
proof (rule nth_equalityI)
  fix p assume "p < length (take (slen s' - n) (map (\<lambda>p. h p (slice_get st' s' p)) [0..<slen s']))"
  then have p: "p < slen s"
    using assms(4) by simp
  then have "slice_get st' s' p = slice_bytes st s ! p"
    using assms nth_slice_bytes [of st' s' p] by (simp add: nth_append)
  with p show "take (slen s' - n) (map (\<lambda>p. h p (slice_get st' s' p)) [0..<slen s']) ! p =
         map (\<lambda>p. h p (slice_bytes st s ! p)) [0..<slen s] ! p"
    using assms(4) by simp
qed (use assms in simp)

lemma Encrypt_eq:
  assumes key: "key \<noteq> []" and valid: "valid_slice st s"
  shows "Encrypt s key st = Ret (rot_enc key (slice_bytes st s), fst (padded (length key) s st))"
proof -
  obtain st' s' where p: "padded (length key) s st = (st', s')"
    by fastforce
  note sp = padded_spec [OF valid p]
  let ?r = "\<lparr>rdata = s', rkey = key, dL = slen s', kL = length key, pL = pad_len (slen s) (length key)\<rparr>"
  have "length key dvd slen s'"
    using sp(2) key dvd_pad_len by simp
  then have "Encrypt s key st = Ret (take (slen s' - pad_len (slen s) (length key))
      (map (\<lambda>p. byte_shr (key_shift key p) (slice_get st' s' p XOR key ! (p mod length key))) [0..<slen s']), st')"
    using key encrypt_loop [of ?r st']
    by (simp add: Encrypt_def encrypt_def complete_eq [OF p key] Let_def)
  then show ?thesis
    using take_map_slice [OF sp(3) valid sp(1,2),
        of "\<lambda>p b. byte_shr (key_shift key p) (b XOR key ! (p mod length key))"] valid p
    by (simp add: rot_enc_def)
qed

lemma Decrypt_eq:
  assumes key: "key \<noteq> []" and valid: "valid_slice st s"
    and p: "padded (length key) s st = (st', s')"
  shows "Decrypt s key st = Ret (rot_dec key (slice_bytes st s),
    st'[saddr s' := overlay (st' ! saddr s') (soff s')
      (map (\<lambda>p. byte_shl (key_shift key p) (slice_get st' s' p)) [0..<slen s'])])"
proof -
  note sp = padded_spec [OF valid p]
  let ?r = "\<lparr>rdata = s', rkey = key, dL = slen s', kL = length key, pL = pad_len (slen s) (length key)\<rparr>"
  have u: "unrotated ?r st' = (\<lambda>p. byte_shl (key_shift key p) (slice_get st' s' p))"
    by (rule ext) (simp add: unrotated_def)
  have "length key dvd slen s'"
    using sp(2) key dvd_pad_len by simp
  then have "Decrypt s key st = Ret (take (slen s' - pad_len (slen s) (length key))
      (map (\<lambda>p. byte_shl (key_shift key p) (slice_get st' s' p) XOR key ! (p mod length key)) [0..<slen s']),
    st'[saddr s' := overlay (st' ! saddr s') (soff s')
      (map (\<lambda>p. byte_shl (key_shift key p) (slice_get st' s' p)) [0..<slen s'])])"
    using key sp(1) decrypt_loop [of ?r st', unfolded u]
    by (simp add: Decrypt_def decrypt_def complete_eq [OF p key] del: upt_Suc)
  then show ?thesis
    using take_map_slice [OF sp(3) valid sp(1,2),
        of "\<lambda>p b. byte_shl (key_shift key p) b XOR key ! (p mod length key)"] valid
    by (simp add: rot_dec_def)
qed

lemma byte_shl_0 [simp]: "byte_shl n 0 = 0"
  by (simp add: byte_shl_def)

text \<open>The bytes of the caller's array that neither call touches: those before the slice and those past
  the padding.\<close>

lemma padded_array:
  assumes "valid_slice st s" and "padded k s st = (st', s')"
  shows "a < length st \<Longrightarrow> a \<noteq> saddr s \<Longrightarrow> st' ! a = st ! a"
    and "i < soff s + slen s \<or> soff s + slen s + pad_len (slen s) k \<le> i \<Longrightarrow>
         i < length (st ! saddr s) \<Longrightarrow> (st' ! saddr s) ! i = (st ! saddr s) ! i"
    and "length (st' ! saddr s) = length (st ! saddr s)"
    and "length st \<le> length st'"
  using assms
  by (auto simp: padded_def slice_append_def new_slice_def valid_slice_def nth_append nth_overlay
      pad_len_def split: if_splits)

lemma padded_aliases:
  assumes "valid_slice st s" and "padded k s st = (st', s')" and "slen s + pad_len (slen s) k \<le> scap s"
  shows "saddr s' = saddr s" and "soff s' = soff s" and "length st' = length st"
  using assms by (auto simp: padded_def slice_append_def pad_len_def split: if_splits)

section \<open>Properties\<close>

text \<open>C4. For every non-empty key, Encrypt returns a ciphertext of the plaintext's length, and Decrypt of
  any slice that holds this ciphertext, in any store, returns exactly the plaintext. The padding to
  a multiple of the key length and the final cut do not lose bytes.\<close>

theorem Decrypt_Encrypt:
  assumes "key \<noteq> []" and "valid_slice st s"
  shows "\<exists>c st1. Encrypt s key st = Ret (c, st1) \<and> length c = slen s \<and>
    (\<forall>st2 s2. valid_slice st2 s2 \<and> slice_bytes st2 s2 = c \<longrightarrow>
       (\<exists>st3. Decrypt s2 key st2 = Ret (slice_bytes st s, st3)))"
proof -
  have "\<exists>st3. Decrypt s2 key st2 = Ret (slice_bytes st s, st3)"
    if "valid_slice st2 s2" "slice_bytes st2 s2 = rot_enc key (slice_bytes st s)" for st2 s2
    using Decrypt_eq [OF assms(1) that(1)] that(2) by (cases "padded (length key) s2 st2") simp
  then show ?thesis
    using Encrypt_eq [OF assms] assms(2) by simp
qed

theorem Decrypt_Encrypt_witness:
  "\<exists>c st1. Encrypt \<lparr>saddr = 0, soff = 0, slen = 3, scap = 3\<rparr> [7, 200] [[1, 2, 3]] = Ret (c, st1) \<and> length c = 3 \<and>
    (\<forall>st2 s2. valid_slice st2 s2 \<and> slice_bytes st2 s2 = c \<longrightarrow>
       (\<exists>st3. Decrypt s2 [7, 200] st2 = Ret ([1, 2, 3], st3)))"
  using Decrypt_Encrypt [of "[7, 200]" "[[1, 2, 3]]" "\<lparr>saddr = 0, soff = 0, slen = 3, scap = 3\<rparr>"]
  by (simp add: valid_slice_def slice_bytes_def)

text \<open>With an empty key both calls panic on every input (the padding computes a remainder by the key
  length), so a peer or server configured without a token cannot process a single packet.\<close>

theorem empty_key_panics:
  "Encrypt s [] st = Panic \<and> Decrypt s [] st = Panic"
  by (simp add: Encrypt_def Decrypt_def encrypt_def decrypt_def complete_empty_key)

text \<open>Encrypt leaves the plaintext and every other byte of the caller's memory as it was, except the
  spare capacity right after the slice, which it may overwrite with padding.\<close>

theorem Encrypt_frame:
  assumes "key \<noteq> []" and "valid_slice st s" and "Encrypt s key st = Ret (c, st')"
  shows "slice_bytes st' s = slice_bytes st s \<and>
    (\<forall>a < length st. a \<noteq> saddr s \<longrightarrow> st' ! a = st ! a) \<and>
    (\<forall>i < length (st ! saddr s). i < soff s + slen s \<or> soff s + slen s + pad_len (slen s) (length key) \<le> i
       \<longrightarrow> (st' ! saddr s) ! i = (st ! saddr s) ! i)"
proof -
  obtain st1 s1 where p: "padded (length key) s st = (st1, s1)"
    by fastforce
  with assms Encrypt_eq have st': "st' = st1"
    by simp
  have "valid_slice st1 s"
    using assms(2) padded_array(3,4) [OF assms(2) p] by (simp add: valid_slice_def)
  then have "slice_bytes st1 s = slice_bytes st s"
    using assms(2) padded_array(2) [OF assms(2) p]
    by (intro slice_bytes_eqI) (auto simp: nth_slice_bytes slice_get_def valid_slice_def)
  then show ?thesis
    using padded_array [OF assms(2) p] st' by simp
qed

theorem Encrypt_frame_witness:
  "\<exists>c st'. Encrypt \<lparr>saddr = 0, soff = 1, slen = 1, scap = 2\<rparr> [7, 200] [[5, 1, 9], [4]] = Ret (c, st') \<and>
     slice_bytes st' \<lparr>saddr = 0, soff = 1, slen = 1, scap = 2\<rparr> = [1] \<and> st' ! 1 = [4]"
proof -
  let ?s = "\<lparr>saddr = 0, soff = 1, slen = 1, scap = 2\<rparr>" let ?st = "[[5, 1, 9], [4]] :: store"
  have v: "valid_slice ?st ?s"
    by (simp add: valid_slice_def)
  obtain c st' where e: "Encrypt ?s [7, 200] ?st = Ret (c, st')"
    using Encrypt_eq [OF _ v, of "[7, 200]"] by blast
  from Encrypt_frame [OF _ v this] show ?thesis
    using e by (auto simp: slice_bytes_def)
qed

end
