(* ===== verification/Compress.thy ===== *)
theory Compress
  imports Prelude
begin

text \<open>
  \<^verbatim>\<open>internal/compress\<close>. The snappy package is not part of the repository: its buffered writer and its
  reader are the parameters of the model, bundled in the record \<open>snappy\<close>. \<open>snappy_ok\<close> is what the
  package documents: writing to a memory buffer does not fail, and reading back what a
  writer produced returns the bytes that were written.
\<close>

record snappy =
  sn_write :: "bytes \<Rightarrow> goerr option"
  sn_close :: "bytes \<Rightarrow> bytes res"
  sn_read_all :: "bytes \<Rightarrow> bytes res"

definition snappy_ok :: "snappy \<Rightarrow> bool" where
  "snappy_ok sn \<longleftrightarrow>
     (\<forall>d. sn_write sn d = None \<and> (\<exists>z. sn_close sn d = Ret z \<and> sn_read_all sn z = Ret d))"

definition EmptyData :: goerr where
  "EmptyData = ErrNew ''empty data''"

definition Zip :: "snappy \<Rightarrow> bytes \<Rightarrow> bytes res" where
  "Zip sn data =
     (if length data = 0 then Fail EmptyData
      else (case sn_write sn data of
              Some err \<Rightarrow> Fail err
            | None \<Rightarrow> (case sn_close sn data of
                         Ret z \<Rightarrow> Ret z
                       | Fail err \<Rightarrow> Fail err
                       | Panic \<Rightarrow> Panic)))"

text \<open>The argument of \<^verbatim>\<open>Unzip\<close> may be a nil slice, \<open>None\<close>.\<close>

definition Unzip :: "snappy \<Rightarrow> bytes option \<Rightarrow> bytes res" where
  "Unzip sn data =
     (case data of
        None \<Rightarrow> Fail EmptyData
      | Some d \<Rightarrow> (case sn_read_all sn d of
                     Ret out \<Rightarrow> Ret out
                   | Fail err \<Rightarrow> Fail err
                   | Panic \<Rightarrow> Panic))"

lemma Unzip_Some [simp]: "Unzip sn (Some d) = sn_read_all sn d"
  by (simp add: Unzip_def split: res.splits)

lemma Zip_Nil [simp]: "Zip sn [] = Fail EmptyData"
  by (simp add: Zip_def)

lemma Zip_ok:
  assumes "snappy_ok sn" and "data \<noteq> []"
  obtains z where "Zip sn data = Ret z" and "Unzip sn (Some z) = Ret data"
proof -
  from assms(1) obtain z where "sn_write sn data = None" "sn_close sn data = Ret z" "sn_read_all sn z = Ret data"
    unfolding snappy_ok_def by blast
  with assms(2) show thesis
    by (intro that [of z]) (simp_all add: Zip_def)
qed

lemma Unzip_Zip:
  assumes "snappy_ok sn" and "Zip sn data = Ret z"
  shows "Unzip sn (Some z) = Ret data"
  using assms Zip_ok [of sn data] by (cases "data = []") auto

text \<open>A codec that satisfies the contract: a stored block, an identifying first byte and the bytes.\<close>

definition stored_snappy :: snappy where
  "stored_snappy =
     \<lparr>sn_write = (\<lambda>_. None),
      sn_close = (\<lambda>d. Ret (255 # d)),
      sn_read_all = (\<lambda>z. case z of [] \<Rightarrow> Ret [] | b # d \<Rightarrow> if b = 255 then Ret d else Fail (ErrNew ''snappy: corrupt input''))\<rparr>"

lemma stored_snappy_ok: "snappy_ok stored_snappy"
  by (simp add: snappy_ok_def stored_snappy_def)

end
