(* ===== verification/Protocol.thy ===== *)
theory Protocol
  imports Cipher Compress Go_IO
begin

text \<open>
  The packet format of \<^verbatim>\<open>internal/protocol/proto.go\<close>: a 4-byte body length, 2 bytes of noise, and
  the encrypted, compressed body. \<open>Encode\<close> builds a packet, \<open>UnPack\<close> opens one in a buffer (in the
  store, since \<^verbatim>\<open>cipher.Decrypt\<close> works in place), \<open>protocol_ReadFull\<close> reads one from a connection.
\<close>

section \<open>The code\<close>

record Packet =
  RandNu :: nat
  Payload :: bytes

definition headerLen :: nat where
  "headerLen = 6"

definition maxByte :: nat where
  "maxByte = 2 ^ 24"

definition ErrIncompletePacket :: goerr where
  "ErrIncompletePacket = ErrNew ''incomplete packet''"

definition ErrTooLargePacket :: goerr where
  "ErrTooLargePacket = ErrNew ''too large packet''"

text \<open>\<open>rnd\<close> is the value of \<^verbatim>\<open>rand.Intn(99)\<close>, between 0 and 98.\<close>

definition random :: "nat \<Rightarrow> nat \<Rightarrow> nat" where
  "random rnd i = i mod (rnd + 1)"

definition Encode :: "nat \<Rightarrow> snappy \<Rightarrow> bytes \<Rightarrow> bytes \<Rightarrow> bytes res" where
  "Encode rnd sn key bin =
     (let randNu = random rnd (length bin)
      in bind_res (Zip sn bin) (\<lambda>zipBin.
         let (st, s) = new_slice [] zipBin
         in bind_res (Encrypt s key st) (\<lambda>(encryptBuff, _).
            let msgLen = headerLen + length encryptBuff;
                buffer = replicate (unat (word_of_nat msgLen :: 32 word)) 0
            in if length buffer < msgLen then Panic
               else let buffer = overlay buffer 0 (putUint32 (word_of_nat (length encryptBuff)));
                        buffer = overlay buffer 4 (putUint16 (word_of_nat randNu));
                        buffer = overlay buffer headerLen encryptBuff
                    in Ret (take msgLen buffer))))"

definition UnPack :: "snappy \<Rightarrow> bytes \<Rightarrow> slice \<Rightarrow> store \<Rightarrow> Packet res \<times> store" where
  "UnPack sn key buf st =
     (if slen buf < headerLen then (Fail ErrIncompletePacket, st)
      else let bodyLen = getUint32 (slice_bytes st (subslice buf 0 4));
               randNu = getUint16 (slice_bytes st (subslice buf 4 headerLen));
               msgLen = headerLen + unat bodyLen
           in if slen buf < msgLen then (Fail ErrIncompletePacket, st)
              else (case Decrypt (subslice buf headerLen msgLen) key st of
                      Ret (decryptBuf, st') \<Rightarrow>
                        (bind_res (Unzip sn (Some decryptBuf)) (\<lambda>unzipBuf.
                           Ret \<lparr>RandNu = unat randNu, Payload = unzipBuf\<rparr>), st')
                    | Fail e \<Rightarrow> (Fail e, st)
                    | Panic \<Rightarrow> (Panic, st)))"

definition protocol_ReadFull :: "snappy \<Rightarrow> bytes \<Rightarrow> (Packet, 'z conn_scheme) io" where
  "protocol_ReadFull sn key =
     io_bind (io_ReadFull headerLen) (\<lambda>preBuff.
       let bodyLen = getUint32 (take 4 preBuff);
           randNu = getUint16 (drop 4 preBuff)
       in if maxByte < unat bodyLen then io_fail ErrTooLargePacket
          else io_bind (io_ReadFull (unat bodyLen)) (\<lambda>buf.
            let (st, s) = new_slice [] buf
            in (\<lambda>c. Some (bind_res (Decrypt s key st) (\<lambda>(decryptBuf, _).
                  bind_res (Unzip sn (Some decryptBuf)) (\<lambda>unzipBuf.
                    Ret \<lparr>RandNu = unat randNu, Payload = unzipBuf\<rparr>)), c))))"

section \<open>Frames\<close>

definition frame :: "nat \<Rightarrow> bytes \<Rightarrow> bytes" where
  "frame n body = putUint32 (word_of_nat (length body)) @ putUint16 (word_of_nat n) @ body"

lemma length_frame [simp]: "length (frame n body) = headerLen + length body"
  by (simp add: frame_def headerLen_def)

lemma drop_frame [simp]: "drop headerLen (frame n body) = body"
  by (simp add: frame_def headerLen_def)

lemma frame_header:
  assumes "length body < 2 ^ 32"
  shows "unat (getUint32 (take 4 (take headerLen (frame n body @ rest)))) = length body"
    and "n < 2 ^ 16 \<Longrightarrow> unat (getUint16 (drop 4 (take headerLen (frame n body @ rest)))) = n"
    and "drop headerLen (frame n body @ rest) = body @ rest"
  using assms by (simp_all add: frame_def headerLen_def unat_of_nat_small
      getUint32_putUint32 [of _ "[]", simplified] getUint16_putUint16 [of _ "[]", simplified])

lemma valid_new_slice: "new_slice [] bs = (st, s) \<Longrightarrow> valid_slice st s \<and> slice_bytes st s = bs"
  by (auto simp: new_slice_def valid_slice_def slice_bytes_def)

lemma overlay_frame:
  assumes "length buffer = headerLen + length body"
  shows "overlay (overlay (overlay buffer 0 (putUint32 a)) 4 (putUint16 b)) headerLen body =
         putUint32 a @ putUint16 b @ body"
proof -
  have "overlay (overlay buffer 0 (putUint32 a)) 4 (putUint16 b) =
        overlay buffer 0 (putUint32 a @ putUint16 b)"
    using overlay_append [of 0 "putUint32 a" "putUint16 b" buffer] assms by (simp add: headerLen_def)
  then show ?thesis
    using overlay_append [of 0 "putUint32 a @ putUint16 b" body buffer] assms
    by (simp add: headerLen_def overlay_all)
qed

lemma Encode_eq:
  assumes "key \<noteq> []" and "Zip sn bin = Ret z" and "headerLen + length z < 2 ^ 32"
  shows "Encode rnd sn key bin = Ret (frame (random rnd (length bin)) (rot_enc key z))"
proof -
  obtain st s where ns: "new_slice [] z = (st, s)"
    by fastforce
  then have "valid_slice st s" "slice_bytes st s = z"
    using valid_new_slice by blast+
  then obtain st' where enc: "Encrypt s key st = Ret (rot_enc key z, st')"
    using Encrypt_eq [OF assms(1)] by simp
  have "unat (word_of_nat (headerLen + length z) :: 32 word) = headerLen + length z"
    using assms(3) by (intro unat_of_nat_small) simp
  then show ?thesis
    using assms(2) ns enc
      overlay_frame [of "replicate (headerLen + length z) 0" "rot_enc key z"]
    by (simp add: Encode_def frame_def Let_def del: of_nat_add) (simp add: headerLen_def)
qed

lemma protocol_ReadFull_frame:
  assumes "key \<noteq> []" and "stream c = frame n body @ rest" and "n < 2 ^ 16"
    and "length body \<le> maxByte" and "\<not> closed c"
  obtains q where "concat q = rest" and "protocol_ReadFull sn key c =
     Some (bind_res (Unzip sn (Some (rot_dec key body))) (\<lambda>p. Ret \<lparr>RandNu = n, Payload = p\<rparr>), c\<lparr>inp := q\<rparr>)"
proof -
  have len: "length body < 2 ^ 32"
    using assms(4) by (simp add: maxByte_def)
  obtain q1 where r1: "io_ReadFull headerLen c = Some (Ret (take headerLen (stream c)), c\<lparr>inp := q1\<rparr>)"
    and q1: "concat q1 = drop headerLen (stream c)"
    using io_ReadFull_delivers [of headerLen c] assms by auto
  then have str1: "stream (c\<lparr>inp := q1\<rparr>) = body @ rest"
    using frame_header(3) [OF len] assms(2) by simp
  then obtain q where r2: "io_ReadFull (length body) (c\<lparr>inp := q1\<rparr>) = Some (Ret body, c\<lparr>inp := q\<rparr>)"
    and q: "concat q = rest"
    using io_ReadFull_delivers [of "length body" "c\<lparr>inp := q1\<rparr>"] assms(5) by auto
  obtain st s where ns: "new_slice [] body = (st, s)"
    by fastforce
  then have "valid_slice st s" "slice_bytes st s = body"
    using valid_new_slice by blast+
  then obtain st' where "Decrypt s key st = Ret (rot_dec key body, st')"
    using Decrypt_eq [OF assms(1)] by (cases "padded (length key) s st") auto
  then have "protocol_ReadFull sn key c =
     Some (bind_res (Unzip sn (Some (rot_dec key body))) (\<lambda>p. Ret \<lparr>RandNu = n, Payload = p\<rparr>), c\<lparr>inp := q\<rparr>)"
    using r1 r2 assms(3,4) frame_header(1,2) [OF len, of n rest] ns
    by (simp add: protocol_ReadFull_def assms(2) Let_def)
  with q show thesis
    by (rule that)
qed

section \<open>UnPack\<close>

lemma slice_bytes_prefix:
  assumes "valid_slice st buf" and "i \<le> j" and "j \<le> slen buf"
  shows "slice_bytes st (subslice buf i j) = take (j - i) (drop i (slice_bytes st buf))"
  using assms by (auto simp: slice_bytes_def subslice_def valid_slice_def take_drop add.commute)

lemma UnPack_frame:
  assumes key: "key \<noteq> []" and valid: "valid_slice st buf" and n: "n < 2 ^ 16"
    and content: "slice_bytes st buf = frame n body @ rest" and len: "length body < 2 ^ 32"
  shows "fst (UnPack sn key buf st) =
     bind_res (Unzip sn (Some (rot_dec key body))) (\<lambda>p. Ret \<lparr>RandNu = n, Payload = p\<rparr>)"
    and "snd (UnPack sn key buf st) = (case Decrypt (subslice buf headerLen (headerLen + length body)) key st of
           Ret (_, st') \<Rightarrow> st' | _ \<Rightarrow> st)"
proof -
  let ?w = "subslice buf headerLen (headerLen + length body)"
  have slen: "slen buf = headerLen + length body + length rest"
    using length_slice_bytes [OF valid] content by simp
  have w: "valid_slice st ?w" "slice_bytes st ?w = body"
    using valid slen content len
    by (simp_all add: valid_subslice slice_bytes_prefix)
  obtain st' where dec: "Decrypt ?w key st = Ret (rot_dec key body, st')"
    using Decrypt_eq [OF key w(1)] w(2) by (cases "padded (length key) ?w st") auto
  have "slice_bytes st (subslice buf 0 4) = take 4 (take headerLen (slice_bytes st buf))"
    "slice_bytes st (subslice buf 4 headerLen) = drop 4 (take headerLen (slice_bytes st buf))"
    using valid slen by (simp_all add: slice_bytes_prefix headerLen_def drop_take)
  then have "unat (getUint32 (slice_bytes st (subslice buf 0 4))) = length body"
    "unat (getUint16 (slice_bytes st (subslice buf 4 headerLen))) = n"
    using frame_header(1,2) [OF len, of n rest] n content by simp_all
  then show "fst (UnPack sn key buf st) =
     bind_res (Unzip sn (Some (rot_dec key body))) (\<lambda>p. Ret \<lparr>RandNu = n, Payload = p\<rparr>)"
    and "snd (UnPack sn key buf st) = (case Decrypt ?w key st of Ret (_, st') \<Rightarrow> st' | _ \<Rightarrow> st)"
    using dec slen by (simp_all add: UnPack_def Let_def)
qed

section \<open>The cipher as an interface\<close>

text \<open>What the packet format needs of a cipher: decryption undoes encryption and lengths do not change
  (the length field is the ciphertext's). The lemma about compressed bodies is proved from this
  contract alone.\<close>

locale body_cipher =
  fixes enc :: "bytes \<Rightarrow> bytes \<Rightarrow> bytes" and dec :: "bytes \<Rightarrow> bytes \<Rightarrow> bytes"
  assumes dec_enc: "dec key (enc key d) = d"
    and length_enc: "length (enc key d) = length d"
begin

lemma open_body:
  assumes "snappy_ok sn" and "Zip sn data = Ret z"
  shows "bind_res (Unzip sn (Some (dec key (enc key z)))) (\<lambda>p. Ret \<lparr>RandNu = n, Payload = p\<rparr>) =
         Ret \<lparr>RandNu = n, Payload = data\<rparr>"
  using Unzip_Zip [OF assms] by (simp add: dec_enc)

lemma enc_inject: "enc key d = enc key d' \<Longrightarrow> d = d'"
  by (metis dec_enc)

end

interpretation rot: body_cipher rot_enc rot_dec
  by unfold_locales simp_all

lemma random_less: "rnd < 99 \<Longrightarrow> random rnd i < 2 ^ 16"
  using order_less_le_trans [OF mod_less_divisor [of "Suc rnd" i], of "2 ^ 16"]
  by (simp add: random_def)

lemma Encode_ok:
  assumes "snappy_ok sn" and "key \<noteq> []" and "data \<noteq> []"
    and "\<And>z. Zip sn data = Ret z \<Longrightarrow> length z \<le> maxByte"
  obtains z where "Zip sn data = Ret z" and "length z \<le> maxByte"
    and "Encode rnd sn key data = Ret (frame (random rnd (length data)) (rot_enc key z))"
proof -
  obtain z where z: "Zip sn data = Ret z"
    using Zip_ok [OF assms(1,3)] by blast
  then have "length z \<le> maxByte"
    by (rule assms(4))
  moreover from this have "headerLen + length z < 2 ^ 32"
    by (simp add: headerLen_def maxByte_def)
  ultimately show thesis
    using that z Encode_eq [OF assms(2) z] by blast
qed

text \<open>A packet that \<^verbatim>\<open>Encode\<close> made is read back by \<^verbatim>\<open>ReadFull\<close>.\<close>

definition packet_of :: "snappy \<Rightarrow> bytes \<Rightarrow> nat \<Rightarrow> bytes \<Rightarrow> bytes \<Rightarrow> bool" where
  "packet_of sn key rnd data pkt \<longleftrightarrow>
     Encode rnd sn key data = Ret pkt \<and>
     (\<exists>z. Zip sn data = Ret z \<and> length z \<le> maxByte \<and> pkt = frame (random rnd (length data)) (rot_enc key z))"

lemma Encode_packet_of:
  assumes "snappy_ok sn" and "key \<noteq> []" and "data \<noteq> []"
    and "\<And>z. Zip sn data = Ret z \<Longrightarrow> length z \<le> maxByte"
  obtains pkt where "Encode rnd sn key data = Ret pkt" and "packet_of sn key rnd data pkt"
  using Encode_ok [OF assms, of rnd] by (metis packet_of_def)

lemma ReadFull_packet_of:
  assumes "snappy_ok sn" and "key \<noteq> []" and "rnd < 99" and "packet_of sn key rnd data pkt"
    and "stream c = pkt @ rest" and "\<not> closed c"
  obtains q where "concat q = rest" and "protocol_ReadFull sn key c =
          Some (Ret \<lparr>RandNu = length data mod (rnd + 1), Payload = data\<rparr>, c\<lparr>inp := q\<rparr>)"
proof -
  obtain z where z: "Zip sn data = Ret z" "length z \<le> maxByte"
    and pkt: "pkt = frame (random rnd (length data)) (rot_enc key z)"
    using assms(4) by (auto simp: packet_of_def)
  have "length (rot_enc key z) \<le> maxByte"
    using z by simp
  with assms(2) assms(5) [unfolded pkt] random_less [OF assms(3)] obtain q where "concat q = rest"
    and "protocol_ReadFull sn key c = Some (bind_res (Unzip sn (Some (rot_dec key (rot_enc key z))))
           (\<lambda>p. Ret \<lparr>RandNu = random rnd (length data), Payload = p\<rparr>), c\<lparr>inp := q\<rparr>)"
    using assms(6) by (rule protocol_ReadFull_frame)
  then show thesis
    unfolding rot.open_body [OF assms(1) z(1)] random_def by (intro that) simp_all
qed

text \<open>A stream that ends inside a packet: the error at its end, or no return.\<close>

lemma ReadFull_starves:
  assumes "length body \<le> maxByte" and "k < headerLen + length body" and "stream c = take k (frame n body)"
    and "\<not> closed c"
  shows "protocol_ReadFull sn key c = (case rend c of
      AtEOF \<Rightarrow> Some (Fail (if k = 0 \<or> k = headerLen then EOF else UnexpectedEOF), c\<lparr>inp := []\<rparr>)
    | AtErr m \<Rightarrow> Some (Fail (NetErr m), c\<lparr>inp := []\<rparr>)
    | Silent \<Rightarrow> None)"
proof (cases "k < headerLen")
  case True
  moreover have "frame n body \<noteq> []"
    by (auto simp: frame_def putUint32_def)
  ultimately have "length (stream c) < headerLen" "stream c = [] \<longleftrightarrow> k = 0"
    unfolding assms(3) by (auto simp: headerLen_def)
  then show ?thesis
    using io_ReadFull_starves [of c headerLen] assms(4) True
    by (auto simp: protocol_ReadFull_def end_error_def split: rd_end.splits)
next
  case False
  have len: "length body < 2 ^ 32"
    using assms(1) by (simp add: maxByte_def)
  have hd: "take headerLen (stream c) = take headerLen (frame n body @ [])"
    using False assms(3) by (simp add: min_def)
  have "headerLen \<le> length (stream c)"
    using False assms(2,3) by simp
  then obtain q where r: "io_ReadFull headerLen c = Some (Ret (take headerLen (stream c)), c\<lparr>inp := q\<rparr>)"
    and "concat q = drop headerLen (stream c)"
    using io_ReadFull_delivers assms(4) by blast
  then have q: "concat q = take (k - headerLen) body"
    using assms(3) by (simp add: drop_take)
  have "io_ReadFull (length body) (c\<lparr>inp := q\<rparr>) =
      (case end_error (take (k - headerLen) body) (rend c) of None \<Rightarrow> None | Some e \<Rightarrow> Some (Fail e, c\<lparr>inp := []\<rparr>))"
    using io_ReadFull_starves [of "c\<lparr>inp := q\<rparr>" "length body"] q assms(2,4) False
    by (simp cong: option.case_cong)
  moreover have "take (k - headerLen) body = [] \<longleftrightarrow> k = headerLen"
    using False assms(2) by auto
  moreover have "unat (getUint32 (take 4 (take headerLen (stream c)))) = length body"
    using frame_header(1) [OF len, of n "[]"] hd by simp
  moreover have "k \<noteq> 0"
    using False by (auto simp: headerLen_def)
  ultimately show ?thesis
    using r assms(1)
    by (simp add: protocol_ReadFull_def Let_def end_error_def split: rd_end.splits del: take_take)
qed

section \<open>Properties\<close>

text \<open>C5. With snappy behaving as documented, a non-empty token and a compressed body of at most
  2^24 bytes, Encode succeeds and ReadFull returns the original bytes and noise number from any
  connection whose stream starts with the packet, however TCP cut it into segments; exactly the
  packet's bytes are consumed, so the next packet is read from its first byte.\<close>

theorem ReadFull_Encode:
  assumes "snappy_ok sn" and "key \<noteq> []" and "data \<noteq> []" and "rnd < 99"
    and "\<And>z. Zip sn data = Ret z \<Longrightarrow> length z \<le> maxByte"
  shows "\<exists>pkt. Encode rnd sn key data = Ret pkt \<and>
    (\<forall>c rest. stream c = pkt @ rest \<and> \<not> closed c \<longrightarrow>
       (\<exists>q. concat q = rest \<and> protocol_ReadFull sn key c =
          Some (Ret \<lparr>RandNu = length data mod (rnd + 1), Payload = data\<rparr>, c\<lparr>inp := q\<rparr>)))"
proof -
  obtain pkt where pkt: "Encode rnd sn key data = Ret pkt" "packet_of sn key rnd data pkt"
    using Encode_packet_of [OF assms(1-3,5)] by blast
  then show ?thesis
    using ReadFull_packet_of [OF assms(1,2,4) pkt(2)] by blast
qed

theorem ReadFull_Encode_witness:
  "\<exists>pkt. Encode 10 stored_snappy [7, 200] [1, 2, 3] = Ret pkt \<and>
    (\<forall>c rest. stream c = pkt @ rest \<and> \<not> closed c \<longrightarrow>
       (\<exists>q. concat q = rest \<and> protocol_ReadFull stored_snappy [7, 200] (c :: conn) =
          Some (Ret \<lparr>RandNu = 3, Payload = [1, 2, 3]\<rparr>, c\<lparr>inp := q\<rparr>)))"
  using ReadFull_Encode [OF stored_snappy_ok, of "[7, 200]" "[1, 2, 3]" 10]
  by (simp add: Zip_def stored_snappy_def maxByte_def)

text \<open>A header that announces a body of more than 2^24 bytes is refused before anything is
  allocated or read for the body: exactly the 6 header bytes are consumed.\<close>

theorem ReadFull_too_large:
  assumes "headerLen \<le> length (stream c)" and "\<not> closed c"
    and "maxByte < unat (getUint32 (take 4 (stream c)))"
  shows "\<exists>q. protocol_ReadFull sn key c = Some (Fail ErrTooLargePacket, c\<lparr>inp := q\<rparr>) \<and>
    concat q = drop headerLen (stream c)"
proof -
  obtain q where "io_ReadFull headerLen c = Some (Ret (take headerLen (stream c)), c\<lparr>inp := q\<rparr>)"
    and "concat q = drop headerLen (stream c)"
    using io_ReadFull_delivers [OF assms(1,2)] by blast
  then show ?thesis
    using assms(3) by (intro exI [of _ q]) (simp add: protocol_ReadFull_def headerLen_def)
qed

theorem ReadFull_too_large_witness:
  "\<exists>q. protocol_ReadFull stored_snappy [7]
       \<lparr>inp = [[2, 0], [0, 0, 0, 0, 9]], rend = AtEOF, outp = [], wfail = None, closed = False, raddr = []\<rparr> =
     Some (Fail ErrTooLargePacket, \<lparr>inp = q, rend = AtEOF, outp = [], wfail = None, closed = False, raddr = []\<rparr>) \<and>
     concat q = [9]"
  using ReadFull_too_large [of "\<lparr>inp = [[2, 0], [0, 0, 0, 0, 9]], rend = AtEOF, outp = [], wfail = None,
      closed = False, raddr = []\<rparr>" stored_snappy "[7]"]
  by (simp add: headerLen_def maxByte_def)

text \<open>C35. A connection that ends inside a packet never yields a packet: at end of file the error is
  \<open>io.EOF\<close> at a boundary (before the header or right behind it) and \<open>io.ErrUnexpectedEOF\<close>
  elsewhere, a socket error is passed on, and on a connection that stays open and silent the
  call does not return.\<close>

theorem ReadFull_truncated:
  assumes "length body \<le> maxByte" and "k < headerLen + length body" and "stream c = take k (frame n body)"
    and "\<not> closed c"
  shows "protocol_ReadFull sn key c = (case rend c of
      AtEOF \<Rightarrow> Some (Fail (if k = 0 \<or> k = headerLen then EOF else UnexpectedEOF), c\<lparr>inp := []\<rparr>)
    | AtErr m \<Rightarrow> Some (Fail (NetErr m), c\<lparr>inp := []\<rparr>)
    | Silent \<Rightarrow> None)"
  using assms by (rule ReadFull_starves)

theorem ReadFull_truncated_witness:
  "protocol_ReadFull stored_snappy [7]
     \<lparr>inp = [[0, 0, 0], [2, 0, 5, 9]], rend = AtEOF, outp = [], wfail = None, closed = False, raddr = []\<rparr> =
   Some (Fail UnexpectedEOF, \<lparr>inp = [], rend = AtEOF, outp = [], wfail = None, closed = False, raddr = []\<rparr>)"
  using ReadFull_truncated [of "[9, 9]" 7 "\<lparr>inp = [[0, 0, 0], [2, 0, 5, 9]], rend = AtEOF, outp = [],
      wfail = None, closed = False, raddr = []\<rparr>" 5 stored_snappy "[7]"]
  by (simp add: headerLen_def maxByte_def frame_def putUint32_def putUint16_def)

text \<open>A server or client whose token is empty panics on the first complete packet anybody sends,
  whatever its contents.\<close>

theorem ReadFull_empty_token:
  assumes "headerLen \<le> length (stream c)" and "\<not> closed c"
    and "bodyLen = unat (getUint32 (take 4 (stream c)))"
    and "bodyLen \<le> maxByte" and "headerLen + bodyLen \<le> length (stream c)"
  shows "\<exists>c'. protocol_ReadFull sn [] c = Some (Panic, c')"
proof -
  obtain q where r1: "io_ReadFull headerLen c = Some (Ret (take headerLen (stream c)), c\<lparr>inp := q\<rparr>)"
    and q: "concat q = drop headerLen (stream c)"
    using io_ReadFull_delivers [OF assms(1,2)] by blast
  have "bodyLen \<le> length (stream (c\<lparr>inp := q\<rparr>))" and "\<not> closed (c\<lparr>inp := q\<rparr>)"
    using q assms(2,5) by simp_all
  then obtain q' where r2: "io_ReadFull bodyLen (c\<lparr>inp := q\<rparr>) =
      Some (Ret (take bodyLen (stream (c\<lparr>inp := q\<rparr>))), c\<lparr>inp := q\<rparr>\<lparr>inp := q'\<rparr>)"
    by (rule io_ReadFull_delivers)
  have "unat (getUint32 (take 4 (take headerLen (stream c)))) = bodyLen"
    using assms(3) by (simp add: headerLen_def)
  then show ?thesis
    using r1 r2 assms(4)
    by (simp add: protocol_ReadFull_def Let_def new_slice_def Decrypt_def decrypt_def complete_empty_key)
qed

theorem ReadFull_empty_token_witness:
  "\<exists>c'. protocol_ReadFull stored_snappy []
     \<lparr>inp = [[0, 0, 0, 0], [0, 0]], rend = Silent, outp = [], wfail = None, closed = False, raddr = []\<rparr> = Some (Panic, c')"
  by (rule ReadFull_empty_token [of _ 0]) (simp_all add: headerLen_def maxByte_def)

text \<open>UnPack on a buffer and ReadFull on a connection agree: a buffer that starts with a packet
  (of at most 2^24 body bytes) and a connection that delivers the same bytes give the same packet or the
  same error.\<close>

theorem UnPack_ReadFull:
  assumes "key \<noteq> []" and "valid_slice st buf" and "n < 2 ^ 16" and "length body \<le> maxByte"
    and "slice_bytes st buf = frame n body @ rest"
    and "stream c = slice_bytes st buf" and "\<not> closed c"
  shows "\<exists>c'. protocol_ReadFull sn key c = Some (fst (UnPack sn key buf st), c') \<and> stream c' = rest"
proof -
  have "stream c = frame n body @ rest"
    using assms by simp
  with assms(1) obtain q where "concat q = rest" and "protocol_ReadFull sn key c =
     Some (bind_res (Unzip sn (Some (rot_dec key body))) (\<lambda>p. Ret \<lparr>RandNu = n, Payload = p\<rparr>), c\<lparr>inp := q\<rparr>)"
    using assms(3,4,7) by (rule protocol_ReadFull_frame)
  moreover have "length body < 2 ^ 32"
    using assms(4) by (simp add: maxByte_def)
  ultimately show ?thesis
    using UnPack_frame(1) [OF assms(1-3,5)] by simp
qed

theorem UnPack_ReadFull_witness:
  "\<exists>c'. protocol_ReadFull stored_snappy [7]
       \<lparr>inp = [frame 3 [9], [1, 2]], rend = AtEOF, outp = [], wfail = None, closed = False, raddr = []\<rparr> =
     Some (fst (UnPack stored_snappy [7] \<lparr>saddr = 0, soff = 0, slen = 9, scap = 9\<rparr> [frame 3 [9] @ [1, 2]]), c') \<and>
     stream c' = [1, 2]"
  by (rule UnPack_ReadFull [of _ _ _ 3 "[9]"])
    (simp_all add: valid_slice_def slice_bytes_def maxByte_def, simp_all add: headerLen_def)

text \<open>UnPack damages the buffer behind the packet it opens. When the body is not a multiple of
  the token length, the padding is appended in place, over the bytes that follow the packet:
  the first bytes of a second packet in the same buffer are replaced by zeros.\<close>

theorem UnPack_overwrites_next:
  assumes "key \<noteq> []" and "valid_slice st buf" and "n < 2 ^ 16" and "length body < 2 ^ 32"
    and "slice_bytes st buf = frame n body @ rest"
    and "length body mod length key \<noteq> 0" and "pad_len (length body) (length key) \<le> length rest"
    and "i < pad_len (length body) (length key)"
  shows "slice_bytes (snd (UnPack sn key buf st)) buf ! (headerLen + length body + i) = 0"
proof -
  let ?m = "headerLen + length body" let ?w = "subslice buf headerLen ?m"
  have slen: "slen buf = ?m + length rest"
    using length_slice_bytes [OF assms(2)] assms(5) by simp
  then have w: "valid_slice st ?w" "slen ?w = length body" "saddr ?w = saddr buf" "soff ?w = soff buf + headerLen"
    using assms(2) valid_subslice [of st buf headerLen ?m] by (simp_all add: subslice_def)
  obtain st1 s1 where p: "padded (length key) ?w st = (st1, s1)"
    by fastforce
  have cap: "slen ?w + pad_len (slen ?w) (length key) \<le> scap ?w"
    using assms(2,7) slen w(2) by (auto simp: subslice_def valid_slice_def)
  note al = padded_aliases [OF w(1) p cap] and sp = padded_spec [OF w(1) p]
  let ?st = "st1[saddr s1 := overlay (st1 ! saddr s1) (soff s1)
      (map (\<lambda>p. byte_shl (key_shift key p) (slice_get st1 s1 p)) [0..<slen s1])]"
  have fin: "snd (UnPack sn key buf st) = ?st"
    using UnPack_frame(2) [OF assms(1-3,5,4)] Decrypt_eq [OF assms(1) w(1) p] by simp
  have len1: "soff s1 + slen s1 \<le> length (st1 ! saddr s1)" "saddr s1 < length st1"
    using sp(1) by (auto simp: valid_slice_def)
  have i: "length body + i < slen s1"
    using sp(2) w(2) assms(8) by simp
  have "slice_get st1 s1 (length body + i) = 0"
    using nth_slice_bytes [OF sp(1) i] sp(3) w(1,2) assms(8) by (simp add: nth_append)
  then have "slice_get ?st buf (?m + i) = 0"
    using i len1 al w(3,4) by (simp add: slice_get_def nth_overlay add.assoc)
  moreover have "valid_slice ?st buf"
    using assms(2) al w(3) len1 padded_array(3) [OF w(1) p] by (simp add: valid_slice_def)
  ultimately show ?thesis
    using nth_slice_bytes [of ?st buf "?m + i"] fin slen assms(7,8) by simp
qed

theorem UnPack_overwrites_next_witness:
  "slice_bytes (snd (UnPack stored_snappy [7, 7, 7] \<lparr>saddr = 0, soff = 0, slen = 9, scap = 9\<rparr> [frame 3 [9] @ [1, 2]]))
     \<lparr>saddr = 0, soff = 0, slen = 9, scap = 9\<rparr> ! 8 = 0"
proof -
  have "slice_bytes (snd (UnPack stored_snappy [7, 7, 7] \<lparr>saddr = 0, soff = 0, slen = 9, scap = 9\<rparr>
      [frame 3 [9] @ [1, 2]])) \<lparr>saddr = 0, soff = 0, slen = 9, scap = 9\<rparr> ! (headerLen + length [9::byte] + 1) = 0"
    by (rule UnPack_overwrites_next [of _ _ _ 3 "[9]" "[1, 2]" 1])
      (simp_all add: valid_slice_def slice_bytes_def pad_len_def, simp_all add: headerLen_def)
  then show ?thesis
    by (simp add: headerLen_def)
qed

lemma keeps_protocol_ReadFull: "stable I \<Longrightarrow> keeps I (protocol_ReadFull sn key)"
proof -
  assume I: "stable I"
  have tail: "keeps I (\<lambda>c. Some (r c, c))" for r :: "'a conn_scheme \<Rightarrow> Packet res"
    by (auto simp: triple_def)
  show "keeps I (protocol_ReadFull sn key)"
    unfolding protocol_ReadFull_def Let_def split_beta
    by (rule triple_bind [where R = "\<lambda>_. I"] triple_if keeps_ReadFull [OF I] triple_fail tail | simp)+
qed

end
