(* ===== verification/Secure_TCP.thy ===== *)
theory Secure_TCP
  imports Protocol
begin

text \<open>
  \<^verbatim>\<open>internal/net/securetcp.go\<close> and the loops of \<^verbatim>\<open>internal/net/relay.go\<close>: packets written to and read from
  a connection, and the three loops that move a byte stream between two connections. A loop works
  on the reading side \<open>a\<close> and the writing side \<open>b\<close>; the number \<^verbatim>\<open>rand.Intn(99)\<close> of the i-th packet is \<open>rnd i\<close>.
\<close>

definition bufSize :: nat where
  "bufSize = 65536"

definition EncodeWrite :: "snappy \<Rightarrow> nat \<Rightarrow> bytes \<Rightarrow> bytes \<Rightarrow> (nat, 'z conn_scheme) io" where
  "EncodeWrite sn rnd token bs =
     (case Encode rnd sn token bs of
        Ret data \<Rightarrow> conn_Write data
      | Fail e \<Rightarrow> io_fail e
      | Panic \<Rightarrow> io_panic)"

type_synonym ('x, 'y) pump = "(unit res \<times> 'x conn_scheme \<times> 'y conn_scheme) option"

partial_function (option) EncodeCopy ::
    "snappy \<Rightarrow> (nat \<Rightarrow> nat) \<Rightarrow> bytes \<Rightarrow> nat \<Rightarrow> 'x conn_scheme \<Rightarrow> 'y conn_scheme \<Rightarrow> ('x, 'y) pump" where
  "EncodeCopy sn rnd token i a b =
     (case conn_Read bufSize a of
        None \<Rightarrow> None
      | Some ra \<Rightarrow>
          (case fst ra of
             Fail e \<Rightarrow> Some (if e = EOF then Ret () else Fail e, snd ra, b)
           | Panic \<Rightarrow> Some (Panic, snd ra, b)
           | Ret bs \<Rightarrow>
               if bs = [] then EncodeCopy sn rnd token i (snd ra) b
               else (case EncodeWrite sn (rnd i) token bs b of
                       None \<Rightarrow> None
                     | Some wb \<Rightarrow>
                         (case fst wb of
                            Ret _ \<Rightarrow> EncodeCopy sn rnd token (Suc i) (snd ra) (snd wb)
                          | Fail e \<Rightarrow> Some (Fail e, snd ra, snd wb)
                          | Panic \<Rightarrow> Some (Panic, snd ra, snd wb)))))"

text \<open>The second goroutine of \<^verbatim>\<open>(*Relay).forward\<close>: an error of either connection ends the loop.\<close>

partial_function (option) decode_loop ::
    "snappy \<Rightarrow> bytes \<Rightarrow> 'x conn_scheme \<Rightarrow> 'y conn_scheme \<Rightarrow> ('x, 'y) pump" where
  "decode_loop sn token a b =
     (case protocol_ReadFull sn token a of
        None \<Rightarrow> None
      | Some ra \<Rightarrow>
          (case fst ra of
             Fail e \<Rightarrow> Some (Ret (), snd ra, b)
           | Panic \<Rightarrow> Some (Panic, snd ra, b)
           | Ret pack \<Rightarrow>
               (case conn_Write (Payload pack) b of
                  None \<Rightarrow> None
                | Some wb \<Rightarrow>
                    (case fst wb of
                       Ret _ \<Rightarrow> decode_loop sn token (snd ra) (snd wb)
                     | Fail e \<Rightarrow> Some (Ret (), snd ra, snd wb)
                     | Panic \<Rightarrow> Some (Panic, snd ra, snd wb)))))"

text \<open>\<^verbatim>\<open>io.Copy\<close>, the loop of both goroutines of \<^verbatim>\<open>(*Relay).direct\<close>: a buffer of 32 KiB.\<close>

partial_function (option) io_Copy :: "'x conn_scheme \<Rightarrow> 'y conn_scheme \<Rightarrow> ('x, 'y) pump" where
  "io_Copy a b =
     (case conn_Read 32768 a of
        None \<Rightarrow> None
      | Some ra \<Rightarrow>
          (case fst ra of
             Fail e \<Rightarrow> Some (if e = EOF then Ret () else Fail e, snd ra, b)
           | Panic \<Rightarrow> Some (Panic, snd ra, b)
           | Ret bs \<Rightarrow>
               if bs = [] then io_Copy (snd ra) b
               else (case conn_Write bs b of
                       None \<Rightarrow> None
                     | Some wb \<Rightarrow>
                         (case fst wb of
                            Ret _ \<Rightarrow> io_Copy (snd ra) (snd wb)
                          | Fail e \<Rightarrow> Some (Fail e, snd ra, snd wb)
                          | Panic \<Rightarrow> Some (Panic, snd ra, snd wb)))))"

section \<open>What the loops deliver\<close>

text \<open>A connection that can be written to.\<close>

definition writable :: "'z conn_scheme \<Rightarrow> bool" where
  "writable c \<longleftrightarrow> \<not> closed c \<and> wfail c = None"

lemma writable_Write [simp]:
  "writable b \<Longrightarrow> conn_Write bs b = Some (Ret (length bs), b\<lparr>outp := outp b @ bs\<rparr>)"
  "writable b \<Longrightarrow> writable (b\<lparr>outp := o'\<rparr>)"
  by (simp_all add: writable_def conn_Write_def)

text \<open>A list of packets with the payloads they carry.\<close>

definition packets :: "snappy \<Rightarrow> bytes \<Rightarrow> (bytes \<times> bytes) list \<Rightarrow> bool" where
  "packets sn token ps \<longleftrightarrow> (\<forall>(pkt, data) \<in> set ps. \<exists>r < 99. packet_of sn token r data pkt)"

text \<open>Compression does not blow a buffer of the relay up beyond the limit of a packet.\<close>

definition fits_packet :: "snappy \<Rightarrow> bool" where
  "fits_packet sn \<longleftrightarrow> (\<forall>d z. length d \<le> bufSize \<longrightarrow> Zip sn d = Ret z \<longrightarrow> length z \<le> maxByte)"

lemma EncodeWrite_ok:
  assumes "snappy_ok sn" and "token \<noteq> []" and "fits_packet sn" and "bs \<noteq> []" and "length bs \<le> bufSize" and "writable b"
  obtains pkt where "packet_of sn token r bs pkt"
    and "EncodeWrite sn r token bs b = Some (Ret (length pkt), b\<lparr>outp := outp b @ pkt\<rparr>)"
proof -
  obtain pkt where "Encode r sn token bs = Ret pkt" "packet_of sn token r bs pkt"
    using Encode_packet_of [OF assms(1,2,4)] assms(3,5) by (metis fits_packet_def)
  with assms(6) show thesis
    by (intro that) (simp_all add: EncodeWrite_def)
qed

text \<open>One read of a loop: everything is read at last.\<close>

lemma conn_Read_cases:
  assumes "\<not> closed a" and "0 < n"
  obtains "inp a = []"
  | bs q where "conn_Read n a = Some (Ret bs, a\<lparr>inp := q\<rparr>)" and "stream a = bs @ concat q" and "length bs \<le> n"
      and "length (concat q) + length q < length (stream a) + length (inp a)"
proof (cases "inp a")
  case (Cons seg rest)
  show thesis
  proof (cases "length seg \<le> n")
    case True
    then show thesis
      using Cons assms by (intro that(2) [of seg rest]) (simp_all add: conn_Read_def)
  next
    case False
    then show thesis
      using Cons assms by (intro that(2) [of "take n seg" "drop n seg # rest"]) (simp_all add: conn_Read_def)
  qed
qed (rule that(1))

lemma EncodeCopy_delivers:
  assumes env: "snappy_ok sn" "token \<noteq> []" "fits_packet sn" "\<And>i. rnd i < 99"
    and "\<not> closed a" and "rend a = AtEOF" and "writable b"
  shows "\<exists>ps. packets sn token ps \<and> concat (map snd ps) = stream a \<and>
    EncodeCopy sn rnd token i a b = Some (Ret (), a\<lparr>inp := []\<rparr>, b\<lparr>outp := outp b @ concat (map fst ps)\<rparr>)"
  using assms(5-7)
proof (induction "length (stream a) + length (inp a)" arbitrary: a b i rule: less_induct)
  case less
  have "0 < bufSize"
    by (simp add: bufSize_def)
  from less.prems(1) this show ?case
  proof (cases rule: conn_Read_cases)
    case 1
    then have "conn_Read bufSize a = Some (Fail EOF, a\<lparr>inp := []\<rparr>)"
      using less.prems by (simp add: conn_Read_def bufSize_def)
    then show ?thesis
      using 1 by (intro exI [of _ "[]"]) (subst EncodeCopy.simps, simp add: packets_def)
  next
    case (2 bs q)
    note IH = less.hyps [of "a\<lparr>inp := q\<rparr>"]
    show ?thesis
    proof (cases "bs = []")
      case True
      then show ?thesis
        using 2 IH [of b i] less.prems by (subst EncodeCopy.simps) simp
    next
      case False
      obtain pkt where pkt: "packet_of sn token (rnd i) bs pkt"
        and w: "EncodeWrite sn (rnd i) token bs b = Some (Ret (length pkt), b\<lparr>outp := outp b @ pkt\<rparr>)"
        using EncodeWrite_ok [OF env(1-3) False 2(3) less.prems(3)] by blast
      obtain ps where ps: "packets sn token ps" "concat (map snd ps) = concat q"
        "EncodeCopy sn rnd token (Suc i) (a\<lparr>inp := q\<rparr>) (b\<lparr>outp := outp b @ pkt\<rparr>) =
          Some (Ret (), a\<lparr>inp := []\<rparr>, b\<lparr>outp := (outp b @ pkt) @ concat (map fst ps)\<rparr>)"
        using IH [of "b\<lparr>outp := outp b @ pkt\<rparr>" "Suc i"] 2 less.prems by auto
      have "packets sn token ((pkt, bs) # ps)"
        using ps(1) pkt env(4) [of i] by (auto simp: packets_def)
      then show ?thesis
        using ps(2,3) 2 False w by (intro exI [of _ "(pkt, bs) # ps"]) (subst EncodeCopy.simps, simp)
    qed
  qed
qed

lemma decode_loop_delivers:
  assumes env: "snappy_ok sn" "token \<noteq> []"
    and "packets sn token ps" and "stream a = concat (map fst ps)" and "\<not> closed a" and "rend a = AtEOF" and "writable b"
  shows "\<exists>q. concat q = [] \<and>
    decode_loop sn token a b = Some (Ret (), a\<lparr>inp := q\<rparr>, b\<lparr>outp := outp b @ concat (map snd ps)\<rparr>)"
  using assms(3-7)
proof (induction ps arbitrary: a b)
  case Nil
  then have str: "stream a = []"
    by simp
  have "length (stream a) < headerLen"
    unfolding str by (simp add: headerLen_def)
  from io_ReadFull_starves [OF this Nil.prems(3)] have "io_ReadFull headerLen a = Some (Fail EOF, a\<lparr>inp := []\<rparr>)"
    using str Nil.prems(4) by (simp add: end_error_def)
  then have "protocol_ReadFull sn token a = Some (Fail EOF, a\<lparr>inp := []\<rparr>)"
    by (simp add: protocol_ReadFull_def)
  then show ?case
    by (intro exI [of _ "[]"]) (subst decode_loop.simps, simp)
next
  case (Cons p ps)
  obtain pkt data r where p: "p = (pkt, data)" and r: "r < 99" "packet_of sn token r data pkt"
    using Cons.prems(1) by (cases p) (auto simp: packets_def)
  obtain q where q: "concat q = concat (map fst ps)" and rd: "protocol_ReadFull sn token a =
      Some (Ret \<lparr>RandNu = length data mod (r + 1), Payload = data\<rparr>, a\<lparr>inp := q\<rparr>)"
    using ReadFull_packet_of [OF env r, of a "concat (map fst ps)"] Cons.prems p by auto
  obtain q' where "concat q' = []" and "decode_loop sn token (a\<lparr>inp := q\<rparr>) (b\<lparr>outp := outp b @ data\<rparr>) =
      Some (Ret (), a\<lparr>inp := q'\<rparr>, b\<lparr>outp := (outp b @ data) @ concat (map snd ps)\<rparr>)"
    using Cons.IH [of "a\<lparr>inp := q\<rparr>" "b\<lparr>outp := outp b @ data\<rparr>"] Cons.prems q by (auto simp: packets_def)
  then show ?case
    using rd p Cons.prems(5) by (intro exI [of _ q']) (subst decode_loop.simps, simp)
qed

lemma io_Copy_delivers:
  assumes "\<not> closed a" and "rend a = AtEOF" and "writable b"
  shows "io_Copy a b = Some (Ret (), a\<lparr>inp := []\<rparr>, b\<lparr>outp := outp b @ stream a\<rparr>)"
  using assms
proof (induction "length (stream a) + length (inp a)" arbitrary: a b rule: less_induct)
  case less
  have "0 < (32768 :: nat)"
    by simp
  with less.prems(1) show ?case
  proof (cases rule: conn_Read_cases)
    case 1
    then have "conn_Read 32768 a = Some (Fail EOF, a\<lparr>inp := []\<rparr>)"
      using less.prems by (simp add: conn_Read_def)
    then show ?thesis
      using 1 by (subst io_Copy.simps) simp
  next
    case (2 bs q)
    then show ?thesis
      using less.hyps [of "a\<lparr>inp := q\<rparr>" b] less.hyps [of "a\<lparr>inp := q\<rparr>" "b\<lparr>outp := outp b @ bs\<rparr>"] less.prems
      by (subst io_Copy.simps) simp
  qed
qed

section \<open>Properties\<close>

text \<open>C7. The tunnel is transparent: the bytes a client sends until it closes, read by the copying loop of
  one end in any segmentation, encoded packet by packet, carried to the other end in any other
  segmentation, and decoded there, are written to the target exactly and in order; both loops end.
  Snappy behaves as documented, the token is not empty, and the connections do not fail.\<close>

theorem tunnel_transparent:
  assumes "snappy_ok sn" and "token \<noteq> []" and "fits_packet sn" and "\<forall>i. rnd i < 99"
    and "\<not> closed client" and "rend client = AtEOF" and "writable hop1" and "outp hop1 = []" and "writable target"
  shows "\<exists>hop1'. EncodeCopy sn rnd token 0 client hop1 = Some (Ret (), client\<lparr>inp := []\<rparr>, hop1') \<and>
    (\<forall>hop2. stream hop2 = outp hop1' \<and> \<not> closed hop2 \<and> rend hop2 = AtEOF \<longrightarrow>
       (\<exists>q. decode_loop sn token hop2 target =
          Some (Ret (), hop2\<lparr>inp := q\<rparr>, target\<lparr>outp := outp target @ stream client\<rparr>)))"
proof -
  have rnd: "\<And>i. rnd i < 99"
    using assms(4) by blast
  obtain ps where ps: "packets sn token ps" "concat (map snd ps) = stream client"
    "EncodeCopy sn rnd token 0 client hop1 = Some (Ret (), client\<lparr>inp := []\<rparr>, hop1\<lparr>outp := outp hop1 @ concat (map fst ps)\<rparr>)"
    using EncodeCopy_delivers [where rnd = rnd and i = 0, OF assms(1-3) rnd assms(5-7)] by blast
  show ?thesis
  proof (intro exI [of _ "hop1\<lparr>outp := outp hop1 @ concat (map fst ps)\<rparr>"] conjI allI impI ps(3), elim conjE)
    fix hop2
    assume "stream hop2 = outp (hop1\<lparr>outp := outp hop1 @ concat (map fst ps)\<rparr>)" "\<not> closed hop2" "rend hop2 = AtEOF"
    with decode_loop_delivers [OF assms(1,2) ps(1), of hop2 target] assms(8,9)
    show "\<exists>q. decode_loop sn token hop2 target = Some (Ret (), hop2\<lparr>inp := q\<rparr>, target\<lparr>outp := outp target @ stream client\<rparr>)"
      by (auto simp: ps(2))
  qed
qed

definition idle_conn :: "bytes list \<Rightarrow> conn" where
  "idle_conn segs = \<lparr>inp = segs, rend = AtEOF, outp = [], wfail = None, closed = False, raddr = ''''\<rparr>"

lemma stored_fits: "fits_packet stored_snappy"
  by (auto simp: fits_packet_def Zip_def stored_snappy_def bufSize_def maxByte_def split: if_splits)

theorem tunnel_transparent_witness:
  "\<exists>hop1'. EncodeCopy stored_snappy (\<lambda>_. 5) [1, 2] 0 (idle_conn [[1, 2], [3]]) (idle_conn []) =
      Some (Ret (), idle_conn [], hop1') \<and>
    (\<exists>q t. decode_loop stored_snappy [1, 2] (idle_conn [outp hop1']) (idle_conn []) = Some (Ret (), idle_conn q, t) \<and>
       outp t = [1, 2, 3])"
proof -
  have "writable (idle_conn [])"
    by (simp add: writable_def idle_conn_def)
  then obtain hop1' where
    "EncodeCopy stored_snappy (\<lambda>_. 5) [1, 2] 0 (idle_conn [[1, 2], [3]]) (idle_conn []) =
      Some (Ret (), (idle_conn [[1, 2], [3]])\<lparr>inp := []\<rparr>, hop1')"
    and dec: "\<forall>hop2 :: conn. stream hop2 = outp hop1' \<and> \<not> closed hop2 \<and> rend hop2 = AtEOF \<longrightarrow>
       (\<exists>q. decode_loop stored_snappy [1, 2] hop2 (idle_conn []) =
          Some (Ret (), hop2\<lparr>inp := q\<rparr>, (idle_conn [])\<lparr>outp := outp (idle_conn []) @ stream (idle_conn [[1, 2], [3]])\<rparr>))"
    using tunnel_transparent [OF stored_snappy_ok _ stored_fits, of "[1, 2]" "\<lambda>_. 5" "idle_conn [[1, 2], [3]]"
        "idle_conn []" "idle_conn []"] by (auto simp: idle_conn_def)
  then show ?thesis
    using dec [rule_format, of "idle_conn [outp hop1']"] by (auto simp: idle_conn_def)
qed

end
