(* ===== verification/Buf_Conn.thy ===== *)
theory Buf_Conn
  imports Mixed Secure_TCP
begin

text \<open>
  \<^verbatim>\<open>internal/net/bufconn.go\<close>: a connection with the buffered reader of \<^verbatim>\<open>bufio\<close> in front of it.

  The handlers of the front ends are modelled on a plain \<open>conn\<close> with \<open>buf_Peek1\<close>. This theory models the buffered connection
  itself, with the buffer of 4096 bytes, its read position, the error that is kept for the next call and the last byte
  for \<^verbatim>\<open>UnreadByte\<close>, and shows that the plain connection is what it looks like (\<open>unbuffer\<close>). \<open>b_buf\<close> is the unread part of the
  buffer and \<open>b_r\<close> the position where it starts.
\<close>

record bconn = conn +
  b_buf :: bytes
  b_r :: nat
  b_err :: "goerr option"
  lastByte :: "byte option"

definition defaultBufSize :: nat where
  "defaultBufSize = 4096"

definition maxConsecutiveEmptyReads :: nat where
  "maxConsecutiveEmptyReads = 100"

definition ErrInvalidUnreadByte :: goerr where
  "ErrInvalidUnreadByte = ErrNew ''bufio: invalid use of UnreadByte''"

definition ErrBufferFull :: goerr where
  "ErrBufferFull = ErrNew ''bufio: buffer full''"

definition ErrNoProgress :: goerr where
  "ErrNoProgress = ErrNew ''multiple Read calls return no data or error''"

section \<open>The operations\<close>

definition bufio_NewReader :: "conn \<Rightarrow> bconn" where
  "bufio_NewReader c = conn.extend c \<lparr>b_buf = [], b_r = 0, b_err = None, lastByte = None\<rparr>"

datatype netconn = NetConn conn | BufferedConn bconn

definition NewBufferedConn :: "netconn \<Rightarrow> bconn" where
  "NewBufferedConn c = (case c of BufferedConn bc \<Rightarrow> bc | NetConn c \<Rightarrow> bufio_NewReader c)"

definition buf_readErr :: "(bytes, bconn) io" where
  "buf_readErr c = Some (case b_err c of None \<Rightarrow> Ret [] | Some e \<Rightarrow> Fail e, c\<lparr>b_err := None\<rparr>)"

fun fill_reads :: "nat \<Rightarrow> bconn \<Rightarrow> bconn option" where
  "fill_reads 0 c = Some (c\<lparr>b_err := Some ErrNoProgress\<rparr>)"
| "fill_reads (Suc k) c =
     (case conn_Read (defaultBufSize - length (b_buf c)) c of
        None \<Rightarrow> None
      | Some (Ret bs, c) \<Rightarrow> if bs = [] then fill_reads k c else Some (c\<lparr>b_buf := b_buf c @ bs\<rparr>)
      | Some (Fail e, c) \<Rightarrow> Some (c\<lparr>b_err := Some e\<rparr>)
      | Some (Panic, c) \<Rightarrow> None)"

definition buf_fill :: "bconn \<Rightarrow> bconn option" where
  "buf_fill c = fill_reads maxConsecutiveEmptyReads (c\<lparr>b_r := 0\<rparr>)"

text \<open>\<^verbatim>\<open>copy(p, b.buf[b.r:b.w])\<close> into a slice of length \<open>n\<close>.\<close>

definition take_buffered :: "nat \<Rightarrow> (bytes, bconn) io" where
  "take_buffered n c =
     (let bs = take n (b_buf c)
      in Some (Ret bs, c\<lparr>b_buf := drop n (b_buf c), b_r := b_r c + length bs, lastByte := Some (last bs)\<rparr>))"

definition BufferedConn_Read :: "nat \<Rightarrow> (bytes, bconn) io" where
  "BufferedConn_Read n c =
     (if n = 0 then (if b_buf c \<noteq> [] then Some (Ret [], c) else buf_readErr c)
      else if b_buf c \<noteq> [] then take_buffered n c
      else if b_err c \<noteq> None then buf_readErr c
      else if defaultBufSize \<le> n then
        (case conn_Read n c of
           Some (Ret bs, c) \<Rightarrow> Some (Ret bs, if bs = [] then c else c\<lparr>lastByte := Some (last bs)\<rparr>)
         | r \<Rightarrow> r)
      else
        (case conn_Read defaultBufSize (c\<lparr>b_r := 0\<rparr>) of
           Some (Ret bs, c) \<Rightarrow> if bs = [] then Some (Ret [], c) else take_buffered n (c\<lparr>b_buf := bs\<rparr>)
         | r \<Rightarrow> r))"

partial_function (option) peek_loop :: "nat \<Rightarrow> bconn \<Rightarrow> bconn option" where
  "peek_loop n c =
     (if length (b_buf c) < n \<and> length (b_buf c) < defaultBufSize \<and> b_err c = None
      then (case buf_fill c of None \<Rightarrow> None | Some c \<Rightarrow> peek_loop n c)
      else Some c)"

definition BufferedConn_Peek :: "nat \<Rightarrow> (bytes, bconn) io" where
  "BufferedConn_Peek n c =
     (case peek_loop n (c\<lparr>lastByte := None\<rparr>) of
        None \<Rightarrow> None
      | Some c \<Rightarrow>
          if defaultBufSize < n then Some (Fail ErrBufferFull, c)
          else if length (b_buf c) < n then
            Some (Fail (case b_err c of None \<Rightarrow> ErrBufferFull | Some e \<Rightarrow> e), c\<lparr>b_err := None\<rparr>)
          else Some (Ret (take n (b_buf c)), c))"

partial_function (option) BufferedConn_ReadByte :: "bconn \<Rightarrow> (byte res \<times> bconn) option" where
  "BufferedConn_ReadByte c =
     (case b_buf c of
        x # rest \<Rightarrow> Some (Ret x, c\<lparr>b_buf := rest, b_r := b_r c + 1, lastByte := Some x\<rparr>)
      | [] \<Rightarrow>
          (case b_err c of
             Some e \<Rightarrow> Some (Fail e, c\<lparr>b_err := None\<rparr>)
           | None \<Rightarrow> (case buf_fill c of None \<Rightarrow> None | Some c \<Rightarrow> BufferedConn_ReadByte c)))"

definition BufferedConn_UnreadByte :: "(unit, bconn) io" where
  "BufferedConn_UnreadByte c =
     (case lastByte c of
        None \<Rightarrow> Some (Fail ErrInvalidUnreadByte, c)
      | Some x \<Rightarrow>
          if b_r c = 0 \<and> b_buf c \<noteq> [] then Some (Fail ErrInvalidUnreadByte, c)
          else Some (Ret (), c\<lparr>b_buf := x # b_buf c, b_r := b_r c - 1, lastByte := None\<rparr>))"

definition BufferedConn_Buffered :: "bconn \<Rightarrow> nat" where
  "BufferedConn_Buffered c = length (b_buf c)"

section \<open>The connection that a buffered connection looks like\<close>

definition unbuffer :: "bconn \<Rightarrow> conn" where
  "unbuffer c = \<lparr>inp = (if b_buf c = [] then inp c else b_buf c # inp c), rend = rend c, outp = outp c, wfail = wfail c,
     closed = closed c, raddr = raddr c\<rparr>"

text \<open>The segmentation of the input is arbitrary in this development, so that it is no restriction to take
  segments that are not empty and fit into the buffer.\<close>

definition buf_ok :: "bconn \<Rightarrow> bool" where
  "buf_ok c \<longleftrightarrow> \<not> closed c \<and> b_err c = None \<and> (\<forall>seg \<in> set (inp c). seg \<noteq> [] \<and> length seg \<le> defaultBufSize)"

lemma buf_ok_Read:
  assumes "buf_ok c" and "b_buf c = []" and "0 < n"
  shows "map_option (map_prod (\<lambda>x. x) unbuffer) (BufferedConn_Read n c) = conn_Read n (unbuffer c) \<and>
    (\<forall>x c'. BufferedConn_Read n c = Some (x, c') \<longrightarrow> buf_ok c')"
proof (cases "inp c")
  case Nil
  then show ?thesis
    using assms by (auto simp: BufferedConn_Read_def conn_Read_def unbuffer_def buf_ok_def defaultBufSize_def split: rd_end.splits)
next
  case (Cons seg rest)
  then show ?thesis
    using assms by (auto simp: BufferedConn_Read_def conn_Read_def unbuffer_def buf_ok_def take_buffered_def Let_def
        defaultBufSize_def)
qed

text \<open>A call of the buffered connection agrees with one of the plain connection: same result, and the connections left
  behind look the same.\<close>

definition agrees :: "('a, bconn) io \<Rightarrow> ('a, conn) io \<Rightarrow> bconn \<Rightarrow> bool" where
  "agrees f g c \<longleftrightarrow> map_option (map_prod (\<lambda>x. x) unbuffer) (f c) = g (unbuffer c) \<and> (\<forall>x c'. f c = Some (x, c') \<longrightarrow> buf_ok c')"

lemma Read_agrees:
  assumes "buf_ok c"
  shows "agrees (BufferedConn_Read n) (conn_Read n) c"
proof (cases "n = 0 \<or> b_buf c \<noteq> []")
  case True
  then show ?thesis
    using assms by (auto simp: agrees_def BufferedConn_Read_def buf_readErr_def conn_Read_def unbuffer_def buf_ok_def
        take_buffered_def Let_def)
next
  case False
  then show ?thesis
    unfolding agrees_def by (intro buf_ok_Read assms) simp_all
qed

text \<open>Filling an empty buffer takes one segment.\<close>

lemma buf_fill_ok:
  assumes "buf_ok c" and "b_buf c = []"
  shows "buf_fill c = (case inp c of
      seg # rest \<Rightarrow> Some (c\<lparr>inp := rest, b_buf := seg, b_r := 0\<rparr>)
    | [] \<Rightarrow> (case rend c of
               AtEOF \<Rightarrow> Some (c\<lparr>b_r := 0, b_err := Some EOF\<rparr>)
             | AtErr e \<Rightarrow> Some (c\<lparr>b_r := 0, b_err := Some (NetErr e)\<rparr>)
             | Silent \<Rightarrow> None))"
proof -
  have "fill_reads (Suc k) (c\<lparr>b_r := 0\<rparr>) = (case inp c of
      seg # rest \<Rightarrow> Some (c\<lparr>inp := rest, b_buf := seg, b_r := 0\<rparr>)
    | [] \<Rightarrow> (case rend c of
               AtEOF \<Rightarrow> Some (c\<lparr>b_r := 0, b_err := Some EOF\<rparr>)
             | AtErr e \<Rightarrow> Some (c\<lparr>b_r := 0, b_err := Some (NetErr e)\<rparr>)
             | Silent \<Rightarrow> None))" for k
    using assms by (auto simp: conn_Read_def buf_ok_def defaultBufSize_def split: list.splits rd_end.splits)
  from this [of 99] show ?thesis
    by (simp add: buf_fill_def maxConsecutiveEmptyReads_def)
qed

lemma peek_loop_done: "n \<le> length (b_buf c) \<or> b_err c \<noteq> None \<Longrightarrow> peek_loop n c = Some c"
  by (subst peek_loop.simps) auto

lemma Peek_agrees:
  assumes "buf_ok c"
  shows "agrees (io_bind (BufferedConn_Peek 1) (\<lambda>bs. io_ret (hd bs))) buf_Peek1 c"
proof (cases "b_buf c = []")
  case False
  then show ?thesis
    using assms peek_loop_done [of 1 "c\<lparr>lastByte := None\<rparr>"]
    by (cases "b_buf c") (simp_all add: agrees_def BufferedConn_Peek_def io_bind_def buf_Peek1_def unbuffer_def buf_ok_def defaultBufSize_def)
next
  case True
  let ?c = "c\<lparr>lastByte := None\<rparr>"
  have ok: "buf_ok ?c" "b_buf ?c = []" "b_err ?c = None"
    using assms True by (simp_all add: buf_ok_def)
  have loop: "peek_loop 1 ?c = (case buf_fill ?c of None \<Rightarrow> None | Some c \<Rightarrow> peek_loop 1 c)"
    using ok by (subst peek_loop.simps) (simp add: defaultBufSize_def)
  show ?thesis
  proof (cases "inp c")
    case Nil
    then show ?thesis
      using assms True loop buf_fill_ok [OF ok(1,2)] peek_loop_done [where n = 1]
      by (cases "rend c") (simp_all add: agrees_def BufferedConn_Peek_def io_bind_def buf_Peek1_def unbuffer_def buf_ok_def
          defaultBufSize_def)
  next
    case (Cons seg rest)
    moreover from this have "seg \<noteq> []"
      using assms by (simp add: buf_ok_def)
    ultimately show ?thesis
      using assms True loop buf_fill_ok [OF ok(1,2)] peek_loop_done [of 1 "c\<lparr>lastByte := None, inp := rest, b_buf := seg, b_r := 0\<rparr>"]
      by (cases seg) (simp_all add: agrees_def BufferedConn_Peek_def io_bind_def buf_Peek1_def unbuffer_def buf_ok_def
          defaultBufSize_def)
  qed
qed

lemma ReadByte_fill:
  "buf_ok c \<Longrightarrow> b_buf c = [] \<Longrightarrow>
     BufferedConn_ReadByte c = (case buf_fill c of None \<Rightarrow> None | Some c \<Rightarrow> BufferedConn_ReadByte c)"
  by (subst BufferedConn_ReadByte.simps) (simp add: buf_ok_def)

lemma ReadByte_err:
  "b_buf c = [] \<Longrightarrow> b_err c = Some e \<Longrightarrow> BufferedConn_ReadByte c = Some (Fail e, c\<lparr>b_err := None\<rparr>)"
  by (subst BufferedConn_ReadByte.simps) simp

lemma ReadByte_byte:
  "b_buf c = x # xs \<Longrightarrow> BufferedConn_ReadByte c = Some (Ret x, c\<lparr>b_buf := xs, b_r := b_r c + 1, lastByte := Some x\<rparr>)"
  by (subst BufferedConn_ReadByte.simps) simp

lemma ReadByte_agrees:
  assumes "buf_ok c"
  shows "agrees BufferedConn_ReadByte (io_bind (conn_Read 1) (\<lambda>bs. io_ret (hd bs))) c"
proof (cases "b_buf c")
  case (Cons x rest)
  then show ?thesis
    using assms by (auto simp: agrees_def ReadByte_byte conn_Read_def unbuffer_def buf_ok_def io_bind_def)
next
  case Nil
  show ?thesis
  proof (cases "inp c")
    case empty: Nil
    then show ?thesis
      unfolding agrees_def ReadByte_fill [OF assms Nil] buf_fill_ok [OF assms Nil]
      using assms Nil by (cases "rend c") (simp_all add: ReadByte_err conn_Read_def unbuffer_def buf_ok_def io_bind_def)
  next
    case (Cons seg rest)
    moreover from this obtain x xs where "seg = x # xs"
      using assms by (cases seg) (simp_all add: buf_ok_def)
    ultimately show ?thesis
      unfolding agrees_def ReadByte_fill [OF assms Nil] buf_fill_ok [OF assms Nil]
      using assms Nil by (auto simp: ReadByte_byte conn_Read_def unbuffer_def buf_ok_def io_bind_def)
  qed
qed

lemma Write_agrees: "buf_ok c \<Longrightarrow> agrees (conn_Write bs) (conn_Write bs) c"
  by (auto simp: agrees_def conn_Write_def unbuffer_def buf_ok_def split: option.splits)

section \<open>Runs\<close>

text \<open>What the front ends and the relay do with the connection, and the same calls on the plain connection of the models.\<close>

datatype buf_op = OpRead nat | OpPeek | OpReadByte | OpWrite bytes

definition buffered_op :: "buf_op \<Rightarrow> (bytes, bconn) io" where
  "buffered_op f =
     (case f of
        OpRead n \<Rightarrow> BufferedConn_Read n
      | OpPeek \<Rightarrow> io_bind (io_bind (BufferedConn_Peek 1) (\<lambda>bs. io_ret (hd bs))) (\<lambda>x. io_ret [x])
      | OpReadByte \<Rightarrow> io_bind BufferedConn_ReadByte (\<lambda>x. io_ret [x])
      | OpWrite bs \<Rightarrow> io_bind (conn_Write bs) (\<lambda>_. io_ret []))"

definition plain_op :: "buf_op \<Rightarrow> (bytes, conn) io" where
  "plain_op f =
     (case f of
        OpRead n \<Rightarrow> conn_Read n
      | OpPeek \<Rightarrow> io_bind buf_Peek1 (\<lambda>x. io_ret [x])
      | OpReadByte \<Rightarrow> io_bind (io_bind (conn_Read 1) (\<lambda>bs. io_ret (hd bs))) (\<lambda>x. io_ret [x])
      | OpWrite bs \<Rightarrow> io_bind (conn_Write bs) (\<lambda>_. io_ret []))"

fun run_ops :: "(buf_op \<Rightarrow> (bytes, 's) io) \<Rightarrow> buf_op list \<Rightarrow> 's \<Rightarrow> (bytes res list \<times> 's) option" where
  "run_ops call [] c = Some ([], c)"
| "run_ops call (f # fs) c =
     (case call f c of None \<Rightarrow> None | Some (x, c) \<Rightarrow> map_option (map_prod (Cons x) (\<lambda>c. c)) (run_ops call fs c))"

lemma agrees_bind: "agrees f g c \<Longrightarrow> agrees (io_bind f (\<lambda>x. io_ret (h x))) (io_bind g (\<lambda>x. io_ret (h x))) c"
  by (cases "f c"; cases "g (unbuffer c)") (auto simp: agrees_def io_bind_def split: res.splits)

lemma op_agrees: "buf_ok c \<Longrightarrow> agrees (buffered_op f) (plain_op f) c"
  by (cases f) (simp_all add: buffered_op_def plain_op_def Read_agrees agrees_bind Peek_agrees ReadByte_agrees Write_agrees
      del: One_nat_def)

lemma run_agrees:
  "buf_ok c \<Longrightarrow> map_option (map_prod (\<lambda>x. x) unbuffer) (run_ops buffered_op fs c) = run_ops plain_op fs (unbuffer c)"
proof (induction fs arbitrary: c)
  case (Cons f fs)
  have agree: "map_option (map_prod (\<lambda>x. x) unbuffer) (buffered_op f c) = plain_op f (unbuffer c)"
    and ok: "\<And>x c'. buffered_op f c = Some (x, c') \<Longrightarrow> buf_ok c'"
    using op_agrees [OF Cons.prems, of f] by (simp_all add: agrees_def)
  show ?case
  proof (cases "buffered_op f c")
    case None
    then show ?thesis
      using agree by (simp flip: agree)
  next
    case (Some r)
    obtain x c' where r: "buffered_op f c = Some (x, c')"
      using Some by (cases r) simp
    then have "plain_op f (unbuffer c) = Some (x, unbuffer c')"
      using agree by simp
    then show ?thesis
      using r Cons.IH [OF ok [OF r]] by (simp add: option.map_comp o_def map_prod_def split_beta flip: Cons.IH [OF ok [OF r]])
  qed
qed simp

section \<open>Properties\<close>

text \<open>C32. A buffered connection is invisible. Along every sequence of reads of any size, peeks, single bytes
  and writes, the connection wrapped by \<^verbatim>\<open>NewBufferedConn\<close> gives the results that the connection itself would give, hangs where it
  would hang, and looks like it afterwards, except that peeking works.\<close>

theorem buffered_conn_transparent:
  assumes "\<not> closed c" and "\<forall>seg \<in> set (inp c). seg \<noteq> [] \<and> length seg \<le> defaultBufSize"
  shows "map_option (map_prod (\<lambda>x. x) unbuffer) (run_ops buffered_op fs (NewBufferedConn (NetConn c))) = run_ops plain_op fs c"
proof -
  let ?b = "NewBufferedConn (NetConn c)"
  have "buf_ok ?b" "unbuffer ?b = c"
    using assms by (simp_all add: NewBufferedConn_def bufio_NewReader_def conn.extend_def buf_ok_def unbuffer_def)
  then show ?thesis
    using run_agrees by metis
qed

theorem buffered_conn_transparent_witness:
  "map_option fst (run_ops buffered_op [OpPeek, OpRead 2, OpReadByte, OpRead 9, OpRead 9] (NewBufferedConn (NetConn (idle_conn [[5, 1, 0], [5]])))) =
     Some [Ret [5], Ret [5, 1], Ret [0], Ret [5], Fail EOF]" (is "map_option fst ?r = _")
proof -
  have fst_of: "map_option fst (map_option (map_prod (\<lambda>x. x) unbuffer) r) = map_option fst r" for r :: "(bytes res list \<times> bconn) option"
    by (cases r) simp_all
  have "map_option (map_prod (\<lambda>x. x) unbuffer) ?r = run_ops plain_op [OpPeek, OpRead 2, OpReadByte, OpRead 9, OpRead 9] (idle_conn [[5, 1, 0], [5]])"
    by (rule buffered_conn_transparent) (simp_all add: idle_conn_def defaultBufSize_def)
  also have "\<dots> = Some ([Ret [5], Ret [5, 1], Ret [0], Ret [5], Fail EOF], idle_conn [])"
    by (simp add: plain_op_def io_bind_def buf_Peek1_def conn_Read_def idle_conn_def)
  finally have run: "map_option (map_prod (\<lambda>x. x) unbuffer) ?r = Some ([Ret [5], Ret [5, 1], Ret [0], Ret [5], Fail EOF], idle_conn [])" .
  show ?thesis
    using fst_of [of ?r] unfolding run by (simp del: run_ops.simps)
qed

text \<open>A byte that was read can be put back, once: the connection then looks as it did before.\<close>

lemma ReadByte_UnreadByte:
  assumes "buf_ok c" and "BufferedConn_ReadByte c = Some (Ret x, c')"
  shows "\<exists>c''. BufferedConn_UnreadByte c' = Some (Ret (), c'') \<and> unbuffer c'' = unbuffer c \<and>
    BufferedConn_UnreadByte c'' = Some (Fail ErrInvalidUnreadByte, c'')"
proof -
  obtain c1 xs where c1: "b_buf c1 = x # xs" "c' = c1\<lparr>b_buf := xs, b_r := b_r c1 + 1, lastByte := Some x\<rparr>" "unbuffer c1 = unbuffer c"
  proof (cases "b_buf c")
    case (Cons y ys)
    then show thesis
      using assms(2) that [of c ys] by (auto simp: ReadByte_byte)
  next
    case Nil
    note start = ReadByte_fill [OF assms(1) Nil] buf_fill_ok [OF assms(1) Nil]
    show thesis
    proof (cases "inp c")
      case (Cons seg rest)
      then obtain y ys where "seg = y # ys"
        using assms(1) by (cases seg) (simp_all add: buf_ok_def)
      then show thesis
        using assms(2) start Cons Nil that [of "c\<lparr>inp := rest, b_buf := seg, b_r := 0\<rparr>" ys] by (auto simp: ReadByte_byte unbuffer_def)
    next
      case empty: Nil
      then show thesis
        using assms(2) start Nil by (cases "rend c") (simp_all add: ReadByte_err)
    qed
  qed
  let ?c2 = "c1\<lparr>lastByte := None\<rparr>"
  have "BufferedConn_UnreadByte c' = Some (Ret (), ?c2)"
    using c1(1,2) by (simp add: BufferedConn_UnreadByte_def)
  moreover have "unbuffer ?c2 = unbuffer c1" "BufferedConn_UnreadByte ?c2 = Some (Fail ErrInvalidUnreadByte, ?c2)"
    by (simp_all add: unbuffer_def BufferedConn_UnreadByte_def)
  ultimately show ?thesis
    using c1(3) by auto
qed

end
