(* ===== verification/Buf_Pool.thy ===== *)
theory Buf_Pool
  imports Secure_TCP
begin

text \<open>
  The buffer pool of \<^verbatim>\<open>internal/net/securetcp.go\<close> and \<^verbatim>\<open>EncodeCopy\<close> with its buffer. The loop of \<open>Secure_TCP\<close> works on the bytes that a
  read returns; here the read writes into a buffer that comes from the pool with the bytes of
  other connections in it, and the loop encodes a slice of that buffer.
\<close>

type_synonym buf_pool = "bytes list"

definition pool_New :: bytes where
  "pool_New = replicate bufSize 0"

text \<open>\<^verbatim>\<open>sync.Pool.Get\<close> takes any buffer of the pool, or makes a new one.\<close>

definition bufferPoolGet :: "nat option \<Rightarrow> buf_pool \<Rightarrow> bytes \<times> buf_pool" where
  "bufferPoolGet pick pool =
     (case pick of
        Some i \<Rightarrow> if i < length pool then (pool ! i, take i pool @ drop (Suc i) pool) else (pool_New, pool)
      | None \<Rightarrow> (pool_New, pool))"

definition bufferPoolPut :: "bytes \<Rightarrow> buf_pool \<Rightarrow> buf_pool" where
  "bufferPoolPut b pool = b # pool"

text \<open>\<^verbatim>\<open>Read(buf)\<close>: the number of bytes read, and the buffer with these bytes at its front.\<close>

definition read_into :: "bytes \<Rightarrow> 'z conn_scheme \<Rightarrow> (nat res \<times> bytes \<times> 'z conn_scheme) option" where
  "read_into buf c =
     (case conn_Read (length buf) c of
        None \<Rightarrow> None
      | Some (Ret bs, c) \<Rightarrow> Some (Ret (length bs), bs @ drop (length bs) buf, c)
      | Some (Fail e, c) \<Rightarrow> Some (Fail e, buf, c)
      | Some (Panic, c) \<Rightarrow> Some (Panic, buf, c))"

partial_function (option) EncodeCopy_buf ::
    "snappy \<Rightarrow> (nat \<Rightarrow> nat) \<Rightarrow> bytes \<Rightarrow> nat \<Rightarrow> bytes \<Rightarrow> 'x conn_scheme \<Rightarrow> 'y conn_scheme \<Rightarrow>
     ((unit res \<times> 'x conn_scheme \<times> 'y conn_scheme) \<times> bytes) option" where
  "EncodeCopy_buf sn rnd token i buf a b =
     (case read_into buf a of
        None \<Rightarrow> None
      | Some (r, buf, a) \<Rightarrow>
          (case r of
             Fail e \<Rightarrow> Some ((if e = EOF then Ret () else Fail e, a, b), buf)
           | Panic \<Rightarrow> Some ((Panic, a, b), buf)
           | Ret readCount \<Rightarrow>
               if 0 < readCount
               then (case EncodeWrite sn (rnd i) token (take readCount buf) b of
                       None \<Rightarrow> None
                     | Some wb \<Rightarrow>
                         (case fst wb of
                            Ret _ \<Rightarrow> EncodeCopy_buf sn rnd token (Suc i) buf a (snd wb)
                          | Fail e \<Rightarrow> Some ((Fail e, a, snd wb), buf)
                          | Panic \<Rightarrow> Some ((Panic, a, snd wb), buf)))
               else EncodeCopy_buf sn rnd token i buf a b))"

definition EncodeCopy_pooled ::
    "snappy \<Rightarrow> (nat \<Rightarrow> nat) \<Rightarrow> bytes \<Rightarrow> nat option \<Rightarrow> buf_pool \<Rightarrow> 'x conn_scheme \<Rightarrow> 'y conn_scheme \<Rightarrow>
     ((unit res \<times> 'x conn_scheme \<times> 'y conn_scheme) \<times> buf_pool) option" where
  "EncodeCopy_pooled sn rnd token pick pool a b =
     (let (buf, pool) = bufferPoolGet pick pool
      in map_option (\<lambda>(r, buf). (r, bufferPoolPut buf pool)) (EncodeCopy_buf sn rnd token 0 buf a b))"

section \<open>The buffer does not show\<close>

definition pool_ok :: "buf_pool \<Rightarrow> bool" where
  "pool_ok pool \<longleftrightarrow> (\<forall>b \<in> set pool. length b = bufSize)"

lemma bufferPoolGet_ok:
  "pool_ok pool \<Longrightarrow> bufferPoolGet pick pool = (b, pool') \<Longrightarrow> length b = bufSize \<and> pool_ok pool'"
  by (auto simp: bufferPoolGet_def pool_ok_def pool_New_def split: option.splits if_splits; blast dest: in_set_takeD in_set_dropD)

lemma conn_Read_length: "conn_Read n c = Some (Ret bs, c') \<Longrightarrow> length bs \<le> n"
  by (auto simp: conn_Read_def split: if_splits list.splits rd_end.splits)

text \<open>One round with a buffer, in terms of the round without.\<close>

lemma EncodeCopy_buf_round:
  assumes "length buf = bufSize"
  shows "EncodeCopy_buf sn rnd token i buf a b =
     (case conn_Read bufSize a of
        None \<Rightarrow> None
      | Some (Fail e, a) \<Rightarrow> Some ((if e = EOF then Ret () else Fail e, a, b), buf)
      | Some (Panic, a) \<Rightarrow> Some ((Panic, a, b), buf)
      | Some (Ret bs, a) \<Rightarrow>
          if bs = [] then EncodeCopy_buf sn rnd token i buf a b
          else (case EncodeWrite sn (rnd i) token bs b of
                  None \<Rightarrow> None
                | Some (Ret _, b) \<Rightarrow> EncodeCopy_buf sn rnd token (Suc i) (bs @ drop (length bs) buf) a b
                | Some (Fail e, b) \<Rightarrow> Some ((Fail e, a, b), bs @ drop (length bs) buf)
                | Some (Panic, b) \<Rightarrow> Some ((Panic, a, b), bs @ drop (length bs) buf)))"
  using assms by (subst EncodeCopy_buf.simps) (auto simp: read_into_def split: option.splits res.splits)

lemma EncodeCopy_with_buf:
  assumes "EncodeCopy sn rnd token i a b = Some r"
  shows "\<forall>buf. length buf = bufSize \<longrightarrow> (\<exists>buf'. EncodeCopy_buf sn rnd token i buf a b = Some (r, buf') \<and> length buf' = bufSize)"
proof (rule EncodeCopy.raw_induct [OF _ assms])
  fix loop sn rnd token i and a :: "'a conn_scheme" and b :: "'b conn_scheme" and r
  assume IH: "\<And>sn rnd token i a b r. loop sn rnd token i a b = Some r \<Longrightarrow>
      \<forall>buf. length buf = bufSize \<longrightarrow> (\<exists>buf'. EncodeCopy_buf sn rnd token i buf a b = Some (r, buf') \<and> length buf' = bufSize)"
    and run: "(case conn_Read bufSize a of
        None \<Rightarrow> None
      | Some ra \<Rightarrow>
          (case fst ra of
             Fail e \<Rightarrow> Some (if e = EOF then Ret () else Fail e, snd ra, b)
           | Panic \<Rightarrow> Some (Panic, snd ra, b)
           | Ret bs \<Rightarrow>
               if bs = [] then loop sn rnd token i (snd ra) b
               else (case EncodeWrite sn (rnd i) token bs b of
                       None \<Rightarrow> None
                     | Some wb \<Rightarrow>
                         (case fst wb of
                            Ret _ \<Rightarrow> loop sn rnd token (Suc i) (snd ra) (snd wb)
                          | Fail e \<Rightarrow> Some (Fail e, snd ra, snd wb)
                          | Panic \<Rightarrow> Some (Panic, snd ra, snd wb))))) = Some r"
  show "\<forall>buf. length buf = bufSize \<longrightarrow> (\<exists>buf'. EncodeCopy_buf sn rnd token i buf a b = Some (r, buf') \<and> length buf' = bufSize)"
  proof (intro allI impI)
    fix buf :: bytes assume buf: "length buf = bufSize"
    note round = EncodeCopy_buf_round [OF buf, of sn rnd token i a b]
    obtain x a' where read: "conn_Read bufSize a = Some (x, a')"
      using run by (cases "conn_Read bufSize a") auto
    show "\<exists>buf'. EncodeCopy_buf sn rnd token i buf a b = Some (r, buf') \<and> length buf' = bufSize"
    proof (cases x)
      case (Ret bs)
      let ?buf = "bs @ drop (length bs) buf"
      have len: "length ?buf = bufSize"
        using conn_Read_length [OF read [unfolded Ret]] buf by simp
      show ?thesis
      proof (cases "bs = []")
        case True
        then show ?thesis
          using run read Ret round IH [of sn rnd token i a' b r] buf by simp
      next
        case False
        obtain y b' where wr: "EncodeWrite sn (rnd i) token bs b = Some (y, b')"
          using run read Ret False by (cases "EncodeWrite sn (rnd i) token bs b") auto
        then show ?thesis
          using run read Ret False round len IH [of sn rnd token "Suc i" a' b' r] by (cases y) auto
      qed
    qed (use run read round buf in auto)
  qed
qed

lemma EncodeCopy_without_buf:
  assumes "EncodeCopy_buf sn rnd token i buf a b = Some rb"
  shows "length buf = bufSize \<longrightarrow> EncodeCopy sn rnd token i a b = Some (fst rb)"
proof (rule EncodeCopy_buf.raw_induct [OF _ assms])
  fix loop sn rnd token i buf and a :: "'a conn_scheme" and b :: "'b conn_scheme" and rb
  assume IH: "\<And>sn rnd token i buf a b rb. loop sn rnd token i buf a b = Some rb \<Longrightarrow>
      length buf = bufSize \<longrightarrow> EncodeCopy sn rnd token i a b = Some (fst rb)"
    and run: "(case read_into buf a of
        None \<Rightarrow> None
      | Some (r, buf, a) \<Rightarrow>
          (case r of
             Fail e \<Rightarrow> Some ((if e = EOF then Ret () else Fail e, a, b), buf)
           | Panic \<Rightarrow> Some ((Panic, a, b), buf)
           | Ret readCount \<Rightarrow>
               if 0 < readCount
               then (case EncodeWrite sn (rnd i) token (take readCount buf) b of
                       None \<Rightarrow> None
                     | Some wb \<Rightarrow>
                         (case fst wb of
                            Ret _ \<Rightarrow> loop sn rnd token (Suc i) buf a (snd wb)
                          | Fail e \<Rightarrow> Some ((Fail e, a, snd wb), buf)
                          | Panic \<Rightarrow> Some ((Panic, a, snd wb), buf)))
               else loop sn rnd token i buf a b)) = Some rb"
  show "length buf = bufSize \<longrightarrow> EncodeCopy sn rnd token i a b = Some (fst rb)"
  proof
    assume buf: "length buf = bufSize"
    obtain x a' where read: "conn_Read bufSize a = Some (x, a')"
      using run buf by (cases "conn_Read bufSize a") (auto simp: read_into_def)
    show "EncodeCopy sn rnd token i a b = Some (fst rb)"
    proof (cases x)
      case (Ret bs)
      let ?buf = "bs @ drop (length bs) buf"
      have len: "length ?buf = bufSize"
        using conn_Read_length [OF read [unfolded Ret]] buf by simp
      have into: "read_into buf a = Some (Ret (length bs), ?buf, a')"
        using read Ret buf by (simp add: read_into_def)
      show ?thesis
      proof (cases "bs = []")
        case True
        then show ?thesis
          using run read Ret into IH [of sn rnd token i ?buf a' b rb] len by (subst EncodeCopy.simps) simp
      next
        case False
        obtain y b' where wr: "EncodeWrite sn (rnd i) token bs b = Some (y, b')"
          using run into False by (cases "EncodeWrite sn (rnd i) token bs b") auto
        then show ?thesis
          using run read Ret into False len IH [of sn rnd token "Suc i" ?buf a' b' rb]
          by (subst EncodeCopy.simps) (cases y; auto)
      qed
    qed (use run read buf in \<open>subst EncodeCopy.simps, auto simp: read_into_def\<close>)+
  qed
qed

section \<open>Properties\<close>

text \<open>C33. Nothing leaks through the pool. Whatever bytes of other connections the buffers hold, and whichever buffer \<^verbatim>\<open>Get\<close>
  hands out, \<^verbatim>\<open>EncodeCopy\<close> sends the same packets, ends in the same way and hangs on the same input as the loop without a
  buffer, and puts a whole buffer back.\<close>

theorem pooled_buffer_invisible:
  assumes "pool_ok pool"
  shows "map_option fst (EncodeCopy_pooled sn rnd token pick pool a b) = EncodeCopy sn rnd token 0 a b \<and>
    (\<forall>r pool'. EncodeCopy_pooled sn rnd token pick pool a b = Some (r, pool') \<longrightarrow> pool_ok pool')"
proof -
  obtain buf rest where get: "bufferPoolGet pick pool = (buf, rest)"
    by fastforce
  note ok = bufferPoolGet_ok [OF assms get]
  show ?thesis
  proof (cases "EncodeCopy sn rnd token 0 a b")
    case None
    then have "EncodeCopy_buf sn rnd token 0 buf a b = None"
      using EncodeCopy_without_buf [of sn rnd token 0 buf a b] ok by (cases "EncodeCopy_buf sn rnd token 0 buf a b") auto
    then show ?thesis
      using None get by (simp add: EncodeCopy_pooled_def)
  next
    case (Some r)
    then obtain buf' where "EncodeCopy_buf sn rnd token 0 buf a b = Some (r, buf')" "length buf' = bufSize"
      using EncodeCopy_with_buf ok by blast
    then show ?thesis
      using Some get ok by (simp add: EncodeCopy_pooled_def bufferPoolPut_def pool_ok_def)
  qed
qed

theorem pooled_buffer_invisible_witness:
  "map_option fst (EncodeCopy_pooled stored_snappy (\<lambda>_. 7) [1] (Some 0) [replicate bufSize 255] (idle_conn [[1, 2, 3]]) (idle_conn [])) =
     EncodeCopy stored_snappy (\<lambda>_. 7) [1] 0 (idle_conn [[1, 2, 3]]) (idle_conn [])"
  using pooled_buffer_invisible [of "[replicate bufSize 255]" stored_snappy "\<lambda>_. 7" "[1]" "Some 0" "idle_conn [[1, 2, 3]]" "idle_conn []"]
  by (simp add: pool_ok_def)

end
