(* ===== verification/Cmd.thy ===== *)
theory Cmd
  imports Auth
begin

text \<open>
  \<^verbatim>\<open>cmd/lightsocks.go\<close>: the three commands, up to the point where the listener runs. The result is what
  the command starts: the tunnel's token, the API's address and the listener; \<open>None\<close> is
  \<^verbatim>\<open>logrus.Fatalln\<close>. \<^verbatim>\<open>tunnel.Start\<close> and \<^verbatim>\<open>api.Server\<close> run before the mode is set.
\<close>

datatype listener_kind = MixedListener | ServerListener

record started =
  tunnel_token :: string
  api_server :: Server
  listener :: listener_kind

definition start_with ::
    "libs \<Rightarrow> (Config \<Rightarrow> string) \<Rightarrow> (Config \<Rightarrow> Config) \<Rightarrow> listener_kind \<Rightarrow> conf_state \<Rightarrow>
     (started \<times> conf_state) option" where
  "start_with L token set_mode k st =
     (case Load L st of
        (Ret _, st) \<Rightarrow>
          (case App st of
             None \<Rightarrow> None
           | Some c \<Rightarrow>
               (case LoadTLS L (set_mode c) of
                  None \<Rightarrow> None
                | Some c' \<Rightarrow>
                    Some (\<lparr>tunnel_token = token c, api_server = Api c, listener = k\<rparr>, st\<lparr>App := Some c'\<rparr>)))
      | _ \<Rightarrow> None)"

definition cmd_Run :: "libs \<Rightarrow> conf_state \<Rightarrow> (started \<times> conf_state) option" where
  "cmd_Run L = start_with L (\<lambda>c. Token (Local c)) (\<lambda>c. c) MixedListener"

definition serverCmd_Run :: "libs \<Rightarrow> conf_state \<Rightarrow> (started \<times> conf_state) option" where
  "serverCmd_Run L = start_with L (\<lambda>c. Token (Local c)) (\<lambda>c. c\<lparr>Mode := ServerMode\<rparr>) ServerListener"

definition client_mode :: "Config \<Rightarrow> Config" where
  "client_mode c =
     (let c = c\<lparr>Mode := ClientMode\<rparr>
      in if srv_Port (Server c) = 0 \<or> Host (Server c) = ''''
         then c\<lparr>Mode := DirectMode, TLS := (TLS c)\<lparr>Enable := False\<rparr>\<rparr> else c)"

definition clientCmd_Run :: "libs \<Rightarrow> conf_state \<Rightarrow> (started \<times> conf_state) option" where
  "clientCmd_Run L = start_with L (\<lambda>c. Token (Server c)) client_mode MixedListener"

section \<open>What the commands establish\<close>

lemma start_with_Some:
  assumes "start_with L tok f k st = Some (r, st')"
  obtains c c' where "Unmarshal L initial_Config = Ret c" and "LoadTLS L (f c) = Some c'" and "App st' = Some c'"
    and "tunnel_token r = tok c" and "api_server r = Api c" and "listener r = k" and "watching st'"
proof -
  obtain s where s: "Load L st = (Ret (), s)"
    using assms by (auto simp: start_with_def split: prod.splits res.splits)
  then obtain c where c: "Unmarshal L initial_Config = Ret c" "App s = Some c" "watching s"
    using Load_Ret [of L st] by auto
  then obtain c' where "LoadTLS L (f c) = Some c'" "st' = s\<lparr>App := Some c'\<rparr>"
    "r = \<lparr>tunnel_token = tok c, api_server = Api c, listener = k\<rparr>"
    using assms s by (auto simp: start_with_def split: option.splits)
  with c show thesis
    by (intro that) simp_all
qed

lemma LoadTLS_keeps:
  "LoadTLS L c = Some c' \<Longrightarrow> Mode c' = Mode c \<and> TLS c' = TLS c \<and> Server c' = Server c \<and> Users c' = Users c"
  by (auto simp: LoadTLS_def split: if_splits res.splits)

text \<open>A started client is in client mode exactly when the configuration names a remote server;
  otherwise it proxies directly, with TLS switched off. Its tunnel uses the token of the remote
  server, and the configuration file is watched.\<close>

theorem clientCmd_Run_mode:
  assumes "clientCmd_Run L st = Some (r, st')" and "Unmarshal L initial_Config = Ret c"
  shows "\<exists>c'. App st' = Some c' \<and> Server c' = Server c \<and>
    (if srv_Port (Server c) \<noteq> 0 \<and> Host (Server c) \<noteq> '''' then Mode c' = ClientMode \<and> TLS c' = TLS c
     else Mode c' = DirectMode \<and> \<not> Enable (TLS c')) \<and>
    tunnel_token r = Token (Server c) \<and> listener r = MixedListener \<and> watching st'"
proof -
  obtain c' where "LoadTLS L (client_mode c) = Some c'" "App st' = Some c'"
    "tunnel_token r = Token (Server c)" "listener r = MixedListener" "watching st'"
    using assms by (auto simp: clientCmd_Run_def elim!: start_with_Some)
  with LoadTLS_keeps [OF this(1)] show ?thesis
    by (auto simp: client_mode_def Let_def split: if_splits)
qed

text \<open>A write of the configuration file forgets the mode of the running process: when a client or a
  server is running and the file, which does not set the mode, is written again, the new
  configuration is in direct mode, whatever mode the command had set.\<close>

theorem config_write_resets_mode:
  assumes "clientCmd_Run L st = Some (r, st') \<or> serverCmd_Run L st = Some (r, st')"
    and "ReadInConfig L' = Ret ()" and "Unmarshal L' initial_Config = Ret c" and "Mode c = Mode initial_Config"
  shows "\<exists>c'. App (on_config_change L' True st') = Some c' \<and> Mode c' = DirectMode \<and> Server c' = Server c"
  using assms(2-4) by (simp add: on_config_change_App initial_Config_def)

definition example_libs :: libs where
  "example_libs = \<lparr>ReadInConfig = Ret (),
     Unmarshal = (\<lambda>c. Ret (c\<lparr>Server := \<lparr>Host = ''10.0.0.1'', srv_Port = 80, Token = ''k''\<rparr>\<rparr>)),
     ParseLevel = (\<lambda>_. Ret 4), InfoLevel = 4, LoadX509KeyPair = (\<lambda>_ _. Fail EOF)\<rparr>"

definition example_state :: conf_state where
  "example_state = \<lparr>App = None, logOutput = None, log_level = 4, log_sink = Stdout, watching = False,
     cron_on = False, rotations = 0\<rparr>"

lemmas example_start_defs = clientCmd_Run_def start_with_def Load_def viperLoadConf_def reload_App_def
  reload_def LoadTLS_def client_mode_def example_libs_def example_state_def initial_Config_def
  ClientMode_def zero_Server_def

theorem clientCmd_Run_mode_witness:
  "\<exists>r st' c'. clientCmd_Run example_libs example_state = Some (r, st') \<and> App st' = Some c' \<and> Mode c' = ClientMode"
proof -
  obtain r st' where run: "clientCmd_Run example_libs example_state = Some (r, st')"
    by (simp add: example_start_defs)
  have um: "Unmarshal example_libs initial_Config =
      Ret (initial_Config\<lparr>Server := \<lparr>Host = ''10.0.0.1'', srv_Port = 80, Token = ''k''\<rparr>\<rparr>)"
    by (simp add: example_libs_def)
  show ?thesis
    using clientCmd_Run_mode [OF run um] run by auto
qed

theorem config_write_resets_mode_witness:
  "\<exists>r st' c c'. clientCmd_Run example_libs example_state = Some (r, st') \<and>
     App st' = Some c \<and> Mode c = ClientMode \<and>
     App (on_config_change example_libs True st') = Some c' \<and> Mode c' = DirectMode"
proof -
  obtain r st' c where run: "clientCmd_Run example_libs example_state = Some (r, st')"
    and c: "App st' = Some c" "Mode c = ClientMode"
    by (simp add: example_start_defs)
  have "\<exists>c'. App (on_config_change example_libs True st') = Some c' \<and> Mode c' = DirectMode"
    using config_write_resets_mode [OF disjI1 [OF run], of example_libs] by (simp add: example_libs_def) blast
  with run c show ?thesis
    by auto
qed

end
