(* ===== verification/Server.thy ===== *)
theory Server
  imports Mixed Secure_TCP
begin

text \<open>
  \<^verbatim>\<open>internal/server/tcp.go\<close>: the remote end. A connection brings one packet with the address of the
  target and then the packets of the relay.
\<close>

section \<open>Connections\<close>

text \<open>\<^verbatim>\<open>(*Listener).handle\<close>. Unlike the local listener it takes the count of the wait group back on an
  error.\<close>

definition server_handle :: "snappy \<Rightarrow> Config \<Rightarrow> uuid \<Rightarrow> (unit, session) io" where
  "server_handle sn cfg uid =
     io_bind
       (io_catch
         (io_bind (protocol_ReadFull sn (bytes_of (Token (Local cfg)))) (\<lambda>packet. io_ret (Some packet)))
         (\<lambda>_. io_bind wg_Done (\<lambda>_. io_bind conn_Close (\<lambda>_. io_ret None))))
       (\<lambda>result. case result of
          None \<Rightarrow> io_ret ()
        | Some packet \<Rightarrow>
            let destAddr = string_of (Payload packet)
            in (\<lambda>s. send_ctx \<lparr>
                 Metadata = \<lparr>ID = uid, NetWork = TCP, Type = SOCKS5, Src = IP_of (raddr s), Dest = IP_of destAddr\<rparr>,
                 Line = '''', PreFn = NoPreFn, PostFn = WgDone\<rparr> s))"

definition server_serve :: "snappy \<Rightarrow> Config \<Rightarrow> uuid \<Rightarrow> (unit, session) io" where
  "server_serve sn cfg uid s =
     (if \<not> VerifyIP cfg (raddr s) then conn_Close s
      else io_bind (wg_Add 1) (\<lambda>_. server_handle sn cfg uid) s)"

section \<open>The listener\<close>

type_synonym server_Listener = "sock option"

definition server_New :: server_Listener where
  "server_New = None"

definition server_RawAddress :: "Config \<Rightarrow> string" where
  "server_RawAddress cfg = Host (Local cfg) @ '':'' @ FormatInt (srv_Port (Local cfg))"

definition server_close :: "server_Listener \<Rightarrow> server_Listener" where
  "server_close l = map_option sock_Close l"

definition server_State :: "server_Listener \<Rightarrow> bool" where
  "server_State l \<longleftrightarrow> l \<noteq> None"

definition server_ShutdownWithTimeout :: "int \<Rightarrow> int option \<Rightarrow> bool \<Rightarrow> server_Listener \<Rightarrow> unit res \<times> server_Listener" where
  "server_ShutdownWithTimeout timeout idle_at pick l =
     (let l = server_close l;
          idle_first = (case idle_at of
              None \<Rightarrow> False
            | Some t \<Rightarrow> t < timeout \<or> t \<le> max 0 timeout \<and> pick)
      in (if idle_first then Ret () else Fail DeadlineExceeded, None))"

definition server_Shutdown :: "int option \<Rightarrow> bool \<Rightarrow> server_Listener \<Rightarrow> unit res \<times> server_Listener" where
  "server_Shutdown = server_ShutdownWithTimeout 0"

text \<open>The set-up of \<^verbatim>\<open>ListenAndServe\<close>: a failing \<^verbatim>\<open>tls.Listen\<close> returns a nil interface, a failing
  \<^verbatim>\<open>net.ListenTCP\<close> a nil pointer.\<close>

definition server_listen :: "Config \<Rightarrow> 'a res \<Rightarrow> unit res \<Rightarrow> unit res \<Rightarrow> server_Listener \<Rightarrow> unit res \<times> server_Listener" where
  "server_listen cfg ResolveTCPAddr tls_Listen ListenTCP l =
     (case ResolveTCPAddr of
        Ret _ \<Rightarrow>
          (let r = (if Enable (TLS cfg) then tls_Listen else ListenTCP);
               failed = (if Enable (TLS cfg) then None else Some NilPtr)
           in case r of
                Ret _ \<Rightarrow> (Ret (), Some Open)
              | Fail e \<Rightarrow> (Fail e, failed)
              | Panic \<Rightarrow> (Panic, l))
      | Fail e \<Rightarrow> (Fail e, l)
      | Panic \<Rightarrow> (Panic, l))"

section \<open>Properties\<close>

lemma server_serve_start:
  "VerifyIP cfg (raddr s) \<Longrightarrow> 0 \<le> wg s \<Longrightarrow>
   server_serve sn cfg uid s = server_handle sn cfg uid (s\<lparr>wg := wg s + 1\<rparr>)"
  by (simp add: server_serve_def wg_Add_def io_bind_def)

lemma server_serve_packet:
  assumes "snappy_ok sn" and "bytes_of (Token (Local cfg)) \<noteq> []" and "r < 99"
    and "CHR ''['' \<notin> set (Addr i)" "CHR '']'' \<notin> set (Addr i)" and "0 \<le> Port i" "Port i < 2 ^ 63"
    and "VerifyIP cfg (raddr s)" and "0 \<le> wg s" and "\<not> closed s"
    and "packet_of sn (bytes_of (Token (Local cfg))) r (bytes_of (constant_IP_String i)) pkt" and "stream s = pkt @ rest"
  obtains q where "concat q = rest"
    and "server_serve sn cfg uid s = Some (Ret (), s\<lparr>inp := q, wg := wg s + 1, tcpIn := tcpIn s @ [
      \<lparr>Metadata = \<lparr>ID = uid, NetWork = TCP, Type = SOCKS5, Src = IP_of (raddr s), Dest = i\<rparr>,
       Line = [], PreFn = NoPreFn, PostFn = WgDone\<rparr>]\<rparr>)"
proof -
  let ?tok = "bytes_of (Token (Local cfg))" and ?s = "s\<lparr>wg := wg s + 1\<rparr>"
  let ?data = "bytes_of (constant_IP_String i)"
  have "stream ?s = pkt @ rest" "\<not> closed ?s"
    using assms(10,12) by simp_all
  with assms(11) obtain q where q: "concat q = rest" and rd: "protocol_ReadFull sn ?tok ?s =
      Some (Ret \<lparr>RandNu = length ?data mod (r + 1), Payload = ?data\<rparr>, ?s\<lparr>inp := q\<rparr>)"
    using ReadFull_packet_of [OF assms(1-3)] by blast
  have "server_serve sn cfg uid s = Some (Ret (), s\<lparr>inp := q, wg := wg s + 1, tcpIn := tcpIn s @ [
      \<lparr>Metadata = \<lparr>ID = uid, NetWork = TCP, Type = SOCKS5, Src = IP_of (raddr s), Dest = i\<rparr>,
       Line = [], PreFn = NoPreFn, PostFn = WgDone\<rparr>]\<rparr>)"
    unfolding server_serve_start [OF assms(8,9)] server_handle_def
    using rd IP_of_String [OF assms(4-7)] by (simp add: io_catch_def io_bind_def send_ctx_def)
  with q show thesis
    by (rule that)
qed

text \<open>The server connects where the client wants: the packet a client sends first, made from the text
  of the requested destination, arrives in any segmentation and yields one context with that very
  destination (host without brackets, port in range); the bytes behind the packet stay for the relay.\<close>

theorem server_gets_destination:
  assumes "snappy_ok sn" and "Token (Local cfg) \<noteq> ''''" and "r < 99"
    and "\<And>z. Zip sn (bytes_of (constant_IP_String i)) = Ret z \<Longrightarrow> length z \<le> maxByte"
    and "CHR ''['' \<notin> set (Addr i)" "CHR '']'' \<notin> set (Addr i)" and "0 \<le> Port i" "Port i < 2 ^ 63"
    and "VerifyIP cfg (raddr s)" and "0 \<le> wg s" and "\<not> closed s"
    and "Encode r sn (bytes_of (Token (Local cfg))) (bytes_of (constant_IP_String i)) = Ret pkt"
    and "stream s = pkt @ rest"
  shows "\<exists>q. concat q = rest \<and>
    server_serve sn cfg uid s = Some (Ret (), s\<lparr>inp := q, wg := wg s + 1, tcpIn := tcpIn s @ [
      \<lparr>Metadata = \<lparr>ID = uid, NetWork = TCP, Type = SOCKS5, Src = IP_of (raddr s), Dest = i\<rparr>,
       Line = '''', PreFn = NoPreFn, PostFn = WgDone\<rparr>]\<rparr>)"
proof -
  have ne: "bytes_of (Token (Local cfg)) \<noteq> []" "bytes_of (constant_IP_String i) \<noteq> []"
    using assms(2) by (simp_all add: constant_IP_String_def net_JoinHostPort_def)
  have "packet_of sn (bytes_of (Token (Local cfg))) r (bytes_of (constant_IP_String i)) pkt"
    using Encode_packet_of [OF assms(1) ne assms(4), of r] assms(12) by auto
  then show ?thesis
    using server_serve_packet [OF assms(1) ne(1) assms(3,5-11) _ assms(13)] by blast
qed

theorem server_gets_destination_witness:
  "\<exists>pkt s'. Encode 3 stored_snappy (bytes_of ''k'') (bytes_of (constant_IP_String \<lparr>Addr = ''a.b'', Port = 80\<rparr>)) = Ret pkt \<and>
     server_serve stored_snappy (initial_Config\<lparr>Local := \<lparr>Host = '''', srv_Port = 0, Token = ''k''\<rparr>\<rparr>) []
       (client_session [pkt]) = Some (Ret (), s') \<and>
     map (\<lambda>ctx. Dest (Metadata ctx)) (tcpIn s') = [\<lparr>Addr = ''a.b'', Port = 80\<rparr>]"
proof -
  let ?i = "\<lparr>Addr = ''a.b'', Port = 80\<rparr> :: IP" and ?cfg = "initial_Config\<lparr>Local := \<lparr>Host = '''', srv_Port = 0, Token = ''k''\<rparr>\<rparr>"
  have small: "length (bytes_of (constant_IP_String ?i)) \<le> bufSize"
    by (simp add: constant_IP_String_def net_JoinHostPort_def FormatInt_def FormatUint.simps bufSize_def)
  then have fits: "\<And>z. Zip stored_snappy (bytes_of (constant_IP_String ?i)) = Ret z \<Longrightarrow> length z \<le> maxByte"
    using stored_fits by (metis fits_packet_def)
  have ne: "bytes_of ''k'' \<noteq> []" "bytes_of (constant_IP_String ?i) \<noteq> []"
    by (simp_all add: bytes_of_def constant_IP_String_def net_JoinHostPort_def)
  obtain pkt where pkt: "Encode 3 stored_snappy (bytes_of ''k'') (bytes_of (constant_IP_String ?i)) = Ret pkt"
    using Encode_packet_of [OF stored_snappy_ok ne fits] by blast
  have "VerifyIP ?cfg (raddr (client_session [pkt]))"
    by (simp add: VerifyIP_def initial_Config_def)
  from server_gets_destination [OF stored_snappy_ok _ _ fits _ _ _ _ this, of 3 "?i" pkt "[]" "[]"] show ?thesis
    using pkt by (auto simp: client_session_def)
qed

lemma server_handle_ends:
  assumes "server_handle sn cfg uid s = Some (r, s')" and "0 < wg s"
  shows "(\<exists>ctx. tcpIn s' = tcpIn s @ [ctx] \<and> wg s' = wg s \<and> ID (Metadata ctx) = uid \<and> Src (Metadata ctx) = IP_of (raddr s) \<and>
      PostFn ctx = WgDone) \<or>
    tcpIn s' = tcpIn s \<and> wg s' = (if r = Panic then wg s else wg s - 1)"
proof -
  let ?m = "protocol_ReadFull sn (bytes_of (Token (Local cfg)))"
  obtain pr s1 where rd: "?m s = Some (pr, s1)"
    using assms(1) by (cases "?m s") (auto simp: server_handle_def io_catch_def io_bind_def)
  have "rest_is (tcpIn s) (wg s) (raddr s) s"
    by (simp add: rest_is_def)
  then have "rest_is (tcpIn s) (wg s) (raddr s) s1"
    using rd keeps_protocol_ReadFull [of "rest_is (tcpIn s) (wg s) (raddr s)"]
    by (cases pr) (auto dest: tripleD tripleD_Fail tripleD_Panic)
  then show ?thesis
    using assms rd
    by (cases pr) (auto simp: server_handle_def io_catch_def io_bind_def send_ctx_def wg_Done_def wg_Add_def conn_Close_def rest_is_def)
qed

text \<open>Unlike the local listener, the server never leaks a count of its wait group: whatever an admitted
  client sends, when the handling returns then either one context was queued and the connection is
  counted until its \<^verbatim>\<open>PostFn\<close>, or nothing was queued, the connection is closed and the count is what it was.\<close>

theorem server_accounting:
  assumes "VerifyIP cfg (raddr s)" and "0 \<le> wg s" and "server_serve sn cfg uid s = Some (r, s')" and "r \<noteq> Panic"
  shows "r = Ret () \<and>
    ((\<exists>ctx. tcpIn s' = tcpIn s @ [ctx] \<and> PostFn ctx = WgDone \<and> wg s' = wg s + 1) \<or>
     tcpIn s' = tcpIn s \<and> closed s' \<and> wg s' = wg s)"
proof -
  let ?s = "s\<lparr>wg := wg s + 1\<rparr>" and ?m = "protocol_ReadFull sn (bytes_of (Token (Local cfg)))"
  have run: "server_handle sn cfg uid ?s = Some (r, s')"
    using assms(3) server_serve_start [OF assms(1,2)] by simp
  obtain pr s1 where rd: "?m ?s = Some (pr, s1)"
    using run by (cases "?m ?s") (auto simp: server_handle_def io_catch_def io_bind_def)
  have "rest_is (tcpIn s) (wg s + 1) (raddr s) ?s"
    by (simp add: rest_is_def)
  then have "rest_is (tcpIn s) (wg s + 1) (raddr s) s1"
    using rd keeps_protocol_ReadFull [of "rest_is (tcpIn s) (wg s + 1) (raddr s)"]
    by (cases pr) (auto dest: tripleD tripleD_Fail tripleD_Panic)
  then show ?thesis
    using run rd assms(2,4)
    by (cases pr) (auto simp: server_handle_def io_catch_def io_bind_def send_ctx_def wg_Done_def wg_Add_def
        conn_Close_def rest_is_def)
qed

theorem server_accounting_witness:
  "\<exists>s'. server_serve stored_snappy initial_Config [] ((client_session [[1]])\<lparr>rend := AtEOF\<rparr>) = Some (Ret (), s') \<and>
     closed s' \<and> wg s' = 1"
proof -
  let ?s = "(client_session [[1]])\<lparr>rend := AtEOF\<rparr>"
  have ip: "VerifyIP initial_Config (raddr ?s)"
    by (simp add: VerifyIP_def initial_Config_def)
  have "io_ReadFull headerLen (?s\<lparr>wg := 2\<rparr>) = Some (Fail UnexpectedEOF, ?s\<lparr>wg := 2, inp := []\<rparr>)"
    by (subst io_ReadFull_starves) (simp_all add: client_session_def headerLen_def end_error_def)
  then have run: "server_serve stored_snappy initial_Config [] ?s = Some (Ret (), ?s\<lparr>wg := 1, inp := [], closed := True\<rparr>)"
    using ip by (simp add: server_serve_start client_session_def server_handle_def io_catch_def io_bind_def
        protocol_ReadFull_def wg_Done_def wg_Add_def conn_Close_def)
  show ?thesis
    using server_accounting [OF ip _ run] run by (auto simp: client_session_def)
qed

end
