(* ===== verification/Accept.thy ===== *)
theory Accept
  imports Server
begin

text \<open>
  The accept loops of the two listeners (\<^verbatim>\<open>ListenAndServe\<close> of \<^verbatim>\<open>internal/mixed/mixed.go\<close> and \<^verbatim>\<open>internal/server/tcp.go\<close>).

  Both wrap their socket in a listener of go-proxyproto, which is not part of the repository: \<open>pp\<close> stands for the first use
  of an accepted connection (here \<^verbatim>\<open>RemoteAddr\<close>), which reads a PROXY header if the peer sent one, takes it out of the stream and
  replaces the address of the peer by the one in the header; \<open>None\<close> if it waits for ever. \<open>accepts\<close> is what the successive calls of
  \<^verbatim>\<open>Accept\<close> return. The loop keeps the counter of the wait group, and starts a goroutine \<^verbatim>\<open>handle\<close> for every connection it admits:
  \<open>handlers\<close> lists the connections as they are handed over, \<open>refused\<close> those that were closed.
\<close>

datatype accepted = Accepted session | AcceptError

record acceptor =
  l_wg :: int
  handlers :: "session list"
  refused :: "session list"

definition new_acceptor :: acceptor where
  "new_acceptor = \<lparr>l_wg = 0, handlers = [], refused = []\<rparr>"

section \<open>The loop\<close>

definition accept_round :: "(session \<Rightarrow> session option) \<Rightarrow> Config \<Rightarrow> accepted \<Rightarrow> acceptor \<Rightarrow> acceptor option" where
  "accept_round pp cfg a l =
     (case a of
        AcceptError \<Rightarrow> Some l
      | Accepted s \<Rightarrow>
          (case pp s of
             None \<Rightarrow> None
           | Some s \<Rightarrow>
               if \<not> VerifyIP cfg (raddr s) then Some (l\<lparr>refused := refused l @ [s\<lparr>closed := True\<rparr>]\<rparr>)
               else Some (l\<lparr>l_wg := l_wg l + 1, handlers := handlers l @ [s\<lparr>wg := l_wg l + 1\<rparr>]\<rparr>)))"

partial_function (option) accept_loop ::
    "(session \<Rightarrow> session option) \<Rightarrow> Config \<Rightarrow> (nat \<Rightarrow> accepted) \<Rightarrow> nat \<Rightarrow> acceptor \<Rightarrow> acceptor option" where
  "accept_loop pp cfg accepts n l =
     (case accept_round pp cfg (accepts n) l of None \<Rightarrow> None | Some l \<Rightarrow> accept_loop pp cfg accepts (Suc n) l)"

text \<open>The first rounds of the loop.\<close>

fun accept_rounds :: "(session \<Rightarrow> session option) \<Rightarrow> Config \<Rightarrow> accepted list \<Rightarrow> acceptor \<Rightarrow> acceptor option" where
  "accept_rounds pp cfg [] l = Some l"
| "accept_rounds pp cfg (a # as) l =
     (case accept_round pp cfg a l of None \<Rightarrow> None | Some l \<Rightarrow> accept_rounds pp cfg as l)"

section \<open>ListenAndServe\<close>

text \<open>The set-up and the loop; a result of the loop would be the return of \<^verbatim>\<open>ListenAndServe\<close> without an error.\<close>

definition mixed_ListenAndServe ::
    "(session \<Rightarrow> session option) \<Rightarrow> (nat \<Rightarrow> accepted) \<Rightarrow> Config \<Rightarrow> 'a res \<Rightarrow> unit res \<Rightarrow> 'b res \<Rightarrow> unit res \<Rightarrow> Listener \<Rightarrow>
     (unit res \<times> Listener) option" where
  "mixed_ListenAndServe pp accepts cfg ResolveTCPAddr ListenTCP ResolveUDPAddr ListenUDP l =
     (case mixed_listen ResolveTCPAddr ListenTCP ResolveUDPAddr ListenUDP l of
        (Ret _, l) \<Rightarrow> map_option (\<lambda>_. (Ret (), l)) (accept_loop pp cfg accepts 0 new_acceptor)
      | r \<Rightarrow> Some r)"

definition server_ListenAndServe ::
    "(session \<Rightarrow> session option) \<Rightarrow> (nat \<Rightarrow> accepted) \<Rightarrow> Config \<Rightarrow> 'a res \<Rightarrow> unit res \<Rightarrow> unit res \<Rightarrow> server_Listener \<Rightarrow>
     (unit res \<times> server_Listener) option" where
  "server_ListenAndServe pp accepts cfg ResolveTCPAddr tls_Listen ListenTCP l =
     (case server_listen cfg ResolveTCPAddr tls_Listen ListenTCP l of
        (Ret _, l) \<Rightarrow> map_option (\<lambda>_. (Ret (), l)) (accept_loop pp cfg accepts 0 new_acceptor)
      | r \<Rightarrow> Some r)"

section \<open>Facts\<close>

lemma accept_loop_None: "accept_loop pp cfg accepts n l = None"
proof (cases "accept_loop pp cfg accepts n l")
  case (Some l')
  then have False
    by (rule accept_loop.raw_induct [where P = "\<lambda>_ _ _ _ _ _. False", rotated]) (auto split: option.splits)
  then show ?thesis ..
qed

lemma accept_round_admits:
  assumes "pp s = Some t" and "VerifyIP cfg (raddr t)"
  shows "accept_round pp cfg (Accepted s) l = Some (l\<lparr>l_wg := l_wg l + 1, handlers := handlers l @ [t\<lparr>wg := l_wg l + 1\<rparr>]\<rparr>)"
  using assms by (simp add: accept_round_def)

lemma mixed_ListenAndServe_eq:
  "mixed_ListenAndServe pp accepts cfg a t u v l =
     (if fst (mixed_listen a t u v l) = Ret () then None else Some (mixed_listen a t u v l))"
  by (auto simp: mixed_ListenAndServe_def accept_loop_None split: prod.splits res.splits)

lemma server_ListenAndServe_eq:
  "server_ListenAndServe pp accepts cfg a t v l =
     (if fst (server_listen cfg a t v l) = Ret () then None else Some (server_listen cfg a t v l))"
  by (auto simp: server_ListenAndServe_def accept_loop_None split: prod.splits res.splits)

text \<open>A round of the loop and then \<^verbatim>\<open>handle\<close> is what \<open>mixed_serve\<close> and \<open>server_serve\<close> do.\<close>

lemma mixed_serve_round:
  assumes "0 \<le> l_wg l" and "pp s = Some t" and "VerifyIP cfg (raddr t)"
    and "accept_round pp cfg (Accepted s) l = Some l'"
  shows "mixed_serve cfg resolve udpAddr uid (t\<lparr>wg := l_wg l\<rparr>) = mixed_handle cfg resolve udpAddr uid (last (handlers l'))"
  using assms accept_round_admits [of pp s t cfg l] by (auto simp: mixed_serve_def wg_Add_def io_bind_def)

lemma server_serve_round:
  assumes "0 \<le> l_wg l" and "pp s = Some t" and "VerifyIP cfg (raddr t)"
    and "accept_round pp cfg (Accepted s) l = Some l'"
  shows "server_serve sn cfg uid (t\<lparr>wg := l_wg l\<rparr>) = server_handle sn cfg uid (last (handlers l'))"
  using assms accept_round_admits [of pp s t cfg l] by (auto simp: server_serve_def wg_Add_def io_bind_def)

definition acceptor_ok :: "Config \<Rightarrow> acceptor \<Rightarrow> bool" where
  "acceptor_ok cfg l \<longleftrightarrow> l_wg l = int (length (handlers l)) \<and> (\<forall>s \<in> set (handlers l). VerifyIP cfg (raddr s)) \<and>
     (\<forall>s \<in> set (refused l). closed s)"

lemma accept_round_ok: "accept_round pp cfg a l = Some l' \<Longrightarrow> acceptor_ok cfg l \<Longrightarrow> acceptor_ok cfg l'"
  by (auto simp: accept_round_def acceptor_ok_def split: accepted.splits option.splits if_splits)

lemma accept_rounds_ok: "accept_rounds pp cfg as l = Some l' \<Longrightarrow> acceptor_ok cfg l \<Longrightarrow> acceptor_ok cfg l'"
  by (induction as arbitrary: l) (auto split: option.splits dest: accept_round_ok)

lemma accept_rounds_length:
  "accept_rounds pp cfg as l = Some l' \<Longrightarrow>
     length (handlers l') + length (refused l') = length (handlers l) + length (refused l) + length (filter (\<lambda>a. a \<noteq> AcceptError) as)"
  by (induction as arbitrary: l) (auto simp: accept_round_def split: accepted.splits option.splits if_splits)

section \<open>PROXY headers\<close>

text \<open>Version 1 of the PROXY protocol, for IPv4.\<close>

definition proxy_header :: "bytes \<Rightarrow> bytes \<Rightarrow> nat \<Rightarrow> nat \<Rightarrow> string" where
  "proxy_header src dst sport dport =
     ''PROXY TCP4 '' @ v4_String src @ '' '' @ v4_String dst @ '' '' @ FormatUint sport @ '' '' @ FormatUint dport"

text \<open>What go-proxyproto documents: the header is taken out of the stream, and its source address is the remote address. Any peer
  is trusted, since the listeners set no policy.\<close>

definition reads_headers :: "(session \<Rightarrow> session option) \<Rightarrow> bool" where
  "reads_headers pp \<longleftrightarrow> (\<forall>s src dst sport dport rest. length src = 4 \<and> length dst = 4 \<and> sport < 65536 \<and> dport < 65536 \<and> \<not> closed s \<and>
     stream s = bytes_of (proxy_header src dst sport dport @ CRLF) @ rest \<longrightarrow>
     (\<exists>q. pp s = Some (s\<lparr>inp := q, raddr := v4_String src @ '':'' @ FormatUint sport\<rparr>) \<and> concat q = rest))"

text \<open>A reader of such headers.\<close>

definition example_pp :: "session \<Rightarrow> session option" where
  "example_pp s =
     (let (line, rest, found) = strings_Cut (string_of (stream s)) CRLF; ws = strings_Split line '' ''
      in if found \<and> HasPrefix line ''PROXY TCP4 ''
         then Some (s\<lparr>inp := [bytes_of rest], raddr := ws ! 2 @ '':'' @ ws ! 4\<rparr>) else Some s)"

lemma string_of_append: "string_of (x @ y) = string_of x @ string_of y"
  by (simp add: string_of_def)

lemma header_chars:
  assumes "length src = 4" and "length dst = 4" and "\<not> is_digit c" and "c \<noteq> CHR ''.''"
  shows "c \<notin> set (v4_String src)" "c \<notin> set (v4_String dst)" "c \<notin> set (FormatUint n)"
  using v4_String_chars [OF assms(1), of c] v4_String_chars [OF assms(2), of c] FormatUint_digits [of c n] assms(3,4) by blast+

lemma header_words:
  assumes "length src = 4" and "length dst = 4"
  shows "strings_Split (proxy_header src dst p q) '' '' = [''PROXY'', ''TCP4'', v4_String src, v4_String dst, FormatUint p, FormatUint q]"
proof -
  note no = header_chars [OF assms, of "CHR '' ''"]
  have "proxy_header src dst p q = concat (map (\<lambda>l. l @ '' '') [''PROXY'', ''TCP4'', v4_String src, v4_String dst, FormatUint p]) @ FormatUint q"
    by (simp add: proxy_header_def)
  moreover have "\<not> is_digit (CHR '' '')"
    by (simp add: is_digit_def)
  ultimately show ?thesis
    using no by (simp only:) (subst strings_Split_lines, simp_all add: strings_Split_none)
qed

lemma example_pp_reads: "reads_headers example_pp"
proof (unfold reads_headers_def, intro allI impI)
  fix s :: session and src dst rest :: bytes and p q :: nat
  assume a: "length src = 4 \<and> length dst = 4 \<and> p < 65536 \<and> q < 65536 \<and> \<not> closed s \<and>
    stream s = bytes_of (proxy_header src dst p q @ CRLF) @ rest"
  have "\<not> is_digit (CHR 0x0D)"
    by (simp add: is_digit_def)
  then have "CHR 0x0D \<notin> set (proxy_header src dst p q)"
    using a header_chars [of src dst "CHR 0x0D"] by (simp add: proxy_header_def)
  then have "strings_Cut (proxy_header src dst p q @ CRLF @ string_of rest) CRLF = (proxy_header src dst p q, string_of rest, True)"
    by (intro strings_Cut_sep) (simp_all add: CRLF_def)
  moreover have "string_of (stream s) = proxy_header src dst p q @ CRLF @ string_of rest"
    using a by (simp add: string_of_append)
  ultimately have "example_pp s = Some (s\<lparr>inp := [rest], raddr := v4_String src @ '':'' @ FormatUint p\<rparr>)"
    using a header_words [of src dst p q] by (simp add: example_pp_def HasPrefix_def proxy_header_def)
  then show "\<exists>u. example_pp s = Some (s\<lparr>inp := u, raddr := v4_String src @ '':'' @ FormatUint p\<rparr>) \<and> concat u = rest"
    by auto
qed

section \<open>Properties\<close>

text \<open>A listener that runs never comes back: whatever \<^verbatim>\<open>Accept\<close> returns, also when it fails for ever because the socket was
  closed by a shut-down, \<^verbatim>\<open>ListenAndServe\<close> of both listeners returns exactly when its set-up fails, and then with that
  error.\<close>

theorem listener_never_ends:
  "mixed_ListenAndServe pp accepts cfg a t u v l =
     (if fst (mixed_listen a t u v l) = Ret () then None else Some (mixed_listen a t u v l)) \<and>
   server_ListenAndServe pp accepts cfg a t' v l' =
     (if fst (server_listen cfg a t' v l') = Ret () then None else Some (server_listen cfg a t' v l'))"
  by (simp add: mixed_ListenAndServe_eq server_ListenAndServe_eq)

text \<open>Only admitted connections get a handler, no accepted connection is lost, and the wait group counts exactly the handlers started.\<close>

theorem accepts_accounted:
  assumes "accept_rounds pp cfg as new_acceptor = Some l"
  shows "l_wg l = int (length (handlers l)) \<and> (\<forall>s \<in> set (handlers l). VerifyIP cfg (raddr s)) \<and> (\<forall>s \<in> set (refused l). closed s) \<and>
    length (handlers l) + length (refused l) = length (filter (\<lambda>a. a \<noteq> AcceptError) as)"
  using accept_rounds_ok [OF assms] accept_rounds_length [OF assms] by (simp add: acceptor_ok_def new_acceptor_def)

lemma entry_admits_itself: "entry_ok e \<Longrightarrow> length (fst e) = 4 \<and> entry_admits e (fst e)"
  by (cases e; cases "snd e") (auto simp: prefix_agree_def)

text \<open>C21. The white list can be passed by everybody. Both listeners believe PROXY headers of any peer, so for every white list
  of IPv4 addresses and blocks there is a source address that a client, wherever it comes from, only has to
  claim in a header in front of its bytes: it is admitted and served as if it came from there.\<close>

theorem white_list_spoofed:
  assumes "reads_headers pp" and "cfg_CIDR cfg = map entry_text es" and "\<forall>e \<in> set es. entry_ok e"
  shows "\<exists>src. length src = 4 \<and>
    (\<forall>s dst sport dport rest l. length dst = 4 \<and> sport < 65536 \<and> dport < 65536 \<and> \<not> closed s \<and>
       stream s = bytes_of (proxy_header src dst sport dport @ CRLF) @ rest \<longrightarrow>
       (\<exists>t. accept_round pp cfg (Accepted s) l = Some (l\<lparr>l_wg := l_wg l + 1, handlers := handlers l @ [t]\<rparr>) \<and>
          raddr t = v4_String src @ '':'' @ FormatUint sport \<and> stream t = rest \<and> \<not> closed t))"
proof -
  obtain src where src: "length src = 4" "es = [] \<or> list_ex (\<lambda>e. entry_admits e src) es"
  proof (cases es)
    case Nil
    then show thesis
      by (intro that [of "[0, 0, 0, 0]"]) simp_all
  next
    case (Cons e es')
    then have "entry_ok e"
      using assms(3) by simp
    from entry_admits_itself [OF this] show thesis
      using Cons by (intro that [of "fst e"]) simp_all
  qed
  have admitted: "VerifyIP cfg (v4_String src @ '':'' @ FormatUint p)" for p
    using src assms(2) host_of_v4 [OF src(1), of "FormatUint p"] verifyCIDR_entries [OF assms(3) src(1)] FormatUint_digits
    by (auto simp: VerifyIP_def)
  have "\<exists>t. accept_round pp cfg (Accepted s) l = Some (l\<lparr>l_wg := l_wg l + 1, handlers := handlers l @ [t]\<rparr>) \<and>
      raddr t = v4_String src @ '':'' @ FormatUint p \<and> stream t = rest \<and> \<not> closed t"
    if a: "length dst = 4 \<and> p < 65536 \<and> q < 65536 \<and> \<not> closed s \<and> stream s = bytes_of (proxy_header src dst p q @ CRLF) @ rest"
    for s dst p q rest l
  proof -
    obtain u where u: "pp s = Some (s\<lparr>inp := u, raddr := v4_String src @ '':'' @ FormatUint p\<rparr>)" "concat u = rest"
      using assms(1) src(1) a unfolding reads_headers_def by blast
    then show ?thesis
      using a admitted [of p] accept_round_admits [of pp s "s\<lparr>inp := u, raddr := v4_String src @ '':'' @ FormatUint p\<rparr>" cfg l] by auto
  qed
  then show ?thesis
    using src(1) by blast
qed

text \<open>A client from 10.0.0.7 that claims to come from 192.168.1.0.\<close>

theorem white_list_spoofed_witness:
  "\<exists>src t. length src = 4 \<and>
     accept_round example_pp (initial_Config\<lparr>cfg_CIDR := map entry_text [([192, 168, 1, 0], Some 24)]\<rparr>)
       (Accepted (client_session [bytes_of (proxy_header src [1, 2, 3, 4] 80 1080 @ CRLF), [5, 1, 0]])) new_acceptor =
       Some (new_acceptor\<lparr>l_wg := 1, handlers := [t]\<rparr>) \<and> stream t = [5, 1, 0]"
proof -
  obtain src where src: "length src = 4" and all: "\<forall>s dst sport dport rest l. length dst = 4 \<and> sport < 65536 \<and> dport < 65536 \<and> \<not> closed s \<and>
       stream s = bytes_of (proxy_header src dst sport dport @ CRLF) @ rest \<longrightarrow>
       (\<exists>t. accept_round example_pp (initial_Config\<lparr>cfg_CIDR := map entry_text [([192, 168, 1, 0], Some 24)]\<rparr>) (Accepted s) l =
            Some (l\<lparr>l_wg := l_wg l + 1, handlers := handlers l @ [t]\<rparr>) \<and>
          raddr t = v4_String src @ '':'' @ FormatUint sport \<and> stream t = rest \<and> \<not> closed t)"
    using white_list_spoofed [OF example_pp_reads, of "initial_Config\<lparr>cfg_CIDR := map entry_text [([192, 168, 1, 0], Some 24)]\<rparr>"
        "[([192, 168, 1, 0], Some 24)]"] by auto
  let ?s = "client_session [bytes_of (proxy_header src [1, 2, 3, 4] 80 1080 @ CRLF), [5, 1, 0]]"
  have "length [1, 2, 3, 4 :: byte] = 4 \<and> (80 :: nat) < 65536 \<and> (1080 :: nat) < 65536 \<and> \<not> closed ?s \<and>
      stream ?s = bytes_of (proxy_header src [1, 2, 3, 4] 80 1080 @ CRLF) @ [5, 1, 0]"
    by (simp add: client_session_def)
  then show ?thesis
    using all [rule_format, of "[1, 2, 3, 4]" 80 1080 ?s "[5, 1, 0]" new_acceptor] src by (auto simp: new_acceptor_def)
qed

end
