(* ===== verification/Cmd_Init.thy ===== *)
theory Cmd_Init
  imports Cmd Dns Accept
begin

text \<open>
  The rest of \<^verbatim>\<open>cmd/lightsocks.go\<close>: what \<^verbatim>\<open>init\<close> sets up before a command runs (the default resolver with its
  name servers, the log, the commands), the reaction to a signal, the caller in a line of the log, and \<^verbatim>\<open>main\<close>.
\<close>

definition NameServers :: "NameServer list" where
  "NameServers =
     [\<lparr>ns_Net = ''tcp'', ns_Addr = ''119.29.29.29:53''\<rparr>, \<lparr>ns_Net = ''tcp'', ns_Addr = ''119.28.28.28:53''\<rparr>,
      \<lparr>ns_Net = ''tcp'', ns_Addr = ''223.5.5.5:53''\<rparr>, \<lparr>ns_Net = ''tcp'', ns_Addr = ''223.6.6.6:53''\<rparr>,
      \<lparr>ns_Net = ''tcp'', ns_Addr = ''1.0.0.1:53''\<rparr>, \<lparr>ns_Net = ''tcp'', ns_Addr = ''1.1.1.1:53''\<rparr>,
      \<lparr>ns_Net = ''tcp'', ns_Addr = ''8.8.8.8:53''\<rparr>, \<lparr>ns_Net = ''tcp'', ns_Addr = ''8.8.4.4:53''\<rparr>]"

definition DefaultResolver :: "(string, nat) heap \<Rightarrow> dstate" where
  "DefaultResolver h = NewResolver NameServers h"

text \<open>The goroutine of \<^verbatim>\<open>registerSignalHandlers\<close> after a signal: both listeners, if there, are shut down with 15
  seconds each, then the process exits with the code in the result.\<close>

definition on_signal ::
    "int option \<Rightarrow> bool \<Rightarrow> int option \<Rightarrow> bool \<Rightarrow> server_Listener option \<times> Listener option \<Rightarrow>
     nat \<times> server_Listener option \<times> Listener option" where
  "on_signal idle_s pick_s idle_c pick_c sc =
     (let (s, c) = sc
      in (0, map_option (\<lambda>l. snd (server_ShutdownWithTimeout 15 idle_s pick_s l)) s,
             map_option (\<lambda>l. snd (ShutdownWithTimeout 15 idle_c pick_c l)) c))"

text \<open>\<^verbatim>\<open>slice[len(slice)-1]\<close> would panic on an empty slice.\<close>

definition trimFunctionSuffix :: "string \<Rightarrow> string res" where
  "trimFunctionSuffix s =
     (let s = (case strings_Index s ''.func'' of Some index \<Rightarrow> take index s | None \<Rightarrow> s);
          s = TrimSuffix s ''.'';
          slice = strings_Split s ''.''
      in if slice = [] then Panic else Ret (last slice))"

text \<open>\<^verbatim>\<open>path.Base\<close>, and the caller in a line of the log: the function and the place in the file.\<close>

definition path_Base :: "string \<Rightarrow> string" where
  "path_Base path =
     (if path = '''' then ''.''
      else let path = rev (dropWhile (\<lambda>c. c = CHR ''/'') (rev path));
               path = rev (takeWhile (\<lambda>c. c \<noteq> CHR ''/'') (rev path))
           in if path = '''' then ''/'' else path)"

definition CallerPrettyfier :: "string \<Rightarrow> string \<Rightarrow> int \<Rightarrow> (string \<times> string) res" where
  "CallerPrettyfier fname file line =
     (let file = path_Base file @ '':'' @ FormatInt line
      in case trimFunctionSuffix fname of
           Ret function \<Rightarrow> Ret (function, file) | Fail e \<Rightarrow> Fail e | Panic \<Rightarrow> Panic)"

datatype command = RootCmd | ServerCmd | ClientCmd

record program =
  report_caller :: bool
  TimestampFormat :: string
  DisableColors :: bool
  caller_of :: "string \<Rightarrow> string \<Rightarrow> int \<Rightarrow> (string \<times> string) res"
  signal_handler :: bool
  config_path :: string
  subcommands :: "command list"
  default_resolver :: dstate

text \<open>\<^verbatim>\<open>init\<close>: the log, the goroutine that waits for a signal, the flag \<^verbatim>\<open>--config\<close> with its default, the two subcommands, the
  resolver.\<close>

definition main_init :: "(string, nat) heap \<Rightarrow> program" where
  "main_init h =
     \<lparr>report_caller = True, TimestampFormat = ''2006-01-02T15:04:05Z07:00'', DisableColors = True, caller_of = CallerPrettyfier,
      signal_handler = True, config_path = ''config.yaml'', subcommands = [ServerCmd, ClientCmd],
      default_resolver = DefaultResolver h\<rparr>"

text \<open>The end of \<^verbatim>\<open>Run\<close> of the three commands: the listener serves, and an error of \<^verbatim>\<open>ListenAndServe\<close>, like one of the set-up,
  goes to \<^verbatim>\<open>logrus.Fatalln\<close>, which exits with 1; a panic exits with 2. \<open>None\<close>: the process runs until a signal.\<close>

definition main_Run ::
    "(started \<times> conf_state) option \<Rightarrow> (Config \<Rightarrow> unit res option) \<Rightarrow> (Config \<Rightarrow> unit res option) \<Rightarrow> nat option" where
  "main_Run run run_mixed run_server =
     (case run of
        None \<Rightarrow> Some 1
      | Some (r, st) \<Rightarrow>
          (case App st of
             None \<Rightarrow> Some 2
           | Some c \<Rightarrow>
               (case (if listener r = MixedListener then run_mixed c else run_server c) of
                  None \<Rightarrow> None
                | Some (Ret _) \<Rightarrow> Some 0
                | Some (Fail _) \<Rightarrow> Some 1
                | Some Panic \<Rightarrow> Some 2)))"

text \<open>\<^verbatim>\<open>main\<close>: \<open>Execute\<close> stands for the command line of cobra, which yields the command to run, if any (a request for help
  runs none), and the path of the configuration, or an error that \<^verbatim>\<open>CheckErr\<close> turns into the exit code 1. \<open>L\<close> are the
  libraries reading the file of that path.\<close>

definition command_Run :: "command \<Rightarrow> libs \<Rightarrow> conf_state \<Rightarrow> (started \<times> conf_state) option" where
  "command_Run k = (case k of RootCmd \<Rightarrow> cmd_Run | ServerCmd \<Rightarrow> serverCmd_Run | ClientCmd \<Rightarrow> clientCmd_Run)"

definition main ::
    "(program \<Rightarrow> string list \<Rightarrow> (command option \<times> string) res) \<Rightarrow> (string \<Rightarrow> libs) \<Rightarrow> (Config \<Rightarrow> unit res option) \<Rightarrow>
     (Config \<Rightarrow> unit res option) \<Rightarrow> (string, nat) heap \<Rightarrow> string list \<Rightarrow> conf_state \<Rightarrow> nat option" where
  "main Execute L run_mixed run_server h args st =
     (case Execute (main_init h) args of
        Ret (Some k, path) \<Rightarrow> main_Run (command_Run k (L path) st) run_mixed run_server
      | Ret (None, _) \<Rightarrow> Some 0
      | Fail _ \<Rightarrow> Some 1
      | Panic \<Rightarrow> Some 2)"

section \<open>Properties\<close>

lemma on_signal_stops: "on_signal is ps ic pc (s, c) = (n, s', c') \<Longrightarrow> (\<forall>l. s' = Some l \<longrightarrow> \<not> server_State l) \<and> (\<forall>l. c' = Some l \<longrightarrow> \<not> mixed_State l)"
  by (auto simp: on_signal_def server_ShutdownWithTimeout_def ShutdownWithTimeout_def Let_def server_State_def mixed_State_def)

text \<open>Once the configuration is loaded and the socket is bound, a command never ends by itself.\<close>

lemma client_keeps_serving:
  assumes "clientCmd_Run L st = Some (r, st')" and "App st' = Some c"
    and "fst (mixed_listen a t u v mixed_New) = Ret ()"
  shows "main_Run (clientCmd_Run L st)
    (\<lambda>c. map_option fst (mixed_ListenAndServe pp accepts c a t u v mixed_New))
    (\<lambda>c. map_option fst (server_ListenAndServe pp accepts c a t' v None)) = None"
proof -
  have "listener r = MixedListener"
    using start_with_Some [OF assms(1) [unfolded clientCmd_Run_def]] by metis
  then show ?thesis
    using assms by (simp add: main_Run_def mixed_ListenAndServe_eq)
qed

lemma main_Run_no_zero:
  "main_Run run (\<lambda>c. map_option fst (mixed_ListenAndServe pp accepts c a t u v mixed_New))
     (\<lambda>c. map_option fst (server_ListenAndServe pp accepts c a t' v None)) \<noteq> Some 0"
  by (auto simp: main_Run_def mixed_ListenAndServe_eq server_ListenAndServe_eq split: option.splits res.splits)

text \<open>By itself, the process ends with the exit code 0 exactly if the command line asks for no command to be run: no command
  returns without an error.\<close>

theorem main_exits_zero:
  "main Execute L (\<lambda>c. map_option fst (mixed_ListenAndServe pp accepts c a t u v mixed_New))
       (\<lambda>c. map_option fst (server_ListenAndServe pp accepts c a t' v server_New)) h args st = Some 0 \<longleftrightarrow>
     (\<exists>path. Execute (main_init h) args = Ret (None, path))"
  by (auto simp: main_def server_New_def main_Run_no_zero split: res.splits option.splits)

text \<open>A line of the log names the last part of the function and of the file.\<close>

lemma path_Base_file:
  "CHR ''/'' \<notin> set f \<Longrightarrow> f \<noteq> '''' \<Longrightarrow> path_Base (d @ ''/'' @ f) = f"
  by (cases f rule: rev_cases) (auto simp: path_Base_def Let_def takeWhile_tail, subst takeWhile_eq_all_conv [THEN iffD2], auto)

lemma NameServers_v4:
  "map ns_Addr NameServers = map (\<lambda>ip. v4_String ip @ '':'' @ ''53'')
     [[119, 29, 29, 29], [119, 28, 28, 28], [223, 5, 5, 5], [223, 6, 6, 6], [1, 0, 0, 1], [1, 1, 1, 1], [8, 8, 8, 8], [8, 8, 4, 4]]"
  by code_simp

lemma NameServers_addresses:
  assumes "s \<in> set NameServers"
  obtains ip where "length ip = 4" and "ns_Net s = ''tcp''" and "ns_Addr s = v4_String ip @ '':'' @ ''53''"
proof -
  have "ns_Addr s \<in> set (map ns_Addr NameServers)"
    using assms by simp
  then obtain ip where ip: "ip \<in> set [[119, 29, 29, 29], [119, 28, 28, 28], [223, 5, 5, 5], [223, 6, 6, 6], [1, 0, 0, 1], [1, 1, 1, 1],
      [8, 8, 8, 8], [8, 8, 4, 4]]" "ns_Addr s = v4_String ip @ '':'' @ ''53''"
    unfolding NameServers_v4 set_map by (elim imageE)
  have "length ip = 4"
    using ip(1) by auto
  moreover have "ns_Net s = ''tcp''"
    using assms by (auto simp: NameServers_def)
  ultimately show thesis
    using that ip(2) by blast
qed

text \<open>The default resolver asks exactly the name servers of its list: for each of them, an exchange dials its
  address over TCP, without any other look-up and without TLS, and returns what the server says, unless the dial fails or the
  context ends first.\<close>

theorem default_servers_dialled:
  "map (\<lambda>c. fst (client_ExchangeContext W c m ())) (dmain (DefaultResolver h)) =
   map (\<lambda>s. case DialContext W ''tcp'' (ns_Addr s) of
       Fail e \<Rightarrow> Fail e | Panic \<Rightarrow> Panic
     | Ret _ \<Rightarrow> (case ctx_Err W of Some e \<Rightarrow> Fail e | None \<Rightarrow> ExchangeWithConn W ''tcp'' (ns_Addr s) False m)) NameServers"
proof -
  have "fst (client_ExchangeContext W c m ()) = (case DialContext W ''tcp'' (ns_Addr s) of
       Fail e \<Rightarrow> Fail e | Panic \<Rightarrow> Panic
     | Ret _ \<Rightarrow> (case ctx_Err W of Some e \<Rightarrow> Fail e | None \<Rightarrow> ExchangeWithConn W ''tcp'' (ns_Addr s) False m))"
    if s: "s \<in> set NameServers" and c: "transform [s] None = [c]" for s and c :: "(Msg, nat, unit) client"
  proof -
    obtain ip where ip: "length ip = 4" "ns_Net s = ''tcp''" "ns_Addr s = v4_String ip @ '':'' @ ''53''"
      using NameServers_addresses [OF s] .
    have port: "\<forall>c \<in> set ''53''. is_digit c"
      by (simp add: is_digit_def)
    have ceq: "c = \<lparr>cNet = ''tcp'', ServerName = v4_String ip, UDPSize = 4096, cTimeout = 5, cport = ''53'', chost = v4_String ip, cr = None\<rparr>"
      using c v4_host_port(2) [OF ip(1) port] ip(2,3) by (simp add: transform_def split_or_empty_def)
    have "client_ip W c () = (Ret (v4InV6Prefix @ ip), ())"
      using ParseIP_v4_String [OF ip(1)] by (simp add: client_ip_def ceq v4InV6Prefix_def)
    moreover have "net_JoinHostPort (IP_String (v4InV6Prefix @ ip)) ''53'' = ns_Addr s"
      using v4_host_port(1) [OF ip(1) port] IP_String_v4(1) [OF ip(1)] ip(3) by simp
    ultimately show ?thesis
      unfolding client_ExchangeContext_def by (simp add: ceq HasPrefix_def HasSuffix_def split: res.splits option.splits)
  qed
  then show ?thesis
    by (auto simp: DefaultResolver_def NewResolver_def transform_def)
qed

end
