(* ===== verification/Tunnel.thy ===== *)
theory Tunnel
  imports Server
begin

text \<open>
  \<^verbatim>\<open>internal/tunnel/tunnel.go\<close>: what is done with a queued context (\<^verbatim>\<open>handleTCPConn\<close>), up to the start of
  the relay and after its end. The resolver, the dialler, the clock of the reply header, the random
  numbers and snappy are the parameter \<open>tunnel_env\<close>; a dialled connection is a \<open>conn\<close>.
\<close>

record tunnel_env =
  ResolveIP :: "string \<Rightarrow> IP_bytes res"
  Dial :: "bool \<Rightarrow> string \<Rightarrow> conn res"
  Date :: string
  Rnd :: "nat \<Rightarrow> nat"
  Snappy :: snappy

section \<open>The operations\<close>

definition run_PreFn :: "string \<Rightarrow> PreFn \<Rightarrow> (unit, session) io" where
  "run_PreFn date f =
     (case f of
        NoPreFn \<Rightarrow> io_ret ()
      | WriteReply bs \<Rightarrow> io_skip (conn_Write bs)
      | WriteProxyHeader \<Rightarrow> httpWriteProxyHeader date)"

definition run_PostFn :: "PostFn \<Rightarrow> (unit, session) io" where
  "run_PostFn f = (case f of NoPostFn \<Rightarrow> io_ret () | WgDone \<Rightarrow> wg_Done)"

definition dial_target :: "Config \<Rightarrow> TCPContext \<Rightarrow> IP" where
  "dial_target cfg ctx =
     (if Mode cfg = ClientMode then \<lparr>Addr = Host (Server cfg), Port = srv_Port (Server cfg)\<rparr>
      else Dest (Metadata ctx))"

text \<open>What a client sends to its server before the relay.\<close>

definition send_target :: "tunnel_env \<Rightarrow> bytes \<Rightarrow> TCPContext \<Rightarrow> (unit, conn) io" where
  "send_target env token ctx =
     io_bind (EncodeWrite (Snappy env) (Rnd env 0) token (bytes_of (constant_IP_String (Dest (Metadata ctx))))) (\<lambda>_.
     if Line ctx \<noteq> ''''
     then io_bind (EncodeWrite (Snappy env) (Rnd env 1) token (bytes_of (Line ctx))) (\<lambda>_. io_ret ())
     else io_ret ())"

text \<open>How the handling ends: before the relay, or with a relay of this kind, whose \<^verbatim>\<open>Src\<close> is the dialled
  connection in client mode and the client's otherwise. \<open>closing\<close> are the deferred closes, \<open>PostFn\<close> the
  deferred release, which is registered only after \<^verbatim>\<open>PreFn\<close>.\<close>

datatype tunnel_end = Aborted | Relaying relay_type bool

definition closing :: "session \<Rightarrow> session" where
  "closing s = s\<lparr>closed := True\<rparr>"

definition handleTCPConn ::
    "tunnel_env \<Rightarrow> Config \<Rightarrow> bytes \<Rightarrow> TCPContext \<Rightarrow> session \<Rightarrow> (tunnel_end res \<times> session \<times> conn option) option" where
  "handleTCPConn env cfg token ctx s =
     (let target = dial_target cfg ctx
      in case ResolveIP env (Addr target) of
           Fail e \<Rightarrow> Some (Ret Aborted, closing s, None)
         | Panic \<Rightarrow> Some (Panic, closing s, None)
         | Ret ip \<Rightarrow>
             let destAddr = net_JoinHostPort (IP_String ip) (FormatInt (Port target))
             in case Dial env (Enable (TLS cfg) \<and> Mode cfg = ClientMode) destAddr of
                  Fail e \<Rightarrow> Some (Ret Aborted, closing s, None)
                | Panic \<Rightarrow> Some (Panic, closing s, None)
                | Ret d \<Rightarrow>
                    (case (if Mode cfg = ClientMode then send_target env token ctx else io_ret ()) d of
                       None \<Rightarrow> None
                     | Some (Fail e, d) \<Rightarrow> Some (Ret Aborted, closing s, Some (d\<lparr>closed := True\<rparr>))
                     | Some (Panic, d) \<Rightarrow> Some (Panic, closing s, Some (d\<lparr>closed := True\<rparr>))
                     | Some (Ret _, d) \<Rightarrow>
                         (case run_PreFn (Date env) (PreFn ctx) s of
                            None \<Rightarrow> None
                          | Some (_, s) \<Rightarrow>
                              if Mode cfg = DirectMode then
                                (if Line ctx \<noteq> '''' then
                                   (case conn_Write (bytes_of (Line ctx)) d of
                                      Some (Ret _, d) \<Rightarrow> Some (Ret (Relaying Direct False), s, Some d)
                                    | Some (_, d) \<Rightarrow>
                                        (case run_PostFn (PostFn ctx) s of
                                           Some (Ret _, s) \<Rightarrow> Some (Ret Aborted, closing s, Some (d\<lparr>closed := True\<rparr>))
                                         | Some (_, s) \<Rightarrow> Some (Panic, closing s, Some (d\<lparr>closed := True\<rparr>))
                                         | None \<Rightarrow> None)
                                    | None \<Rightarrow> None)
                                 else Some (Ret (Relaying Direct False), s, Some d))
                              else Some (Ret (Relaying Proxy (Mode cfg = ClientMode)), s, Some d))))"

text \<open>After the relay: the deferred calls.\<close>

definition finish_relay :: "TCPContext \<Rightarrow> session \<Rightarrow> conn \<Rightarrow> (unit res \<times> session \<times> conn) option" where
  "finish_relay ctx s d =
     map_option (\<lambda>(r, s). (r, closing s, d\<lparr>closed := True\<rparr>)) (run_PostFn (PostFn ctx) s)"

section \<open>Facts\<close>

lemma run_PreFn_keeps: "keeps (rest_is q w a) (run_PreFn date f)"
proof -
  have "keeps (rest_is q w a) (httpWriteProxyHeader date)"
    unfolding httpWriteProxyHeader_def
    by (rule triples triple_bind [where R = "\<lambda>_. rest_is q w a"] | simp)+
  then show ?thesis
    by (cases f) (auto simp: run_PreFn_def intro!: triples)
qed

lemma run_PreFn_returns: "\<exists>s'. run_PreFn date f s = Some (Ret (), s')"
proof -
  have "\<exists>s'. httpWriteProxyHeader date s = Some (Ret (), s')"
    by (auto simp: httpWriteProxyHeader_def io_skip_def io_catch_def io_bind_def conn_Write_def split: option.splits)
  then show ?thesis
    by (cases f) (simp_all add: run_PreFn_def)
qed

lemma send_target_ok:
  assumes "snappy_ok (Snappy env)" and "token \<noteq> []" and "fits_packet (Snappy env)" and "\<forall>i. Rnd env i < 99"
    and "length (constant_IP_String (Dest (Metadata ctx))) \<le> bufSize" and "length (Line ctx) \<le> bufSize" and "writable d"
  obtains pkt where "packet_of (Snappy env) token (Rnd env 0) (bytes_of (constant_IP_String (Dest (Metadata ctx)))) pkt"
    and "Line ctx = ''''" and "send_target env token ctx d = Some (Ret (), d\<lparr>outp := outp d @ pkt\<rparr>)"
  | pkt pkt' where "packet_of (Snappy env) token (Rnd env 0) (bytes_of (constant_IP_String (Dest (Metadata ctx)))) pkt"
    and "packet_of (Snappy env) token (Rnd env 1) (bytes_of (Line ctx)) pkt'"
    and "send_target env token ctx d = Some (Ret (), d\<lparr>outp := outp d @ pkt @ pkt'\<rparr>)"
proof -
  let ?dst = "bytes_of (constant_IP_String (Dest (Metadata ctx)))"
  have "?dst \<noteq> []" "length ?dst \<le> bufSize"
    using assms(5) by (simp_all add: constant_IP_String_def net_JoinHostPort_def)
  from EncodeWrite_ok [OF assms(1-3) this assms(7), of "Rnd env 0"] obtain pkt
    where pkt: "packet_of (Snappy env) token (Rnd env 0) ?dst pkt"
      "EncodeWrite (Snappy env) (Rnd env 0) token ?dst d = Some (Ret (length pkt), d\<lparr>outp := outp d @ pkt\<rparr>)"
    by blast
  show thesis
  proof (cases "Line ctx = ''''")
    case True
    then show thesis
      using pkt by (intro that(1) [of pkt]) (simp_all add: send_target_def)
  next
    case False
    then have line: "bytes_of (Line ctx) \<noteq> []" "length (bytes_of (Line ctx)) \<le> bufSize"
      using assms(6) by simp_all
    obtain pkt' where "packet_of (Snappy env) token (Rnd env 1) (bytes_of (Line ctx)) pkt'"
      "EncodeWrite (Snappy env) (Rnd env 1) token (bytes_of (Line ctx)) (d\<lparr>outp := outp d @ pkt\<rparr>) =
        Some (Ret (length pkt'), d\<lparr>outp := (outp d @ pkt) @ pkt'\<rparr>)"
      using EncodeWrite_ok [OF assms(1-3) line, of "d\<lparr>outp := outp d @ pkt\<rparr>" "Rnd env 1"] assms(7) by auto
    then show thesis
      using pkt False by (intro that(2) [of pkt pkt']) (simp_all add: send_target_def)
  qed
qed

text \<open>A tunnel that cannot resolve or dial its target never releases the connection: the handling ends
  with the client's connection closed, but the \<^verbatim>\<open>PostFn\<close> is registered only later, so that the counter of
  the wait group stays up for ever, and the client gets no reply.\<close>

theorem tunnel_abort_leaks_wait_group:
  assumes "\<exists>e. ResolveIP env (Addr (dial_target cfg ctx)) = Fail e \<or>
    (\<exists>ip. ResolveIP env (Addr (dial_target cfg ctx)) = Ret ip \<and>
       Dial env (Enable (TLS cfg) \<and> Mode cfg = ClientMode)
         (net_JoinHostPort (IP_String ip) (FormatInt (Port (dial_target cfg ctx)))) = Fail e)"
  shows "\<exists>s'. handleTCPConn env cfg token ctx s = Some (Ret Aborted, s', None) \<and>
    closed s' \<and> wg s' = wg s \<and> outp s' = outp s"
  using assms by (auto simp: handleTCPConn_def closing_def Let_def)

definition example_ctx :: TCPContext where
  "example_ctx = \<lparr>Metadata = \<lparr>ID = [], NetWork = TCP, Type = SOCKS5, Src = IP_of '''', Dest = \<lparr>Addr = ''a.b'', Port = 80\<rparr>\<rparr>,
     Line = '''', PreFn = WriteReply [5, 0], PostFn = WgDone\<rparr>"

definition example_env :: tunnel_env where
  "example_env = \<lparr>ResolveIP = (\<lambda>_. Ret [1, 2, 3, 4]), Dial = (\<lambda>_ _. Ret (idle_conn [])), Date = '''', Rnd = (\<lambda>_. 7),
     Snappy = stored_snappy\<rparr>"

theorem tunnel_abort_leaks_wait_group_witness:
  "\<exists>s'. handleTCPConn (example_env\<lparr>ResolveIP := (\<lambda>_. Fail EOF)\<rparr>) initial_Config [1] example_ctx (client_session []) =
     Some (Ret Aborted, s', None) \<and> closed s' \<and> wg s' = 1"
  using tunnel_abort_leaks_wait_group [of "example_env\<lparr>ResolveIP := (\<lambda>_. Fail EOF)\<rparr>" initial_Config example_ctx "[1]"
      "client_session []"] by (auto simp: client_session_def)

text \<open>The kind of relay follows the mode: client mode relays with the dialled server as the encoding
  side, server mode with the client as the encoding side, direct mode copies; once a relay is
  under way the context is released exactly once at its end.\<close>

theorem tunnel_relay_mode:
  assumes "handleTCPConn env cfg token ctx s = Some (Ret (Relaying t swapped), s', dst)" and "0 < wg s" and "PostFn ctx = WgDone"
  shows "(Mode cfg = DirectMode \<longrightarrow> t = Direct) \<and> (Mode cfg \<noteq> DirectMode \<longrightarrow> t = Proxy) \<and>
    (swapped \<longleftrightarrow> Mode cfg = ClientMode) \<and> wg s' = wg s \<and>
    (\<exists>d. dst = Some d \<and> (\<exists>s2 d2. finish_relay ctx s' d = Some (Ret (), s2, d2) \<and> wg s2 = wg s - 1 \<and> closed s2 \<and> closed d2))"
proof -
  have modes: "Mode cfg = DirectMode \<Longrightarrow> Mode cfg \<noteq> ClientMode"
    by (simp add: DirectMode_def ClientMode_def)
  obtain s1 where pre: "run_PreFn (Date env) (PreFn ctx) s = Some (Ret (), s1)"
    using run_PreFn_returns by blast
  have "rest_is (tcpIn s) (wg s) (raddr s) s"
    by (simp add: rest_is_def)
  from tripleD [OF run_PreFn_keeps this pre] have "wg s1 = wg s"
    by (simp add: rest_is_def)
  have "s' = s1 \<and> (\<exists>d. dst = Some d) \<and> t = (if Mode cfg = DirectMode then Direct else Proxy) \<and>
      (swapped \<longleftrightarrow> Mode cfg = ClientMode)"
    using assms(1) pre modes
    by (auto simp: handleTCPConn_def Let_def split: res.splits option.splits prod.splits if_splits)
  then show ?thesis
    using \<open>wg s1 = wg s\<close> assms(2,3)
    by (auto simp: finish_relay_def run_PostFn_def wg_Done_def wg_Add_def closing_def)
qed

lemma example_run:
  "\<exists>s' d. handleTCPConn example_env initial_Config [1] example_ctx (client_session []) =
     Some (Ret (Relaying Direct False), s', Some d)"
  by (simp add: handleTCPConn_def example_env_def example_ctx_def initial_Config_def dial_target_def DirectMode_def
      ClientMode_def run_PreFn_def)

theorem tunnel_relay_mode_witness:
  "\<exists>s' d s2 d2. handleTCPConn example_env initial_Config [1] example_ctx (client_session []) =
      Some (Ret (Relaying Direct False), s', Some d) \<and>
     finish_relay example_ctx s' d = Some (Ret (), s2, d2) \<and> wg s2 = 0"
proof -
  obtain s' d where run: "handleTCPConn example_env initial_Config [1] example_ctx (client_session []) =
      Some (Ret (Relaying Direct False), s', Some d)"
    using example_run by blast
  have "0 < wg (client_session [])" "PostFn example_ctx = WgDone" "wg (client_session []) = 1"
    by (simp_all add: client_session_def example_ctx_def)
  then show ?thesis
    using tunnel_relay_mode [OF run] run by auto
qed

text \<open>In client mode, with a server that can be dialled, the bytes sent ahead of the relay are the packet of
  the destination, followed by the packet of the HTTP request if there is one.\<close>

lemma client_relay_starts:
  assumes "Mode cfg = ClientMode" and "ResolveIP env (Addr (dial_target cfg ctx)) = Ret ip"
    and "Dial env (Enable (TLS cfg)) (net_JoinHostPort (IP_String ip) (FormatInt (Port (dial_target cfg ctx)))) = Ret d"
    and "send_target env token ctx d = Some (Ret (), d')"
  shows "\<exists>s'. handleTCPConn env cfg token ctx s = Some (Ret (Relaying Proxy True), s', Some d')"
proof -
  obtain s1 where "run_PreFn (Date env) (PreFn ctx) s = Some (Ret (), s1)"
    using run_PreFn_returns by blast
  moreover have "Mode cfg \<noteq> DirectMode"
    using assms(1) by (simp add: DirectMode_def ClientMode_def)
  ultimately show ?thesis
    using assms by (simp add: handleTCPConn_def Let_def)
qed

end
