(* ===== verification/Workers.thy ===== *)
theory Workers
  imports Tunnel
begin

text \<open>
  The worker pool of \<^verbatim>\<open>internal/tunnel/tunnel.go\<close>: \<^verbatim>\<open>Start\<close>, \<^verbatim>\<open>process\<close> and \<^verbatim>\<open>processTCP\<close>. The workers take the contexts from
  the unbounded channel \<^verbatim>\<open>TCPIn\<close> (first in, first out) and start a goroutine \<^verbatim>\<open>handleTCPConn\<close> for each; the listeners send at any
  time. \<open>sent\<close> is the history of everything sent.
\<close>

definition initial_workers :: int where
  "initial_workers = 4"

definition process :: "int \<Rightarrow> int \<Rightarrow> int" where
  "process gomaxprocs workers =
     (let workers = (if workers < gomaxprocs then gomaxprocs else workers) in workers * workers)"

record pool =
  TCPIn :: "TCPContext list"
  started_conns :: "TCPContext list"
  worker_count :: int
  sent :: "TCPContext list"

definition tunnel_Start :: "int \<Rightarrow> pool" where
  "tunnel_Start gomaxprocs = \<lparr>TCPIn = [], started_conns = [], worker_count = process gomaxprocs initial_workers, sent = []\<rparr>"

text \<open>One round of \<^verbatim>\<open>processTCP\<close> in one of the workers.\<close>

definition processTCP :: "pool \<Rightarrow> pool option" where
  "processTCP p =
     (case TCPIn p of
        [] \<Rightarrow> None
      | conn # rest \<Rightarrow> Some (p\<lparr>TCPIn := rest, started_conns := started_conns p @ [conn]\<rparr>))"

inductive pool_step :: "pool \<Rightarrow> pool \<Rightarrow> bool" where
  send: "pool_step p (p\<lparr>TCPIn := TCPIn p @ [ctx], sent := sent p @ [ctx]\<rparr>)"
| work: "0 < worker_count p \<Longrightarrow> processTCP p = Some p' \<Longrightarrow> pool_step p p'"

section \<open>Properties\<close>

lemma process_workers: "16 \<le> process n initial_workers"
proof -
  have "4 * 4 \<le> max n 4 * max n 4"
    by (intro mult_mono) auto
  then show ?thesis
    by (simp add: process_def initial_workers_def max_def split: if_splits)
qed

lemma pool_inv_step:
  assumes "pool_step p p'" and "sent p = started_conns p @ TCPIn p"
  shows "sent p' = started_conns p' @ TCPIn p' \<and> worker_count p' = worker_count p"
  using assms by (cases rule: pool_step.cases) (auto simp: processTCP_def split: list.splits)

lemma pool_reachable_inv:
  assumes "pool_step\<^sup>*\<^sup>* (tunnel_Start n) p"
  shows "sent p = started_conns p @ TCPIn p \<and> worker_count p = process n initial_workers"
  using assms
proof (induction rule: rtranclp_induct)
  case base
  then show ?case
    by (simp add: tunnel_Start_def)
next
  case (step p p')
  then show ?case
    using pool_inv_step [of p p'] by simp
qed

text \<open>Every context that a front end sends is handled exactly once, in the order of sending: what has been
  sent is what has been started followed by what still waits, under every interleaving; there are always workers (at least
  16), and as long as something waits one of them can take it.\<close>

theorem pool_handles_once:
  assumes "pool_step\<^sup>*\<^sup>* (tunnel_Start gomaxprocs) p"
  shows "sent p = started_conns p @ TCPIn p \<and> 16 \<le> worker_count p \<and>
    (\<forall>ctx rest. TCPIn p = ctx # rest \<longrightarrow> (\<exists>p'. pool_step p p' \<and> started_conns p' = started_conns p @ [ctx] \<and> TCPIn p' = rest))"
proof -
  have inv: "sent p = started_conns p @ TCPIn p" "16 \<le> worker_count p"
    using pool_reachable_inv [OF assms] process_workers by auto
  have "\<exists>p'. pool_step p p' \<and> started_conns p' = started_conns p @ [ctx] \<and> TCPIn p' = rest" if "TCPIn p = ctx # rest" for ctx rest
    using pool_step.work [of p "p\<lparr>TCPIn := rest, started_conns := started_conns p @ [ctx]\<rparr>"] inv(2) that
    by (intro exI [of _ "p\<lparr>TCPIn := rest, started_conns := started_conns p @ [ctx]\<rparr>"]) (simp add: processTCP_def)
  with inv show ?thesis
    by blast
qed

theorem pool_handles_once_witness:
  "\<forall>ctx. \<exists>p p'. pool_step\<^sup>*\<^sup>* (tunnel_Start 8) p \<and> sent p = [ctx] \<and> pool_step p p' \<and> started_conns p' = [ctx]"
proof
  fix ctx
  let ?p = "(tunnel_Start 8)\<lparr>TCPIn := TCPIn (tunnel_Start 8) @ [ctx], sent := sent (tunnel_Start 8) @ [ctx]\<rparr>"
  have run: "pool_step\<^sup>*\<^sup>* (tunnel_Start 8) ?p"
    by (rule r_into_rtranclp) (rule pool_step.send)
  have "TCPIn ?p = [ctx]" "started_conns ?p = []" "sent ?p = [ctx]"
    by (simp_all add: tunnel_Start_def)
  then show "\<exists>p p'. pool_step\<^sup>*\<^sup>* (tunnel_Start 8) p \<and> sent p = [ctx] \<and> pool_step p p' \<and> started_conns p' = [ctx]"
    using pool_handles_once [OF run] run by fastforce
qed

end
