(* ===== verification/Relay.thy ===== *)
theory Relay
  imports Secure_TCP Constant "HOL-Library.Sublist"
begin

text \<open>
  \<^verbatim>\<open>internal/net/relay.go\<close>: the two goroutines of a relay and how they end each other.

  A goroutine moves bytes from one connection to the other (a pump): it reads a chunk, writes it,
  and at an error or the end of the stream sets the read deadline of the connection it writes to
  to the present, so that the reads of the other goroutine fail from then on. \<open>late\<close> says that the read deadline of a
  connection has passed. A read of a late connection may fail at any time; it may also still
  return bytes that a buffered reader of the process already holds. A step of a pump is one call; the
  relay is the interleaving of the two pumps and of \<^verbatim>\<open>Close\<close> calls of the API on the tracked
  connection. Writes are taken to return, with an error or not.
\<close>

record rconn = conn +
  late :: bool

datatype pc = Reading | Writing bytes | Ending bool | Ended bool | Panicked

text \<open>\<open>Ending c\<close> and \<open>Ended c\<close>: the loop is left, before and after the deadline is set; \<open>c\<close> says
  that it was left at the end of the stream.\<close>

inductive pump_step :: "(bytes, rconn) io \<Rightarrow> (nat \<Rightarrow> bytes \<Rightarrow> (nat, rconn) io) \<Rightarrow>
    pc \<times> rconn \<times> rconn \<Rightarrow> pc \<times> rconn \<times> rconn \<Rightarrow> bool" for R W where
  got: "R a = Some (Ret bs, a') \<Longrightarrow> pump_step R W (Reading, a, b) (Writing bs, a', b)"
| over: "R a = Some (Fail e, a') \<Longrightarrow> pump_step R W (Reading, a, b) (Ending (e = EOF), a', b)"
| timeout: "late a \<Longrightarrow> pump_step R W (Reading, a, b) (Ending False, a\<lparr>inp := q\<rparr>, b)"
| read_panic: "R a = Some (Panic, a') \<Longrightarrow> pump_step R W (Reading, a, b) (Panicked, a', b)"
| put: "r < 99 \<Longrightarrow> W r bs b = Some (Ret n, b') \<Longrightarrow> pump_step R W (Writing bs, a, b) (Reading, a, b')"
| put_fail: "r < 99 \<Longrightarrow> W r bs b = Some (Fail e, b') \<Longrightarrow> pump_step R W (Writing bs, a, b) (Ending False, a, b')"
| put_panic: "r < 99 \<Longrightarrow> W r bs b = Some (Panic, b') \<Longrightarrow> pump_step R W (Writing bs, a, b) (Panicked, a, b')"
| deadline: "pump_step R W (Ending c, a, b) (Ended c, a, b\<lparr>late := True\<rparr>)"

inductive_cases pump_stepE: "pump_step R W (p, a, b) s'"

section \<open>The three loops, call by call\<close>

text \<open>\<^verbatim>\<open>io.Copy\<close>, \<^verbatim>\<open>EncodeCopy\<close> and the decoding loop: what is read and how it is written. The first
  two do not write an empty chunk.\<close>

definition copy_read :: "(bytes, rconn) io" where
  "copy_read = conn_Read 32768"

definition copy_write :: "nat \<Rightarrow> bytes \<Rightarrow> (nat, rconn) io" where
  "copy_write r bs = (if bs = [] then io_ret 0 else conn_Write bs)"

definition encode_read :: "(bytes, rconn) io" where
  "encode_read = conn_Read bufSize"

definition encode_write :: "snappy \<Rightarrow> bytes \<Rightarrow> nat \<Rightarrow> bytes \<Rightarrow> (nat, rconn) io" where
  "encode_write sn token r bs = (if bs = [] then io_ret 0 else EncodeWrite sn r token bs)"

definition decode_read :: "snappy \<Rightarrow> bytes \<Rightarrow> (bytes, rconn) io" where
  "decode_read sn token = io_bind (protocol_ReadFull sn token) (\<lambda>pack. io_ret (Payload pack))"

definition decode_write :: "nat \<Rightarrow> bytes \<Rightarrow> (nat, rconn) io" where
  "decode_write r bs = conn_Write bs"

section \<open>The relay\<close>

record relay =
  up_pc :: pc
  down_pc :: pc
  r_src :: rconn
  r_dest :: rconn
  r_done :: bool

definition running :: "relay \<Rightarrow> bool" where
  "running s \<longleftrightarrow> \<not> r_done s \<and> up_pc s \<noteq> Panicked \<and> down_pc s \<noteq> Panicked"

text \<open>The pump \<open>up\<close> moves bytes from \<^verbatim>\<open>Src\<close> to \<^verbatim>\<open>Dest\<close>, the pump \<open>down\<close> back. The last rule is the return of
  \<^verbatim>\<open>wg.Wait()\<close> with the deferred \<^verbatim>\<open>Close\<close> calls.\<close>

inductive relay_step :: "(bytes, rconn) io \<Rightarrow> (nat \<Rightarrow> bytes \<Rightarrow> (nat, rconn) io) \<Rightarrow> (bytes, rconn) io \<Rightarrow>
    (nat \<Rightarrow> bytes \<Rightarrow> (nat, rconn) io) \<Rightarrow> relay \<Rightarrow> relay \<Rightarrow> bool" for Ru Wu Rd Wd where
  up: "running s \<Longrightarrow> pump_step Ru Wu (up_pc s, r_src s, r_dest s) (p, a, b) \<Longrightarrow>
    relay_step Ru Wu Rd Wd s (s\<lparr>up_pc := p, r_src := a, r_dest := b\<rparr>)"
| down: "running s \<Longrightarrow> pump_step Rd Wd (down_pc s, r_dest s, r_src s) (p, b, a) \<Longrightarrow>
    relay_step Ru Wu Rd Wd s (s\<lparr>down_pc := p, r_src := a, r_dest := b\<rparr>)"
| finish: "running s \<Longrightarrow> up_pc s = Ended c \<Longrightarrow> down_pc s = Ended d \<Longrightarrow>
    relay_step Ru Wu Rd Wd s (s\<lparr>r_src := (r_src s)\<lparr>closed := True\<rparr>, r_dest := (r_dest s)\<lparr>closed := True\<rparr>, r_done := True\<rparr>)"

text \<open>Meanwhile the API may close the tracked connection.\<close>

definition api_close :: "relay \<Rightarrow> relay \<Rightarrow> bool" where
  "api_close s s' \<longleftrightarrow> running s \<and> \<not> closed (r_dest s) \<and> s' = s\<lparr>r_dest := (r_dest s)\<lparr>closed := True\<rparr>\<rparr>"

definition direct_step :: "relay \<Rightarrow> relay \<Rightarrow> bool" where
  "direct_step = relay_step copy_read copy_write copy_read copy_write"

definition forward_step :: "snappy \<Rightarrow> bytes \<Rightarrow> relay \<Rightarrow> relay \<Rightarrow> bool" where
  "forward_step sn token = relay_step (decode_read sn token) decode_write encode_read (encode_write sn token)"

definition Start :: "relay_type \<Rightarrow> snappy \<Rightarrow> bytes \<Rightarrow> relay \<Rightarrow> relay \<Rightarrow> bool" where
  "Start k sn token = (case k of Proxy \<Rightarrow> forward_step sn token | Direct \<Rightarrow> direct_step)"

definition moves_to :: "(relay \<Rightarrow> relay \<Rightarrow> bool) \<Rightarrow> relay \<Rightarrow> relay \<Rightarrow> bool" where
  "moves_to step s s' \<longleftrightarrow> step s s' \<or> api_close s s'"

definition relay_init :: "rconn \<Rightarrow> rconn \<Rightarrow> relay" where
  "relay_init src dest = \<lparr>up_pc = Reading, down_pc = Reading, r_src = src, r_dest = dest, r_done = False\<rparr>"


section \<open>The contract of a pump\<close>

text \<open>What every pump keeps: a read touches the input only and uses some of it up, a write touches the output
  only and returns. \<open>m\<close> measures the input left.\<close>

locale pump_frame =
  fixes R :: "(bytes, rconn) io" and W :: "nat \<Rightarrow> bytes \<Rightarrow> (nat, rconn) io" and m :: "bytes list \<Rightarrow> nat"
  assumes read_frame: "R a = Some (x, a') \<Longrightarrow> outp a' = outp a \<and> closed a' = closed a \<and> late a' = late a"
    and read_uses: "R a = Some (Ret bs, a') \<Longrightarrow> m (inp a') < m (inp a)"
    and write_frame: "W r bs b = Some (y, b') \<Longrightarrow> inp b' = inp b \<and> closed b' = closed b \<and> late b' = late b"
    and write_returns: "W r bs b \<noteq> None"
begin

fun pm :: "pc \<times> rconn \<times> rconn \<Rightarrow> nat" where
  "pm (Reading, a, b) = 2 * m (inp a) + 3"
| "pm (Writing bs, a, b) = 2 * m (inp a) + 4"
| "pm (Ending c, a, b) = 1"
| "pm (Ended c, a, b) = 0"
| "pm (Panicked, a, b) = 0"

lemma pm_step: "pump_step R W s s' \<Longrightarrow> pm s' < pm s"
  by (induction rule: pump_step.induct) (auto dest: read_uses write_frame)

lemma pm_cong: "inp a = inp a' \<Longrightarrow> pm (p, a, b) = pm (p, a', b')"
  by (cases p) simp_all

text \<open>A pump changes the input of one connection, and the output and the deadline of the other.\<close>

lemma step_frame:
  assumes "pump_step R W (p, a, b) (p', a', b')"
  shows "outp a' = outp a \<and> closed a' = closed a \<and> late a' = late a \<and>
    inp b' = inp b \<and> closed b' = closed b \<and> (late b \<longrightarrow> late b')"
  using assms by (cases rule: pump_step.cases) (auto dest: read_frame write_frame)

text \<open>A pump that is late or has something to do moves on.\<close>

lemma moves:
  assumes "p \<noteq> Panicked" and "\<And>c. p \<noteq> Ended c" and "p = Reading \<Longrightarrow> late a \<or> R a \<noteq> None"
  shows "\<exists>s'. pump_step R W (p, a, b) s'"
proof (cases p)
  case Reading
  with assms(3) consider "late a" | bs a' where "R a = Some (Ret bs, a')" | e a' where "R a = Some (Fail e, a')"
    | a' where "R a = Some (Panic, a')"
    by (cases "R a") (auto, metis res.exhaust)
  then show ?thesis
    unfolding Reading by cases (rule exI, erule pump_step.timeout pump_step.got pump_step.over pump_step.read_panic)+
next
  case (Writing bs)
  obtain x b' where "W 0 bs b = Some (x, b')"
    using write_returns [of 0 bs b] by auto
  then show ?thesis
    using Writing pump_step.put [of 0 W bs b _ b' R a] pump_step.put_fail [of 0 W bs b _ b' R a]
      pump_step.put_panic [of 0 W bs b b' R a] by (cases x) auto
qed (use assms pump_step.deadline in blast)+

end

text \<open>What a pump delivers: \<open>dec full s z\<close> says that the stream \<open>s\<close> carries the payload \<open>z\<close>, completely if
  \<open>full\<close>; \<open>enc o y\<close> says that the bytes \<open>o\<close> carry the payload \<open>y\<close>; \<open>chunk\<close> holds of what one read returns.\<close>

locale pump = pump_frame +
  fixes dec :: "bool \<Rightarrow> bytes \<Rightarrow> bytes \<Rightarrow> bool" and enc :: "bytes \<Rightarrow> bytes \<Rightarrow> bool" and chunk :: "bytes \<Rightarrow> bool"
  assumes read_next: "dec full (stream a) z \<Longrightarrow> R a = Some (Ret bs, a') \<Longrightarrow>
      chunk bs \<and> (\<exists>z'. z = bs @ z' \<and> dec full (stream a') z')"
    and read_eof: "dec True (stream a) z \<Longrightarrow> R a = Some (Fail EOF, a') \<Longrightarrow> z = []"
    and read_safe: "dec full (stream a) z \<Longrightarrow> R a \<noteq> Some (Panic, a')"
    and write_next: "chunk bs \<Longrightarrow> r < 99 \<Longrightarrow> enc ou y \<Longrightarrow> W r bs b = Some (Ret n, b') \<Longrightarrow>
      \<exists>pkt. outp b' = outp b @ pkt \<and> enc (ou @ pkt) (y @ bs)"
    and write_fails: "W r bs b = Some (Fail e, b') \<Longrightarrow> outp b' = outp b"
    and write_safe: "chunk bs \<Longrightarrow> W r bs b \<noteq> Some (Panic, b')"
    and enc_nil: "enc [] []"
begin

definition delivers :: "bool \<Rightarrow> bytes \<Rightarrow> bytes \<Rightarrow> pc \<times> rconn \<times> rconn \<Rightarrow> bool" where
  "delivers full x o0 s \<longleftrightarrow> (case s of (p, a, b) \<Rightarrow>
     \<exists>y ou. outp b = o0 @ ou \<and> enc ou y \<and>
       (case p of
          Reading \<Rightarrow> \<exists>z. x = y @ z \<and> dec full (stream a) z
        | Writing bs \<Rightarrow> chunk bs \<and> (\<exists>z. x = y @ bs @ z \<and> dec full (stream a) z)
        | Ending c \<Rightarrow> prefix y x \<and> (c \<and> full \<longrightarrow> y = x)
        | Ended c \<Rightarrow> prefix y x \<and> (c \<and> full \<longrightarrow> y = x)
        | Panicked \<Rightarrow> False))"

lemma delivers_start: "dec full (stream a) x \<Longrightarrow> delivers full x (outp b) (Reading, a, b)"
  unfolding delivers_def using enc_nil by force

lemma delivers_cong:
  "inp a = inp a' \<Longrightarrow> outp b = outp b' \<Longrightarrow> delivers full x o0 (p, a, b) = delivers full x o0 (p, a', b')"
  by (cases p) (simp_all add: delivers_def)

lemma delivers_prefix:
  "delivers full x o0 (p, a, b) \<Longrightarrow> p \<noteq> Panicked \<and>
     (\<exists>y v. outp b = o0 @ v \<and> enc v y \<and> prefix y x \<and> (full \<and> p = Ended True \<longrightarrow> y = x))"
  by (cases p) (auto simp: delivers_def, (metis prefixI)+)

lemma delivers_step:
  assumes "pump_step R W s s'" and "delivers full x o0 s"
  shows "delivers full x o0 s'"
  using assms
proof (cases rule: pump_step.cases)
  case (got a bs a' b)
  then show ?thesis
    using assms(2) read_next by (fastforce simp: delivers_def)
next
  case (over a e a' b)
  obtain y ou z where "outp b = o0 @ ou" "enc ou y" "x = y @ z" "dec full (stream a) z"
    using assms(2) over by (auto simp: delivers_def)
  then show ?thesis
    using over read_eof [of a z a'] by (cases full) (auto simp: delivers_def)
next
  case (timeout a b q)
  obtain y ou z where "outp b = o0 @ ou" "enc ou y" "x = y @ z"
    using assms(2) timeout by (auto simp: delivers_def)
  then show ?thesis
    using timeout unfolding delivers_def by simp (intro exI [of _ y], simp)
next
  case (read_panic a a' b)
  then show ?thesis
    using assms(2) read_safe by (auto simp: delivers_def)
next
  case (put r bs b n b' a)
  obtain y ou z where *: "outp b = o0 @ ou" "enc ou y" "x = y @ bs @ z" "dec full (stream a) z" "chunk bs"
    using assms(2) put by (auto simp: delivers_def)
  then obtain pkt where "outp b' = outp b @ pkt" "enc (ou @ pkt) (y @ bs)"
    using write_next put by blast
  then show ?thesis
    using * put unfolding delivers_def by simp (intro exI [of _ "y @ bs"], simp)
next
  case (put_fail r bs b e b' a)
  obtain y ou z where "outp b = o0 @ ou" "enc ou y" "x = y @ bs @ z"
    using assms(2) put_fail by (auto simp: delivers_def)
  then show ?thesis
    using put_fail write_fails [of r bs b e b'] unfolding delivers_def by simp (intro exI [of _ y], simp)
next
  case (put_panic r bs b b' a)
  then show ?thesis
    using assms(2) write_safe by (auto simp: delivers_def)
qed (auto simp: delivers_def)

end

section \<open>Two pumps\<close>

locale relay_frame = up: pump_frame Ru Wu mu + down: pump_frame Rd Wd md for Ru Wu mu Rd Wd md
begin

definition rm :: "relay \<Rightarrow> nat" where
  "rm s = up.pm (up_pc s, r_src s, r_dest s) + down.pm (down_pc s, r_dest s, r_src s) +
     (if closed (r_dest s) then 0 else 1) + (if r_done s then 0 else 1)"

abbreviation step :: "relay \<Rightarrow> relay \<Rightarrow> bool" where
  "step \<equiv> relay_step Ru Wu Rd Wd"

lemma rm_step:
  assumes "step s s'"
  shows "rm s' < rm s"
  using assms
proof (cases rule: relay_step.cases)
  case (up p a b)
  then have "up.pm (p, a, b) < up.pm (up_pc s, r_src s, r_dest s)"
    using up.pm_step by blast
  then show ?thesis
    using up up.step_frame [OF up(3)] down.pm_cong [of b "r_dest s" "down_pc s" a "r_src s"] by (simp add: rm_def)
next
  case (down p b a)
  then have "down.pm (p, b, a) < down.pm (down_pc s, r_dest s, r_src s)"
    using down.pm_step by blast
  then show ?thesis
    using down down.step_frame [OF down(3)] up.pm_cong [of a "r_src s" "up_pc s" b "r_dest s"] by (simp add: rm_def)
next
  case (finish c d)
  then show ?thesis
    by (simp add: rm_def running_def)
qed

lemma rm_close:
  assumes "api_close s s'"
  shows "rm s' < rm s"
  using assms down.pm_cong [of "(r_dest s)\<lparr>closed := True\<rparr>" "r_dest s" "down_pc s" "r_src s" "r_src s"]
    up.pm_cong [of "r_src s" "r_src s" "up_pc s" "(r_dest s)\<lparr>closed := True\<rparr>" "r_dest s"]
  by (auto simp: rm_def api_close_def)

lemma terminates: "wfP (\<lambda>s' s. moves_to step s s')"
  by (rule wfp_if_convertible_to_nat [of _ rm]) (auto simp: moves_to_def dest: rm_step rm_close)

text \<open>A pump that has ended has made the other one late; from then on the relay goes on until it is done.\<close>

definition awake :: "relay \<Rightarrow> bool" where
  "awake s \<longleftrightarrow> ((\<exists>c. up_pc s = Ended c) \<longrightarrow> late (r_dest s)) \<and> ((\<exists>d. down_pc s = Ended d) \<longrightarrow> late (r_src s)) \<and>
     (r_done s \<longrightarrow> closed (r_src s) \<and> closed (r_dest s))"

lemma pump_ended_late:
  "pump_step R W (p, a, b) (Ended c, a', b') \<Longrightarrow> late b'"
  by (erule pump_stepE) auto

lemma awake_step:
  assumes "relay_step Ru Wu Rd Wd s s'" and "awake s"
  shows "awake s'"
  using assms
proof (cases rule: relay_step.cases)
  case (up p a b)
  then show ?thesis
    using assms(2) up.step_frame [OF up(3)] pump_ended_late [of Ru Wu "up_pc s" "r_src s" "r_dest s" _ a b]
    by (auto simp: awake_def running_def)
next
  case (down p b a)
  then show ?thesis
    using assms(2) down.step_frame [OF down(3)] pump_ended_late [of Rd Wd "down_pc s" "r_dest s" "r_src s" _ b a]
    by (auto simp: awake_def running_def)
qed (auto simp: awake_def)

lemma reachable_awake: "(moves_to step)\<^sup>*\<^sup>* (relay_init src dest) s \<Longrightarrow> awake s"
  by (induction rule: rtranclp_induct)
    (auto simp: moves_to_def api_close_def intro: awake_step, simp_all add: awake_def relay_init_def)

lemma up_step: "running s \<Longrightarrow> pump_step Ru Wu (up_pc s, r_src s, r_dest s) x \<Longrightarrow> \<exists>s'. relay_step Ru Wu Rd Wd s s'"
  by (cases x) (blast intro: relay_step.up)

lemma down_step: "running s \<Longrightarrow> pump_step Rd Wd (down_pc s, r_dest s, r_src s) x \<Longrightarrow> \<exists>s'. relay_step Ru Wu Rd Wd s s'"
  by (cases x) (blast intro: relay_step.down)

text \<open>A relay that cannot move is done, has crashed, or waits for two silent peers.\<close>

lemma stuck:
  assumes "awake s" and "running s" and "\<And>s'. \<not> step s s'"
  shows "up_pc s = Reading \<and> down_pc s = Reading \<and> Ru (r_src s) = None \<and> Rd (r_dest s) = None"
proof -
  have up: "(\<exists>c. up_pc s = Ended c) \<or> up_pc s = Reading \<and> \<not> late (r_src s) \<and> Ru (r_src s) = None"
    using up.moves [of "up_pc s" "r_src s" "r_dest s"] up_step [OF assms(2)] assms(2,3) unfolding running_def by blast
  have down: "(\<exists>d. down_pc s = Ended d) \<or> down_pc s = Reading \<and> \<not> late (r_dest s) \<and> Rd (r_dest s) = None"
    using down.moves [of "down_pc s" "r_dest s" "r_src s"] down_step [OF assms(2)] assms(2,3) unfolding running_def by blast
  show ?thesis
    using up down assms relay_step.finish [OF assms(2)] unfolding awake_def by blast
qed

lemma at_rest:
  assumes "(moves_to step)\<^sup>*\<^sup>* (relay_init src dest) s" and "\<And>s'. \<not> step s s'"
  shows "r_done s \<and> closed (r_src s) \<and> closed (r_dest s) \<or> up_pc s = Panicked \<or> down_pc s = Panicked \<or>
    up_pc s = Reading \<and> down_pc s = Reading \<and> Ru (r_src s) = None \<and> Rd (r_dest s) = None"
proof (cases "running s")
  case True
  then show ?thesis
    using stuck [OF reachable_awake [OF assms(1)] _ assms(2)] by simp
next
  case False
  then show ?thesis
    using reachable_awake [OF assms(1)] by (auto simp: running_def awake_def)
qed

end

text \<open>Each direction delivers whatever the other one does, even if that fails or crashes.\<close>

lemma moves_to_cases:
  assumes "moves_to (relay_step Ru Wu Rd Wd) s s'"
  obtains p a b where "s' = s\<lparr>up_pc := p, r_src := a, r_dest := b\<rparr>" and "pump_step Ru Wu (up_pc s, r_src s, r_dest s) (p, a, b)"
  | p a b where "s' = s\<lparr>down_pc := p, r_src := a, r_dest := b\<rparr>" and "pump_step Rd Wd (down_pc s, r_dest s, r_src s) (p, b, a)"
  | "up_pc s' = up_pc s" and "down_pc s' = down_pc s" and "inp (r_src s) = inp (r_src s')" and "outp (r_src s) = outp (r_src s')"
      and "inp (r_dest s) = inp (r_dest s')" and "outp (r_dest s) = outp (r_dest s')"
proof (cases "relay_step Ru Wu Rd Wd s s'")
  case True
  then show thesis
  proof (cases rule: relay_step.cases)
    case finish
    then show thesis
      by (intro that(3)) simp_all
  qed (use that(1,2) in blast)+
next
  case False
  then have "api_close s s'"
    using assms by (simp add: moves_to_def)
  then show thesis
    by (intro that(3)) (simp_all add: api_close_def)
qed

locale relay_up = up: pump Ru Wu mu decu encu chunku + down: pump_frame Rd Wd md for Ru Wu mu decu encu chunku Rd Wd md
begin

lemma up_delivers_step:
  assumes "moves_to (relay_step Ru Wu Rd Wd) s s'" and "up.delivers full x ou (up_pc s, r_src s, r_dest s)"
  shows "up.delivers full x ou (up_pc s', r_src s', r_dest s')"
  using assms(1)
proof (cases rule: moves_to_cases)
  case (1 p a b)
  then show ?thesis
    using up.delivers_step assms(2) by simp
next
  case (2 p a b)
  then show ?thesis
    using down.step_frame [OF 2(2)] up.delivers_cong [of a "r_src s" b "r_dest s" full x ou "up_pc s"] assms(2) by simp
next
  case 3
  then show ?thesis
    using up.delivers_cong [OF 3(3,6), of full x ou "up_pc s"] assms(2) by simp
qed

lemma reachable_up:
  assumes "(moves_to (relay_step Ru Wu Rd Wd))\<^sup>*\<^sup>* (relay_init src dest) s" and "decu full (stream src) x"
  shows "up.delivers full x (outp dest) (up_pc s, r_src s, r_dest s)"
  using assms(1)
proof (induction rule: rtranclp_induct)
  case base
  then show ?case
    using up.delivers_start [OF assms(2)] by (simp add: relay_init_def)
qed (rule up_delivers_step)

lemma up_prefix:
  assumes "(moves_to (relay_step Ru Wu Rd Wd))\<^sup>*\<^sup>* (relay_init src dest) s" and "decu full (stream src) x"
  shows "up_pc s \<noteq> Panicked \<and>
    (\<exists>y v. outp (r_dest s) = outp dest @ v \<and> encu v y \<and> prefix y x \<and> (full \<and> up_pc s = Ended True \<longrightarrow> y = x))"
  using up.delivers_prefix [OF reachable_up [OF assms]] .

end

locale relay_down = up: pump_frame Ru Wu mu + down: pump Rd Wd md decd encd chunkd for Ru Wu mu Rd Wd md decd encd chunkd
begin

lemma down_delivers_step:
  assumes "moves_to (relay_step Ru Wu Rd Wd) s s'" and "down.delivers full x ou (down_pc s, r_dest s, r_src s)"
  shows "down.delivers full x ou (down_pc s', r_dest s', r_src s')"
  using assms(1)
proof (cases rule: moves_to_cases)
  case (1 p a b)
  then show ?thesis
    using up.step_frame [OF 1(2)] down.delivers_cong [of b "r_dest s" a "r_src s" full x ou "down_pc s"] assms(2) by simp
next
  case (2 p a b)
  then show ?thesis
    using down.delivers_step assms(2) by simp
next
  case 3
  then show ?thesis
    using down.delivers_cong [OF 3(5,4), of full x ou "down_pc s"] assms(2) by simp
qed

lemma reachable_down:
  assumes "(moves_to (relay_step Ru Wu Rd Wd))\<^sup>*\<^sup>* (relay_init src dest) s" and "decd full (stream dest) x"
  shows "down.delivers full x (outp src) (down_pc s, r_dest s, r_src s)"
  using assms(1)
proof (induction rule: rtranclp_induct)
  case base
  then show ?case
    using down.delivers_start [OF assms(2)] by (simp add: relay_init_def)
qed (rule down_delivers_step)

lemma down_prefix:
  assumes "(moves_to (relay_step Ru Wu Rd Wd))\<^sup>*\<^sup>* (relay_init src dest) s" and "decd full (stream dest) x"
  shows "down_pc s \<noteq> Panicked \<and>
    (\<exists>z w. outp (r_src s) = outp src @ w \<and> encd w z \<and> prefix z x \<and> (full \<and> down_pc s = Ended True \<longrightarrow> z = x))"
  using down.delivers_prefix [OF reachable_down [OF assms]] .

end

section \<open>The pumps of the relay\<close>

lemma conn_Read_frame:
  assumes "conn_Read n a = Some (x, a')"
  shows "outp a' = outp a \<and> closed a' = closed a \<and> late a' = late a"
  using assms by (auto simp: conn_Read_def split: if_splits list.splits rd_end.splits)

lemma conn_Read_Ret:
  assumes "conn_Read n a = Some (Ret bs, a')" and "0 < n"
  shows "stream a = bs @ stream a' \<and> length bs \<le> n \<and>
    length (stream a') + length (inp a') < length (stream a) + length (inp a)"
  using assms by (auto simp: conn_Read_def split: if_splits list.splits rd_end.splits)

lemma conn_Read_Fail:
  "conn_Read n a = Some (Fail EOF, a') \<Longrightarrow> 0 < n \<Longrightarrow> stream a = []"
  by (auto simp: conn_Read_def errClosed_def split: if_splits list.splits rd_end.splits)

lemma conn_Write_cases:
  "conn_Write bs b = Some (Ret (length bs), b\<lparr>outp := outp b @ bs\<rparr>) \<or> (\<exists>e. conn_Write bs b = Some (Fail e, b))"
  by (auto simp: conn_Write_def split: option.splits)

text \<open>The input left, and plain bytes as payload.\<close>

definition segs_left :: "bytes list \<Rightarrow> nat" where
  "segs_left q = length (concat q) + length q"

lemma conn_Read_uses: "conn_Read n a = Some (Ret bs, a') \<Longrightarrow> 0 < n \<Longrightarrow> segs_left (inp a') < segs_left (inp a)"
  using conn_Read_Ret [of n a bs a'] by (auto simp: segs_left_def)

definition raw :: "bool \<Rightarrow> bytes \<Rightarrow> bytes \<Rightarrow> bool" where
  "raw full s z \<longleftrightarrow> (\<exists>t. s @ t = z \<and> (full \<longrightarrow> t = []))"

lemma raw_read:
  assumes "conn_Read n a = Some (Ret bs, a')" and "0 < n" and "raw full (stream a) z"
  shows "\<exists>z'. z = bs @ z' \<and> raw full (stream a') z'"
  using conn_Read_Ret [OF assms(1,2)] assms(3) by (auto simp: raw_def)

lemma conn_Read_safe: "conn_Read n a \<noteq> Some (Panic, a')"
  by (auto simp: conn_Read_def split: list.splits rd_end.splits)

interpretation copy: pump copy_read copy_write segs_left raw "(=)" "\<lambda>_. True"
proof
  fix a a' b b' :: rconn and x :: "bytes res" and y :: "nat res" and bs ou yy z :: bytes and r n :: nat and full e
  show "copy_read a = Some (x, a') \<Longrightarrow> outp a' = outp a \<and> closed a' = closed a \<and> late a' = late a"
    unfolding copy_read_def by (rule conn_Read_frame)
  show "copy_read a = Some (Ret bs, a') \<Longrightarrow> segs_left (inp a') < segs_left (inp a)"
    using conn_Read_uses [of 32768 a bs a'] by (simp add: copy_read_def)
  show "copy_write r bs b = Some (y, b') \<Longrightarrow> inp b' = inp b \<and> closed b' = closed b \<and> late b' = late b"
    using conn_Write_cases [of bs b] by (auto simp: copy_write_def split: if_splits)
  show "copy_write r bs b \<noteq> None"
    using conn_Write_cases [of bs b] by (auto simp: copy_write_def)
  show "raw full (stream a) z \<Longrightarrow> copy_read a = Some (Ret bs, a') \<Longrightarrow>
      True \<and> (\<exists>z'. z = bs @ z' \<and> raw full (stream a') z')"
    using raw_read [of 32768 a bs a'] by (simp add: copy_read_def)
  show "raw True (stream a) z \<Longrightarrow> copy_read a = Some (Fail EOF, a') \<Longrightarrow> z = []"
    using conn_Read_Fail [of 32768 a a'] by (simp add: copy_read_def raw_def)
  show "copy_read a \<noteq> Some (Panic, a')"
    unfolding copy_read_def by (rule conn_Read_safe)
  show "ou = yy \<Longrightarrow> copy_write r bs b = Some (Ret n, b') \<Longrightarrow> \<exists>pkt. outp b' = outp b @ pkt \<and> ou @ pkt = yy @ bs"
    using conn_Write_cases [of bs b] by (auto simp: copy_write_def split: if_splits)
  show "copy_write r bs b = Some (Fail e, b') \<Longrightarrow> outp b' = outp b"
    using conn_Write_cases [of bs b] by (auto simp: copy_write_def split: if_splits)
  show "copy_write r bs b \<noteq> Some (Panic, b')"
    using conn_Write_cases [of bs b] by (auto simp: copy_write_def)
qed simp

interpretation direct: relay_frame copy_read copy_write segs_left copy_read copy_write segs_left
  by unfold_locales

interpretation direct_up: relay_up copy_read copy_write segs_left raw "(=)" "\<lambda>_. True" copy_read copy_write segs_left
  by unfold_locales

interpretation direct_down: relay_down copy_read copy_write segs_left copy_read copy_write segs_left raw "(=)" "\<lambda>_. True"
  by unfold_locales

text \<open>Packets as payload, written by the encoding loop: in whole packets.\<close>

definition packed :: "snappy \<Rightarrow> bytes \<Rightarrow> bytes \<Rightarrow> bytes \<Rightarrow> bool" where
  "packed sn token ou y \<longleftrightarrow> (\<exists>ps. packets sn token ps \<and> ou = concat (map fst ps) \<and> y = concat (map snd ps))"

lemma packed_snoc:
  assumes "packed sn token ou y" and "r < 99" and "packet_of sn token r bs pkt"
  shows "packed sn token (ou @ pkt) (y @ bs)"
proof -
  obtain ps where "packets sn token ps" "ou = concat (map fst ps)" "y = concat (map snd ps)"
    using assms(1) by (auto simp: packed_def)
  then show ?thesis
    unfolding packed_def using assms(2,3) by (intro exI [of _ "ps @ [(pkt, bs)]"]) (auto simp: packets_def)
qed

lemma EncodeWrite_cases:
  obtains e where "EncodeWrite sn r token bs b = Some (Fail e, b)"
  | "Encode r sn token bs = Panic" "EncodeWrite sn r token bs b = Some (Panic, b)"
  | pkt where "Encode r sn token bs = Ret pkt" "EncodeWrite sn r token bs b = Some (Ret (length pkt), b\<lparr>outp := outp b @ pkt\<rparr>)"
proof (cases "Encode r sn token bs")
  case (Ret pkt)
  then show thesis
    using that(1,3) conn_Write_cases [of pkt b] by (auto simp: EncodeWrite_def)
qed (use that in \<open>simp_all add: EncodeWrite_def\<close>)

interpretation encode: pump_frame encode_read "encode_write sn token" segs_left for sn token
proof
  fix a a' b b' :: rconn and x :: "bytes res" and y :: "nat res" and bs :: bytes and r :: nat
  have n: "0 < bufSize"
    by (simp add: bufSize_def)
  show "encode_read a = Some (x, a') \<Longrightarrow> outp a' = outp a \<and> closed a' = closed a \<and> late a' = late a"
    unfolding encode_read_def by (rule conn_Read_frame)
  show "encode_read a = Some (Ret bs, a') \<Longrightarrow> segs_left (inp a') < segs_left (inp a)"
    unfolding encode_read_def by (rule conn_Read_uses [OF _ n])
  show "encode_write sn token r bs b = Some (y, b') \<Longrightarrow> inp b' = inp b \<and> closed b' = closed b \<and> late b' = late b"
    by (cases rule: EncodeWrite_cases [of sn r token bs b]) (auto simp: encode_write_def split: if_splits)
  show "encode_write sn token r bs b \<noteq> None"
    by (cases rule: EncodeWrite_cases [of sn r token bs b]) (auto simp: encode_write_def)
qed

lemma encode_pump:
  assumes "snappy_ok sn" and "token \<noteq> []" and "fits_packet sn"
  shows "pump encode_read (encode_write sn token) segs_left raw (packed sn token) (\<lambda>bs. length bs \<le> bufSize)"
proof unfold_locales
  fix a a' b b' :: rconn and bs ou yy z :: bytes and r n :: nat and full e
  have n: "0 < bufSize"
    by (simp add: bufSize_def)
  show "raw full (stream a) z \<Longrightarrow> encode_read a = Some (Ret bs, a') \<Longrightarrow>
      length bs \<le> bufSize \<and> (\<exists>z'. z = bs @ z' \<and> raw full (stream a') z')"
    using raw_read [of bufSize a bs a' full z] conn_Read_Ret [of bufSize a bs a'] n by (simp add: encode_read_def)
  show "raw True (stream a) z \<Longrightarrow> encode_read a = Some (Fail EOF, a') \<Longrightarrow> z = []"
    using conn_Read_Fail [of bufSize a a'] n by (simp add: encode_read_def raw_def)
  show "encode_read a \<noteq> Some (Panic, a')"
    unfolding encode_read_def by (rule conn_Read_safe)
  have enc: "\<exists>pkt. Encode r sn token bs = Ret pkt \<and> packet_of sn token r bs pkt" if "length bs \<le> bufSize" "bs \<noteq> []"
    using Encode_packet_of [OF assms(1,2) that(2), of r] assms(3) that(1) by (metis fits_packet_def)
  show "length bs \<le> bufSize \<Longrightarrow> r < 99 \<Longrightarrow> packed sn token ou yy \<Longrightarrow> encode_write sn token r bs b = Some (Ret n, b') \<Longrightarrow>
      \<exists>pkt. outp b' = outp b @ pkt \<and> packed sn token (ou @ pkt) (yy @ bs)"
    using enc packed_snoc [of sn token ou yy r bs]
    by (cases rule: EncodeWrite_cases [of sn r token bs b]) (auto simp: encode_write_def split: if_splits)
  show "encode_write sn token r bs b = Some (Fail e, b') \<Longrightarrow> outp b' = outp b"
    by (cases rule: EncodeWrite_cases [of sn r token bs b]) (auto simp: encode_write_def split: if_splits)
  show "length bs \<le> bufSize \<Longrightarrow> encode_write sn token r bs b \<noteq> Some (Panic, b')"
    using enc by (cases rule: EncodeWrite_cases [of sn r token bs b]) (auto simp: encode_write_def)
  show "packed sn token [] []"
    unfolding packed_def by (intro exI [of _ "[]"]) (simp add: packets_def)
qed

text \<open>Packets as payload, read by the decoding loop: a stream that is a part of a stream of packets.\<close>

definition unpacks :: "snappy \<Rightarrow> bytes \<Rightarrow> bool \<Rightarrow> bytes \<Rightarrow> bytes \<Rightarrow> bool" where
  "unpacks sn token full s z \<longleftrightarrow> (\<exists>t. packed sn token (s @ t) z \<and> (full \<longrightarrow> t = []))"

lemma protocol_ReadFull_Some:
  assumes "protocol_ReadFull sn token a = Some (x, a')"
  shows "outp a' = outp a \<and> closed a' = closed a \<and> late a' = late a \<and>
    (\<forall>p. x = Ret p \<longrightarrow> length (stream a') < length (stream a))"
proof (cases "io_ReadFull headerLen a")
  case None
  then show ?thesis
    using assms by (simp add: protocol_ReadFull_def)
next
  case (Some r1)
  obtain x1 a1 where r1: "io_ReadFull headerLen a = Some (x1, a1)"
    using Some by (cases r1) simp
  from io_ReadFull_Some [OF r1] obtain q where a1: "a1 = a\<lparr>inp := q\<rparr>"
    and len: "\<And>bs. x1 = Ret bs \<Longrightarrow> headerLen \<le> length (stream a) \<and> concat q = drop headerLen (stream a)"
    by blast
  show ?thesis
  proof (cases x1)
    case (Ret hd)
    then have less: "length (stream a1) < length (stream a)"
      using len a1 by (auto simp: headerLen_def)
    let ?n = "unat (getUint32 (take 4 hd))"
    show ?thesis
    proof (cases "maxByte < ?n")
      case True
      then show ?thesis
        using assms r1 Ret a1 by (simp add: protocol_ReadFull_def Let_def) auto
    next
      case False
      obtain x2 a2 where r2: "io_ReadFull ?n a1 = Some (x2, a2)"
        using assms r1 Ret False by (cases "io_ReadFull ?n a1") (auto simp: protocol_ReadFull_def Let_def)
      from io_ReadFull_Some [OF r2] obtain q2 where a2: "a2 = a1\<lparr>inp := q2\<rparr>"
        and len2: "\<And>bs. x2 = Ret bs \<Longrightarrow> concat q2 = drop ?n (stream a1)"
        by blast
      have "a' = a2 \<and> (\<forall>p. x = Ret p \<longrightarrow> (\<exists>bs. x2 = Ret bs))"
        using assms r1 r2 Ret False by (cases x2) (auto simp: protocol_ReadFull_def Let_def split_beta)
      then show ?thesis
        using less len2 a1 a2 by force
    qed
  qed (use assms r1 a1 in \<open>auto simp: protocol_ReadFull_def\<close>)
qed

lemma decode_read_Some:
  "decode_read sn token a = Some (x, a') \<Longrightarrow>
     \<exists>y. protocol_ReadFull sn token a = Some (y, a') \<and> x = (case y of Ret p \<Rightarrow> Ret (Payload p) | Fail e \<Rightarrow> Fail e | Panic \<Rightarrow> Panic)"
  by (auto simp: decode_read_def io_bind_def split: option.splits res.splits)

interpretation decode: pump_frame "decode_read sn token" decode_write "\<lambda>q. length (concat q)" for sn token
proof
  fix a a' b b' :: rconn and x :: "bytes res" and y :: "nat res" and bs :: bytes and r :: nat
  show "decode_read sn token a = Some (x, a') \<Longrightarrow> outp a' = outp a \<and> closed a' = closed a \<and> late a' = late a"
    using decode_read_Some protocol_ReadFull_Some by blast
  show "decode_read sn token a = Some (Ret bs, a') \<Longrightarrow> length (stream a') < length (stream a)"
    using decode_read_Some [of sn token a "Ret bs" a'] protocol_ReadFull_Some by (fastforce split: res.splits)
  show "decode_write r bs b = Some (y, b') \<Longrightarrow> inp b' = inp b \<and> closed b' = closed b \<and> late b' = late b"
    using conn_Write_cases [of bs b] by (auto simp: decode_write_def)
  show "decode_write r bs b \<noteq> None"
    using conn_Write_cases [of bs b] by (auto simp: decode_write_def)
qed

text \<open>What the decoding loop reads next from such a stream.\<close>

lemma packet_or_part:
  assumes "s @ t = pkt @ rest"
  obtains s' where "s = pkt @ s'" and "s' @ t = rest" | "length s < length pkt" and "s = take (length s) pkt" and "t \<noteq> []"
proof (cases "length pkt \<le> length s")
  case True
  then show thesis
    using assms that(1) by (metis append_eq_append_conv_if append_take_drop_id)
next
  case False
  then show thesis
    using assms that(2) by (simp add: append_eq_append_conv_if)
qed

lemma decode_read_packet:
  assumes "snappy_ok sn" and "token \<noteq> []" and "r < 99" and "packet_of sn token r bs pkt" and "stream a = pkt @ s'" and "\<not> closed a"
  shows "\<exists>q. decode_read sn token a = Some (Ret bs, a\<lparr>inp := q\<rparr>) \<and> concat q = s'"
  by (rule ReadFull_packet_of [OF assms]) (auto simp: decode_read_def)

lemma decode_read_part:
  assumes "length body \<le> maxByte" and "k < headerLen + length body" and "stream a = take k (frame n body)" and "\<not> closed a"
  shows "decode_read sn token a = None \<or> (\<exists>e a'. decode_read sn token a = Some (Fail e, a'))"
  using ReadFull_starves [OF assms, of sn token] by (auto simp: decode_read_def split: rd_end.splits)

lemma decode_read_unpacks:
  assumes env: "snappy_ok sn" "token \<noteq> []" and "unpacks sn token full (stream a) z"
  obtains e where "decode_read sn token a = Some (Fail e, a)" and "e \<noteq> EOF"
  | "decode_read sn token a = None"
  | e a' where "decode_read sn token a = Some (Fail e, a')" and "full \<Longrightarrow> z = []"
  | bs a' z' where "decode_read sn token a = Some (Ret bs, a')" and "z = bs @ z'" and "unpacks sn token full (stream a') z'"
proof (cases "closed a")
  case True
  then have "decode_read sn token a = Some (Fail errClosed, a)"
    by (simp add: decode_read_def protocol_ReadFull_def io_ReadFull_closed headerLen_def)
  then show thesis
    by (rule that(1)) (simp add: errClosed_def)
next
  case False
  obtain ps t where ps: "packets sn token ps" "stream a @ t = concat (map fst ps)" "z = concat (map snd ps)" "full \<Longrightarrow> t = []"
    using assms(3) by (auto simp: unpacks_def packed_def)
  show thesis
  proof (cases ps)
    case Nil
    then show thesis
      using decode_read_part [of "[]" 0 a 0 sn token] ps False that(2,3) by (auto simp: headerLen_def)
  next
    case (Cons p ps')
    obtain pkt bs r where p: "p = (pkt, bs)" and r: "r < 99" "packet_of sn token r bs pkt"
      using ps(1) Cons by (cases p) (auto simp: packets_def)
    have ps': "packets sn token ps'" and "stream a @ t = pkt @ concat (map fst ps')"
      using ps(1,2) Cons p by (simp_all add: packets_def)
    from this(2) show thesis
    proof (cases rule: packet_or_part)
      case (1 s')
      obtain q where "decode_read sn token a = Some (Ret bs, a\<lparr>inp := q\<rparr>)" "concat q = s'"
        using decode_read_packet [OF env r 1(1) False] by blast
      moreover have "unpacks sn token full s' (concat (map snd ps'))"
        unfolding unpacks_def packed_def using ps(4) ps' 1(2) by blast
      ultimately show thesis
        using that(4) ps(3) Cons p by simp
    next
      case 2
      obtain body n where body: "pkt = frame n body" "length body \<le> maxByte"
        using r(2) by (auto simp: packet_of_def)
      then show thesis
        using decode_read_part [of body "length (stream a)" a n sn token] 2 False ps(4) that(2,3) by auto
    qed
  qed
qed

lemma decode_pump:
  assumes "snappy_ok sn" and "token \<noteq> []"
  shows "pump (decode_read sn token) decode_write (\<lambda>q. length (concat q)) (unpacks sn token) (=) (\<lambda>_. True)"
proof unfold_locales
  fix a a' b b' :: rconn and bs ou yy z :: bytes and r n :: nat and full e
  show "unpacks sn token full (stream a) z \<Longrightarrow> decode_read sn token a = Some (Ret bs, a') \<Longrightarrow>
      True \<and> (\<exists>z'. z = bs @ z' \<and> unpacks sn token full (stream a') z')"
    by (erule decode_read_unpacks [OF assms]) auto
  show "unpacks sn token True (stream a) z \<Longrightarrow> decode_read sn token a = Some (Fail EOF, a') \<Longrightarrow> z = []"
    by (erule decode_read_unpacks [OF assms]) auto
  show "unpacks sn token full (stream a) z \<Longrightarrow> decode_read sn token a \<noteq> Some (Panic, a')"
    by (erule decode_read_unpacks [OF assms]) auto
  show "ou = yy \<Longrightarrow> decode_write r bs b = Some (Ret n, b') \<Longrightarrow> \<exists>pkt. outp b' = outp b @ pkt \<and> ou @ pkt = yy @ bs"
    using conn_Write_cases [of bs b] by (auto simp: decode_write_def)
  show "decode_write r bs b = Some (Fail e, b') \<Longrightarrow> outp b' = outp b" "decode_write r bs b \<noteq> Some (Panic, b')"
    using conn_Write_cases [of bs b] by (auto simp: decode_write_def)
qed simp

interpretation forward: relay_frame "decode_read sn token" decode_write "\<lambda>q. length (concat q)"
    encode_read "encode_write sn token" segs_left for sn token
  by unfold_locales

lemma forward_up:
  assumes "snappy_ok sn" and "token \<noteq> []"
  shows "relay_up (decode_read sn token) decode_write (\<lambda>q. length (concat q)) (unpacks sn token) (=) (\<lambda>_. True)
    encode_read (encode_write sn token) segs_left"
  using decode_pump [OF assms] encode.pump_frame_axioms by (simp add: relay_up_def)

lemma forward_down:
  assumes "snappy_ok sn" and "token \<noteq> []" and "fits_packet sn"
  shows "relay_down (decode_read sn token) decode_write (\<lambda>q. length (concat q))
    encode_read (encode_write sn token) segs_left raw (packed sn token) (\<lambda>bs. length bs \<le> bufSize)"
  using encode_pump [OF assms] decode.pump_frame_axioms by (simp add: relay_down_def)

text \<open>The two directions of a forwarding relay: from packets to plain bytes, and from plain bytes to packets.\<close>

lemma forward_unpacks:
  assumes "snappy_ok sn" and "token \<noteq> []" and "packets sn token ps" and "stream src @ t = concat (map fst ps)"
    and "(moves_to (forward_step sn token))\<^sup>*\<^sup>* (relay_init src dest) s"
  shows "up_pc s \<noteq> Panicked \<and> (\<exists>v. outp (r_dest s) = outp dest @ v \<and> prefix v (concat (map snd ps)) \<and>
    (t = [] \<and> up_pc s = Ended True \<longrightarrow> v = concat (map snd ps)))"
proof -
  have "unpacks sn token (t = []) (stream src) (concat (map snd ps))"
    using assms(3,4) by (auto simp: unpacks_def packed_def)
  then show ?thesis
    using relay_up.up_prefix [OF forward_up [OF assms(1,2)] assms(5) [unfolded forward_step_def]] by blast
qed

lemma forward_packs:
  assumes "snappy_ok sn" and "token \<noteq> []" and "fits_packet sn"
    and "(moves_to (forward_step sn token))\<^sup>*\<^sup>* (relay_init src dest) s"
  shows "down_pc s \<noteq> Panicked \<and> (\<exists>qs. packets sn token qs \<and> outp (r_src s) = outp src @ concat (map fst qs) \<and>
    prefix (concat (map snd qs)) (stream dest) \<and> (down_pc s = Ended True \<longrightarrow> concat (map snd qs) = stream dest))"
proof -
  have "raw True (stream dest) (stream dest)"
    by (simp add: raw_def)
  then show ?thesis
    using relay_down.down_prefix [OF forward_down [OF assms(1-3)] assms(4) [unfolded forward_step_def]]
    unfolding packed_def by blast
qed

section \<open>Properties\<close>

lemma Start_cases:
  "Start Direct sn token = relay_step copy_read copy_write copy_read copy_write"
  "Start Proxy sn token = relay_step (decode_read sn token) decode_write encode_read (encode_write sn token)"
  by (simp_all add: Start_def direct_step_def forward_step_def)



text \<open>A direct relay delivers, in both directions at once and under every interleaving, a prefix of what
  the peer sends, in order and unchanged, and everything in a direction whose goroutine ended at the end of the stream.\<close>

theorem relay_direct_delivers:
  assumes "(moves_to (Start Direct sn token))\<^sup>*\<^sup>* (relay_init src dest) s"
  shows "(\<exists>v. outp (r_dest s) = outp dest @ v \<and> prefix v (stream src) \<and> (up_pc s = Ended True \<longrightarrow> v = stream src)) \<and>
    (\<exists>w. outp (r_src s) = outp src @ w \<and> prefix w (stream dest) \<and> (down_pc s = Ended True \<longrightarrow> w = stream dest))"
  using direct_up.up_prefix [OF assms [unfolded Start_cases], of True "stream src"]
    direct_down.down_prefix [OF assms [unfolded Start_cases], of True "stream dest"] by (auto simp: raw_def)


text \<open>Steps between states that are written out.\<close>

abbreviation at :: "pc \<Rightarrow> pc \<Rightarrow> rconn \<Rightarrow> rconn \<Rightarrow> relay" where
  "at u d a b \<equiv> \<lparr>up_pc = u, down_pc = d, r_src = a, r_dest = b, r_done = False\<rparr>"

lemma step_at:
  "pump_step Ru Wu (u, a, b) (u', a', b') \<Longrightarrow> u \<noteq> Panicked \<Longrightarrow> d \<noteq> Panicked \<Longrightarrow> relay_step Ru Wu Rd Wd (at u d a b) (at u' d a' b')"
  "pump_step Rd Wd (d, b, a) (d', b', a') \<Longrightarrow> u \<noteq> Panicked \<Longrightarrow> d \<noteq> Panicked \<Longrightarrow> relay_step Ru Wu Rd Wd (at u d a b) (at u d' a' b')"
  using relay_step.up [of "at u d a b" Ru Wu u' a' b' Rd Wd] relay_step.down [of "at u d a b" Rd Wd d' b' a' Ru Wu]
  by (simp_all add: running_def)

lemma finish_at:
  "relay_step Ru Wu Rd Wd (at (Ended c) (Ended d) a b)
     \<lparr>up_pc = Ended c, down_pc = Ended d, r_src = a\<lparr>closed := True\<rparr>, r_dest = b\<lparr>closed := True\<rparr>, r_done = True\<rparr>"
  using relay_step.finish [of "at (Ended c) (Ended d) a b" c d Ru Wu Rd Wd] by (simp add: running_def)

text \<open>A run in which the client has closed its sending side: its goroutine ends at once, the deadline cuts off the other.\<close>

lemma half_close_run:
  assumes "\<not> closed src" and "inp src = []" and "rend src = AtEOF"
  shows "(Start Direct sn token)\<^sup>*\<^sup>* (relay_init src dest)
    \<lparr>up_pc = Ended True, down_pc = Ended False, r_src = src\<lparr>late := True, closed := True\<rparr>,
     r_dest = dest\<lparr>late := True, closed := True\<rparr>, r_done = True\<rparr>" (is "?st\<^sup>*\<^sup>* _ ?s5")
proof -
  have "copy_read src = Some (Fail EOF, src)"
    using assms by (simp add: copy_read_def conn_Read_def)
  then have "pump_step copy_read copy_write (Reading, src, dest) (Ending True, src, dest)"
    using pump_step.over [of copy_read src EOF src copy_write dest] by simp
  then have "?st (relay_init src dest) (at (Ending True) Reading src dest)"
    unfolding Start_cases relay_init_def by (intro step_at) simp_all
  moreover have "?st (at (Ending True) Reading src dest) (at (Ended True) Reading src (dest\<lparr>late := True\<rparr>))"
    unfolding Start_cases by (intro step_at pump_step.deadline) simp_all
  moreover have "pump_step copy_read copy_write (Reading, dest\<lparr>late := True\<rparr>, src) (Ending False, dest\<lparr>late := True\<rparr>, src)"
    using pump_step.timeout [of "dest\<lparr>late := True\<rparr>" copy_read copy_write src "inp dest"] by simp
  then have "?st (at (Ended True) Reading src (dest\<lparr>late := True\<rparr>)) (at (Ended True) (Ending False) src (dest\<lparr>late := True\<rparr>))"
    unfolding Start_cases by (intro step_at) simp_all
  moreover have "?st (at (Ended True) (Ending False) src (dest\<lparr>late := True\<rparr>))
      (at (Ended True) (Ended False) (src\<lparr>late := True\<rparr>) (dest\<lparr>late := True\<rparr>))"
    unfolding Start_cases by (intro step_at pump_step.deadline) simp_all
  moreover have "?st (at (Ended True) (Ended False) (src\<lparr>late := True\<rparr>) (dest\<lparr>late := True\<rparr>)) ?s5"
    unfolding Start_cases using finish_at [of _ _ _ _ True False "src\<lparr>late := True\<rparr>" "dest\<lparr>late := True\<rparr>"] by simp
  ultimately show ?thesis
    by (meson rtranclp.rtrancl_into_rtrancl rtranclp.rtrancl_refl)
qed

text \<open>A client that closes only its sending side may lose the whole reply: there is a run of the direct relay
  that ends normally for the client's direction, closes both connections and has delivered nothing of what the
  target sends, however much that is.\<close>

theorem relay_half_close_loses:
  assumes "\<not> closed src" and "inp src = []" and "rend src = AtEOF"
  shows "\<exists>s. (Start Direct sn token)\<^sup>*\<^sup>* (relay_init src dest) s \<and> r_done s \<and> up_pc s = Ended True \<and>
    outp (r_src s) = outp src \<and> inp (r_dest s) = inp dest"
  using half_close_run [OF assms, of sn token dest] by (intro exI, intro conjI) (assumption, simp_all)

definition example_rconn :: "bytes list \<Rightarrow> rconn" where
  "example_rconn segs = \<lparr>inp = segs, rend = AtEOF, outp = [], wfail = None, closed = False, raddr = '''', late = False\<rparr>"

theorem relay_half_close_loses_witness:
  "\<exists>s. (Start Direct stored_snappy [])\<^sup>*\<^sup>* (relay_init (example_rconn []) (example_rconn [[7, 8]])) s \<and> r_done s \<and>
    outp (r_src s) = [] \<and> inp (r_dest s) = [[7, 8]]"
  using relay_half_close_loses [of "example_rconn []" stored_snappy "[]" "example_rconn [[7, 8]]"]
  by (auto simp: example_rconn_def)

lemma moves_to_steps: "step\<^sup>*\<^sup>* s s' \<Longrightarrow> (moves_to step)\<^sup>*\<^sup>* s s'"
  by (erule rtranclp_mono [THEN predicate2D, rotated]) (auto simp: moves_to_def)

text \<open>One chunk of the plain side is packed.\<close>

lemma one_packet_run:
  assumes "snappy_ok sn" and "token \<noteq> []" and "fits_packet sn" and "writable a"
    and "inp b = [bs]" "\<not> closed b" and "bs \<noteq> []" "length bs \<le> bufSize"
  obtains pkt where "packet_of sn token 5 bs pkt"
    and "(moves_to (Start Proxy sn token))\<^sup>*\<^sup>* (relay_init a b) (at Reading Reading (a\<lparr>outp := outp a @ pkt\<rparr>) (b\<lparr>inp := []\<rparr>))"
proof -
  let ?st = "Start Proxy sn token"
  obtain pkt where pkt: "packet_of sn token 5 bs pkt" "EncodeWrite sn 5 token bs a = Some (Ret (length pkt), a\<lparr>outp := outp a @ pkt\<rparr>)"
    using EncodeWrite_ok [OF assms(1-3,7,8,4)] by blast
  have "encode_read b = Some (Ret bs, b\<lparr>inp := []\<rparr>)"
    using assms(5,6,8) by (simp add: encode_read_def conn_Read_def bufSize_def)
  then have "?st (relay_init a b) (at Reading (Writing bs) a (b\<lparr>inp := []\<rparr>))"
    unfolding Start_cases relay_init_def by (intro step_at(2) pump_step.got) simp_all
  moreover have "encode_write sn token 5 bs a = Some (Ret (length pkt), a\<lparr>outp := outp a @ pkt\<rparr>)"
    using pkt(2) assms(7) by (simp add: encode_write_def)
  then have "?st (at Reading (Writing bs) a (b\<lparr>inp := []\<rparr>)) (at Reading Reading (a\<lparr>outp := outp a @ pkt\<rparr>) (b\<lparr>inp := []\<rparr>))"
    unfolding Start_cases by (intro step_at(2) pump_step.put [of 5]) simp_all
  ultimately show thesis
    by (intro that [OF pkt(1)] moves_to_steps) simp
qed


theorem relay_direct_delivers_witness:
  "\<exists>s. (moves_to (Start Direct stored_snappy []))\<^sup>*\<^sup>* (relay_init (example_rconn [[1, 2], [3]]) (example_rconn [[7]])) s \<and>
    outp (r_dest s) = [1, 2] \<and> (\<exists>v. outp (r_dest s) = v \<and> prefix v [1, 2, 3])"
proof -
  let ?a = "example_rconn [[1, 2], [3]]" and ?b = "example_rconn [[7]]"
  have "copy_read ?a = Some (Ret [1, 2], example_rconn [[3]])"
    by (simp add: copy_read_def conn_Read_def example_rconn_def)
  then have "Start Direct stored_snappy [] (relay_init ?a ?b) (at (Writing [1, 2]) Reading (example_rconn [[3]]) ?b)"
    unfolding Start_cases relay_init_def by (intro step_at(1) pump_step.got) simp_all
  moreover have "copy_write 0 [1, 2] ?b = Some (Ret 2, ?b\<lparr>outp := [1, 2]\<rparr>)"
    by (simp add: copy_write_def conn_Write_def example_rconn_def)
  then have "Start Direct stored_snappy [] (at (Writing [1, 2]) Reading (example_rconn [[3]]) ?b)
      (at Reading Reading (example_rconn [[3]]) (?b\<lparr>outp := [1, 2]\<rparr>))" (is "Start _ _ _ _ ?s")
    unfolding Start_cases by (intro step_at(1) pump_step.put [of 0]) simp_all
  ultimately have run: "(moves_to (Start Direct stored_snappy []))\<^sup>*\<^sup>* (relay_init ?a ?b) ?s"
    by (intro moves_to_steps) simp
  have "\<exists>v. outp (r_dest ?s) = v \<and> prefix v [1, 2, 3]"
    using relay_direct_delivers [OF run] by (simp add: example_rconn_def)
  then show ?thesis
    using run by (intro exI [of _ ?s]) simp
qed


section \<open>The loops as runs of their pumps\<close>

text \<open>A loop of \<^verbatim>\<open>Secure_TCP\<close> that returns is a run of its pump to the same connections.\<close>

abbreviation runs :: "(bytes, rconn) io \<Rightarrow> (nat \<Rightarrow> bytes \<Rightarrow> (nat, rconn) io) \<Rightarrow> rconn \<Rightarrow> rconn \<Rightarrow> pc \<Rightarrow> rconn \<times> rconn \<Rightarrow> bool" where
  "runs R W a b p ab \<equiv> (pump_step R W)\<^sup>*\<^sup>* (Reading, a, b) (p, ab)"

lemma runs_over: "R a = Some (Fail e, a1) \<Longrightarrow> runs R W a b (Ending (e = EOF)) (a1, b)"
  by (rule r_into_rtranclp) (rule pump_step.over)

lemma runs_round:
  assumes "R a = Some (Ret bs, a1)" and "r < 99" and "W r bs b = Some (z, b1)" and "z \<noteq> Panic"
    and "\<And>n. z = Ret n \<Longrightarrow> runs R W a1 b1 p ab" and "\<And>e. z = Fail e \<Longrightarrow> p = Ending False \<and> ab = (a1, b1)"
  shows "runs R W a b p ab"
proof (cases z)
  case (Ret n)
  have "pump_step R W (Reading, a, b) (Writing bs, a1, b)" "pump_step R W (Writing bs, a1, b) (Reading, a1, b1)"
    using assms(1-3) Ret pump_step.got [of R a bs a1 W b] pump_step.put [of r W bs b n b1 R a1] by simp_all
  then show ?thesis
    using assms(5) [OF Ret] by (meson converse_rtranclp_into_rtranclp)
next
  case (Fail e)
  have "pump_step R W (Reading, a, b) (Writing bs, a1, b)" "pump_step R W (Writing bs, a1, b) (Ending False, a1, b1)"
    using assms(1-3) Fail pump_step.got [of R a bs a1 W b] pump_step.put_fail [of r W bs b e b1 R a1] by simp_all
  then show ?thesis
    using assms(6) [OF Fail] by (simp add: converse_rtranclp_into_rtranclp)
qed (use assms in simp)

lemma io_Copy_runs:
  assumes "io_Copy a b = Some x"
  shows "runs copy_read copy_write a b (Ending (fst x = Ret ())) (snd x)"
proof (rule io_Copy.raw_induct [OF _ assms])
  fix loop and a b :: rconn and x
  assume IH: "\<And>a b x. loop a b = Some x \<Longrightarrow> runs copy_read copy_write a b (Ending (fst x = Ret ())) (snd x)"
    and body: "(case conn_Read 32768 a of None \<Rightarrow> None | Some ra \<Rightarrow>
       (case fst ra of Fail e \<Rightarrow> Some (if e = EOF then Ret () else Fail e, snd ra, b) | Panic \<Rightarrow> Some (Panic, snd ra, b)
        | Ret bs \<Rightarrow> if bs = [] then loop (snd ra) b
            else (case conn_Write bs b of None \<Rightarrow> None | Some wb \<Rightarrow>
              (case fst wb of Ret _ \<Rightarrow> loop (snd ra) (snd wb) | Fail e \<Rightarrow> Some (Fail e, snd ra, snd wb) | Panic \<Rightarrow> Some (Panic, snd ra, snd wb))))) = Some x"
  obtain y a1 where rd: "conn_Read 32768 a = Some (y, a1)" and y: "y \<noteq> Panic"
    using body conn_Read_safe [of 32768 a] by (cases "conn_Read 32768 a") auto
  show "runs copy_read copy_write a b (Ending (fst x = Ret ())) (snd x)"
  proof (cases y)
    case (Ret bs)
    obtain z b1 where w: "copy_write 0 bs b = Some (z, b1)" "z \<noteq> Panic"
      using copy.write_returns [of 0 bs b] copy.write_safe [of 0 bs b] by auto
    show ?thesis
      by (rule runs_round [where R = copy_read and a = a and W = copy_write and r = 0 and b = b,
            OF rd [folded copy_read_def, unfolded Ret] _ w])
        (use body rd w Ret IH in \<open>auto simp: copy_write_def split: if_splits\<close>)
  next
    case (Fail e)
    then show ?thesis
      using body rd runs_over [of copy_read a e a1 copy_write b] by (auto simp: copy_read_def)
  qed (use y in simp)
qed


lemma decode_loop_runs:
  assumes "decode_loop sn token a b = Some x"
  shows "fst x = Panic \<or> (\<exists>c. runs (decode_read sn token) decode_write a b (Ending c) (snd x))"
proof (rule decode_loop.raw_induct [OF _ assms])
  fix loop :: "snappy \<Rightarrow> bytes \<Rightarrow> rconn \<Rightarrow> rconn \<Rightarrow> (unit res \<times> rconn \<times> rconn) option" and sn token and a b :: rconn and x
  assume IH: "\<And>sn token a b x. loop sn token a b = Some x \<Longrightarrow>
      fst x = Panic \<or> (\<exists>c. runs (decode_read sn token) decode_write a b (Ending c) (snd x))"
    and body: "(case protocol_ReadFull sn token a of None \<Rightarrow> None | Some ra \<Rightarrow>
       (case fst ra of Fail e \<Rightarrow> Some (Ret (), snd ra, b) | Panic \<Rightarrow> Some (Panic, snd ra, b)
        | Ret pack \<Rightarrow> (case conn_Write (Payload pack) b of None \<Rightarrow> None | Some wb \<Rightarrow>
            (case fst wb of Ret _ \<Rightarrow> loop sn token (snd ra) (snd wb) | Fail e \<Rightarrow> Some (Ret (), snd ra, snd wb)
             | Panic \<Rightarrow> Some (Panic, snd ra, snd wb))))) = Some x"
  obtain y a1 where rd: "protocol_ReadFull sn token a = Some (y, a1)"
    using body by (cases "protocol_ReadFull sn token a") auto
  show "fst x = Panic \<or> (\<exists>c. runs (decode_read sn token) decode_write a b (Ending c) (snd x))"
  proof (cases y)
    case (Ret pack)
    have rd': "decode_read sn token a = Some (Ret (Payload pack), a1)"
      using rd Ret by (simp add: decode_read_def)
    obtain z b1 where w: "decode_write 0 (Payload pack) b = Some (z, b1)" "z \<noteq> Panic"
      using conn_Write_cases [of "Payload pack" b] by (auto simp: decode_write_def)
    then have z: "(\<forall>n. z = Ret n \<longrightarrow> loop sn token a1 b1 = Some x) \<and> (\<forall>e. z = Fail e \<longrightarrow> snd x = (a1, b1))"
      using body rd Ret by (auto simp: decode_write_def)
    note rr = runs_round [where R = "decode_read sn token" and a = a and W = decode_write and r = 0 and b = b, OF rd' _ w, simplified]
    show ?thesis
      using z rr [of "Ending False" "(a1, b1)"] IH [of sn token a1 b1 x]
        rr [of _ "snd x"] w(2) by (cases z) auto
  next
    case (Fail e)
    then have "decode_read sn token a = Some (Fail e, a1)" "snd x = (a1, b)"
      using body rd by (auto simp: decode_read_def)
    then show ?thesis
      using runs_over [of "decode_read sn token" a e a1 decode_write b] by auto
  qed (use body rd in auto)
qed

lemma EncodeCopy_runs:
  assumes "EncodeCopy sn rnd token i a b = Some x"
  shows "(\<forall>i. rnd i < 99) \<longrightarrow> fst x = Panic \<or> runs encode_read (encode_write sn token) a b (Ending (fst x = Ret ())) (snd x)"
proof (rule EncodeCopy.raw_induct [OF _ assms], rule impI)
  fix loop :: "snappy \<Rightarrow> (nat \<Rightarrow> nat) \<Rightarrow> bytes \<Rightarrow> nat \<Rightarrow> rconn \<Rightarrow> rconn \<Rightarrow> (unit res \<times> rconn \<times> rconn) option"
    and sn and rnd :: "nat \<Rightarrow> nat" and token i and a b :: rconn and x
  assume IH: "\<And>sn rnd token i a b x. loop sn rnd token i a b = Some x \<Longrightarrow>
      (\<forall>i. rnd i < 99) \<longrightarrow> fst x = Panic \<or> runs encode_read (encode_write sn token) a b (Ending (fst x = Ret ())) (snd x)"
    and rnd: "\<forall>i. rnd i < 99"
    and body: "(case conn_Read bufSize a of None \<Rightarrow> None | Some ra \<Rightarrow>
       (case fst ra of Fail e \<Rightarrow> Some (if e = EOF then Ret () else Fail e, snd ra, b) | Panic \<Rightarrow> Some (Panic, snd ra, b)
        | Ret bs \<Rightarrow> if bs = [] then loop sn rnd token i (snd ra) b
            else (case EncodeWrite sn (rnd i) token bs b of None \<Rightarrow> None | Some wb \<Rightarrow>
              (case fst wb of Ret _ \<Rightarrow> loop sn rnd token (Suc i) (snd ra) (snd wb) | Fail e \<Rightarrow> Some (Fail e, snd ra, snd wb)
               | Panic \<Rightarrow> Some (Panic, snd ra, snd wb))))) = Some x"
  obtain y a1 where rd: "conn_Read bufSize a = Some (y, a1)" and y: "y \<noteq> Panic"
    using body conn_Read_safe [of bufSize a] by (cases "conn_Read bufSize a") auto
  show "fst x = Panic \<or> runs encode_read (encode_write sn token) a b (Ending (fst x = Ret ())) (snd x)"
  proof (cases y)
    case (Ret bs)
    obtain z b1 where w: "encode_write sn token (rnd i) bs b = Some (z, b1)"
      using encode.write_returns [of sn token "rnd i" bs b] by auto
    have nx: "(\<forall>n. z = Ret n \<longrightarrow> (\<exists>i. loop sn rnd token i a1 b1 = Some x)) \<and> (\<forall>e. z = Fail e \<longrightarrow> x = (Fail e, a1, b1)) \<and> (z = Panic \<longrightarrow> fst x = Panic)"
      using body rd w Ret by (auto simp: encode_write_def split: if_splits)
    note rr = runs_round [where R = encode_read and a = a and W = "encode_write sn token" and r = "rnd i" and b = b and ab = "snd x",
        OF rd [folded encode_read_def, unfolded Ret] rnd [rule_format] w]
    show ?thesis
    proof (cases z)
      case (Ret n)
      then obtain j where "loop sn rnd token j a1 b1 = Some x"
        using nx by blast
      then have "fst x = Panic \<or> runs encode_read (encode_write sn token) a1 b1 (Ending (fst x = Ret ())) (snd x)"
        using IH rnd by blast
      then show ?thesis
        using rr Ret by blast
    qed (use nx rr in auto)
  next
    case (Fail e)
    then show ?thesis
      using body rd runs_over [of encode_read a e a1 "encode_write sn token" b] by (cases "e = EOF") (auto simp: encode_read_def)
  qed (use y in simp)
qed

text \<open>C31. The sequential loops and the interleaved relay agree: whenever \<^verbatim>\<open>io.Copy\<close>, \<^verbatim>\<open>EncodeCopy\<close> or the decoding loop
  returns (without a panic), the pump that models it call by call has a run from the same connections to the same
  connections, and left its loop at the end of the stream exactly when the loop returned no error.\<close>

theorem loops_refine_pumps:
  "(io_Copy a b = Some (x, ab) \<longrightarrow> runs copy_read copy_write a b (Ending (x = Ret ())) ab) \<and>
   ((\<forall>i. rnd i < 99) \<and> x \<noteq> Panic \<and> EncodeCopy sn rnd token i a b = Some (x, ab) \<longrightarrow>
      runs encode_read (encode_write sn token) a b (Ending (x = Ret ())) ab) \<and>
   (x \<noteq> Panic \<and> decode_loop sn token a b = Some (x, ab) \<longrightarrow> (\<exists>c. runs (decode_read sn token) decode_write a b (Ending c) ab))"
  using io_Copy_runs [of a b "(x, ab)"] EncodeCopy_runs [of sn rnd token i a b "(x, ab)"]
    decode_loop_runs [of sn token a b "(x, ab)"] by auto

theorem loops_refine_pumps_witness:
  "\<exists>ab. io_Copy (example_rconn [[1, 2], [3]]) (example_rconn []) = Some (Ret (), ab) \<and>
     runs copy_read copy_write (example_rconn [[1, 2], [3]]) (example_rconn []) (Ending True) ab"
proof -
  let ?a = "example_rconn [[1, 2], [3]]" and ?b = "example_rconn []"
  obtain ab where run: "io_Copy ?a ?b = Some (Ret (), ab)"
    using io_Copy_delivers [of ?a ?b] by (auto simp: example_rconn_def writable_def)
  then show ?thesis
    using loops_refine_pumps [of ?a ?b "Ret ()" ab] by auto
qed

end
