(* ===== verification/Tunnel_Relay.thy ===== *)
theory Tunnel_Relay
  imports Workers Relay Statistic
begin

text \<open>
  The end of \<^verbatim>\<open>handleTCPConn\<close> (\<^verbatim>\<open>internal/tunnel/tunnel.go\<close>): the two connections become the sides of a relay, and its
  \<^verbatim>\<open>Dest\<close> is wrapped in a tracker (\<^verbatim>\<open>internal/statistic/tracker.go\<close>), which the API shows while the connection is open.

  A tracked relay is a relay of \<open>Relay\<close> with the counters of the tracker and the manager. The tracker counts a
  read or a write of \<^verbatim>\<open>Dest\<close> in the same call, that is, in the same step; \<^verbatim>\<open>Dest.Close()\<close> is a \<^verbatim>\<open>Close\<close> of the
  tracker, which leaves the table. Other connections change the manager at any time, except the entry of this one: the
  identifiers are random UUIDs. \<open>uuid_text\<close> stands for \<^verbatim>\<open>uuid.UUID.String\<close>.
\<close>

section \<open>From the tunnel to the relay\<close>

definition rconn_of :: "'z conn_scheme \<Rightarrow> rconn" where
  "rconn_of c = \<lparr>inp = inp c, rend = rend c, outp = outp c, wfail = wfail c, closed = closed c, raddr = raddr c, late = False\<rparr>"

lemma rconn_of_simps [simp]:
  "inp (rconn_of c) = inp c" "rend (rconn_of c) = rend c" "outp (rconn_of c) = outp c" "wfail (rconn_of c) = wfail c"
  "closed (rconn_of c) = closed c" "raddr (rconn_of c) = raddr c" "late (rconn_of c) = False"
  by (simp_all add: rconn_of_def)

text \<open>\<^verbatim>\<open>src, dest = ctx.Conn, destConn\<close>, exchanged in client mode.\<close>

definition relay_of :: "bool \<Rightarrow> session \<Rightarrow> conn \<Rightarrow> relay" where
  "relay_of swapped s d =
     (if swapped then relay_init (rconn_of d) (rconn_of s) else relay_init (rconn_of s) (rconn_of d))"

record 'c tracked_relay =
  t_relay :: relay
  t_uuid :: string
  t_up :: int64
  t_down :: int64
  t_mgr :: "'c Manager"

definition start_relay :: "(uuid \<Rightarrow> string) \<Rightarrow> 'c \<Rightarrow> TCPContext \<Rightarrow> bool \<Rightarrow> session \<Rightarrow> conn \<Rightarrow> 'c Manager \<Rightarrow> 'c tracked_relay" where
  "start_relay uuid_text self ctx swapped s d m =
     (let uuid = uuid_text (ID (Metadata ctx))
      in \<lparr>t_relay = relay_of swapped s d, t_uuid = uuid, t_up = 0, t_down = 0, t_mgr = Join uuid self m\<rparr>)"

section \<open>The tracked relay\<close>

text \<open>What a step wrote to and read from \<^verbatim>\<open>Dest\<close>: the goroutine that writes to \<^verbatim>\<open>Dest\<close> goes back to reading when
  its write has returned, the one that reads \<^verbatim>\<open>Dest\<close> goes on to writing what it got.\<close>

definition wrote :: "relay \<Rightarrow> relay \<Rightarrow> bytes" where
  "wrote r r' = (case (up_pc r, up_pc r') of (Writing bs, Reading) \<Rightarrow> bs | _ \<Rightarrow> [])"

definition took :: "relay \<Rightarrow> relay \<Rightarrow> bytes" where
  "took r r' = (case (down_pc r, down_pc r') of (Reading, Writing bs) \<Rightarrow> bs | _ \<Rightarrow> [])"

definition account :: "relay \<Rightarrow> relay \<Rightarrow> 'c tracked_relay \<Rightarrow> 'c tracked_relay" where
  "account r r' t =
     (let upload = of_nat (length (wrote r r')); download = of_nat (length (took r r'));
          m = PushUploaded upload (PushDownloaded download (t_mgr t))
      in t\<lparr>t_relay := r', t_up := t_up t + upload, t_down := t_down t + download,
           t_mgr := (if r_done r' then Leave (t_uuid t) m else m)\<rparr>)"

inductive tracked_step :: "(relay \<Rightarrow> relay \<Rightarrow> bool) \<Rightarrow> 'c tracked_relay \<Rightarrow> 'c tracked_relay \<Rightarrow> bool" for step where
  runs: "step (t_relay t) r' \<Longrightarrow> tracked_step step t (account (t_relay t) r' t)"
| closes: "api_close (t_relay t) r' \<Longrightarrow> tracked_step step t (t\<lparr>t_relay := r', t_mgr := Leave (t_uuid t) (t_mgr t)\<rparr>)"
| others: "connections m' (t_uuid t) = connections (t_mgr t) (t_uuid t) \<Longrightarrow> tracked_step step t (t\<lparr>t_mgr := m'\<rparr>)"

text \<open>Without its counters a tracked relay is a relay.\<close>

lemma tracked_relay_moves:
  "(tracked_step step)\<^sup>*\<^sup>* t t' \<Longrightarrow> (moves_to step)\<^sup>*\<^sup>* (t_relay t) (t_relay t')"
proof (induction rule: rtranclp_induct)
  case (step u v)
  have "moves_to step (t_relay u) (t_relay v) \<or> t_relay u = t_relay v"
    using step.hyps(2) by (cases rule: tracked_step.cases) (auto simp: moves_to_def account_def Let_def)
  then show ?case
    using step.IH by (auto intro: rtranclp.rtrancl_into_rtrancl)
qed simp

lemma tracked_uuid: "(tracked_step step)\<^sup>*\<^sup>* t t' \<Longrightarrow> t_uuid t' = t_uuid t"
  by (induction rule: rtranclp_induct) (auto elim!: tracked_step.cases simp: account_def Let_def)

section \<open>The contract of the counters\<close>

text \<open>The goroutines exchange plain bytes with \<^verbatim>\<open>Dest\<close>: a write that returns has written all of its bytes and a failing one
  nothing, a read takes exactly what it returns from the stream.\<close>

locale plain_dest = relay_frame Ru Wu mu Rd Wd md for Ru Wu mu Rd Wd md +
  assumes write_plain: "Wu r bs b = Some (y, b') \<Longrightarrow> outp b' = outp b @ (case y of Ret _ \<Rightarrow> bs | _ \<Rightarrow> [])"
    and read_plain: "Rd a = Some (x, a') \<Longrightarrow> stream a = (case x of Ret bs \<Rightarrow> bs | _ \<Rightarrow> []) @ stream a'"
begin

text \<open>What a step does to \<^verbatim>\<open>Dest\<close> is what is counted. Only a read after the deadline may lose bytes.\<close>

lemma dest_step:
  assumes "relay_step Ru Wu Rd Wd r r'"
  shows "outp (r_dest r') = outp (r_dest r) @ wrote r r' \<and>
    (late (r_dest r) \<longrightarrow> late (r_dest r')) \<and>
    (\<not> late (r_dest r') \<longrightarrow> stream (r_dest r) = took r r' @ stream (r_dest r')) \<and>
    (closed (r_dest r') \<longleftrightarrow> closed (r_dest r) \<or> r_done r') \<and> \<not> r_done r"
  using assms
proof (cases rule: relay_step.cases)
  case (up p a b)
  have "outp b = outp (r_dest r) @ wrote r r'" "took r r' = []"
    using up(3) by (cases rule: pump_step.cases; auto simp: up(1) wrote_def took_def dest: write_plain split: pc.splits)+
  then show ?thesis
    using up.step_frame [OF up(3)] up(1,2) by (simp add: running_def)
next
  case (down p b a)
  have "wrote r r' = []" "\<not> late b \<longrightarrow> stream (r_dest r) = took r r' @ stream b"
    using down(3) by (cases rule: pump_step.cases; auto simp: down(1) wrote_def took_def dest: read_plain split: pc.splits)+
  then show ?thesis
    using down.step_frame [OF down(3)] down(1,2) by (simp add: running_def)
next
  case (finish c d)
  then show ?thesis
    by (simp add: wrote_def took_def running_def)
qed

definition counted :: "'c \<Rightarrow> rconn \<Rightarrow> 'c tracked_relay \<Rightarrow> bool" where
  "counted self dest t \<longleftrightarrow>
     (let b = r_dest (t_relay t)
      in (\<exists>v. outp b = outp dest @ v \<and> t_up t = of_nat (length v)) \<and>
         (\<not> late b \<longrightarrow> (\<exists>v. stream dest = v @ stream b \<and> t_down t = of_nat (length v))) \<and>
         connections (t_mgr t) (t_uuid t) = (if closed b then None else Some self) \<and>
         (r_done (t_relay t) \<longrightarrow> closed b))"

lemma counted_step:
  assumes "tracked_step (relay_step Ru Wu Rd Wd) t t'" and "counted self dest t"
  shows "counted self dest t'"
  using assms(1)
proof (cases rule: tracked_step.cases)
  case (runs r')
  note d = dest_step [OF runs(2)]
  obtain v where v: "outp (r_dest (t_relay t)) = outp dest @ v" "t_up t = of_nat (length v)"
    using assms(2) by (auto simp: counted_def Let_def)
  have "\<exists>u. outp (r_dest r') = outp dest @ u \<and> t_up t' = of_nat (length u)"
    using d v by (intro exI [of _ "v @ wrote (t_relay t) r'"]) (simp add: runs(1) account_def Let_def)
  moreover have "\<exists>u. stream dest = u @ stream (r_dest r') \<and> t_down t' = of_nat (length u)" if late: "\<not> late (r_dest r')"
  proof -
    obtain u where "stream dest = u @ stream (r_dest (t_relay t))" "t_down t = of_nat (length u)"
      using assms(2) d late by (auto simp: counted_def Let_def)
    then show ?thesis
      using d late by (intro exI [of _ "u @ took (t_relay t) r'"]) (simp add: runs(1) account_def Let_def)
  qed
  moreover have "connections (t_mgr t') (t_uuid t') = (if closed (r_dest r') then None else Some self)"
    using assms(2) d by (auto simp: counted_def runs(1) account_def Let_def Leave_def PushUploaded_def PushUploaded1_def
        PushUploaded2_def PushDownloaded_def PushDownloaded1_def PushDownloaded2_def)
  ultimately show ?thesis
    using d by (simp add: counted_def runs(1) account_def Let_def)
next
  case (closes r')
  then show ?thesis
    using assms(2) by (simp add: counted_def Let_def api_close_def Leave_def)
next
  case (others m')
  then show ?thesis
    using assms(2) by (simp add: counted_def Let_def)
qed

lemma reachable_counted:
  assumes "(tracked_step (relay_step Ru Wu Rd Wd))\<^sup>*\<^sup>* t t'" and "t_relay t = relay_init src dest" and "\<not> closed dest"
    and "t_up t = 0" "t_down t = 0" and "connections (t_mgr t) (t_uuid t) = Some self"
  shows "counted self dest t'"
  using assms(1)
proof (induction rule: rtranclp_induct)
  case base
  then show ?case
    using assms(2-) by (simp add: counted_def relay_init_def)
qed (rule counted_step)

end

lemma conn_Read_takes:
  "conn_Read n a = Some (x, a') \<Longrightarrow> stream a = (case x of Ret bs \<Rightarrow> bs | _ \<Rightarrow> []) @ stream a'"
  by (auto simp: conn_Read_def split: if_splits list.splits rd_end.splits)

lemma conn_Write_puts:
  "conn_Write bs b = Some (y, b') \<Longrightarrow> outp b' = outp b @ (case y of Ret _ \<Rightarrow> bs | _ \<Rightarrow> [])"
  using conn_Write_cases [of bs b] by auto

interpretation tracked_direct: plain_dest copy_read copy_write segs_left copy_read copy_write segs_left
  by unfold_locales (auto simp: copy_read_def copy_write_def dest: conn_Read_takes conn_Write_puts split: if_splits res.splits)

interpretation tracked_forward: plain_dest "decode_read sn token" decode_write "\<lambda>q. length (concat q)"
    encode_read "encode_write sn token" segs_left for sn token
  by unfold_locales (simp_all add: encode_read_def decode_write_def conn_Read_takes conn_Write_puts)

section \<open>What the tunnel hands over\<close>

lemma run_PreFn_inp: "run_PreFn date f s = Some (r, s') \<Longrightarrow> inp s' = inp s"
  by (auto simp: run_PreFn_def httpWriteProxyHeader_def io_skip_def io_catch_def io_bind_def conn_Write_def
      split: PreFn.splits option.splits if_splits)

lemma client_hands_over:
  assumes "handleTCPConn env cfg token ctx s = Some (Ret (Relaying Proxy True), s', Some d')"
  shows "\<exists>tls addr d. Dial env tls addr = Ret d \<and> send_target env token ctx d = Some (Ret (), d') \<and> stream s' = stream s"
  using assms run_PreFn_inp [of "Date env" "PreFn ctx" s]
  by (auto simp: handleTCPConn_def bytes_of_def Let_def split: res.splits option.splits prod.splits if_splits)

lemma server_hands_over:
  assumes "handleTCPConn env cfg token ctx s = Some (Ret (Relaying k swapped), s', Some d')"
    and "Mode cfg = ServerMode" and "PreFn ctx = NoPreFn"
  shows "k = Proxy \<and> \<not> swapped \<and> s' = s"
  using assms by (auto simp: handleTCPConn_def run_PreFn_def Let_def ServerMode_def DirectMode_def ClientMode_def
      split: res.splits option.splits prod.splits if_splits)

text \<open>The packets ahead of the relay: the destination, and the HTTP request if there is one.\<close>

lemma send_target_packets:
  assumes "snappy_ok (Snappy env)" and "token \<noteq> []" and "fits_packet (Snappy env)" and "\<forall>i. Rnd env i < 99"
    and "length (constant_IP_String (Dest (Metadata ctx))) \<le> bufSize" and "length (Line ctx) \<le> bufSize" and "writable d"
  obtains pkt ls where "packet_of (Snappy env) token (Rnd env 0) (bytes_of (constant_IP_String (Dest (Metadata ctx)))) pkt"
    and "packets (Snappy env) token ls" and "concat (map snd ls) = bytes_of (Line ctx)"
    and "send_target env token ctx d = Some (Ret (), d\<lparr>outp := outp d @ pkt @ concat (map fst ls)\<rparr>)"
proof (rule send_target_ok [OF assms])
  fix pkt assume "packet_of (Snappy env) token (Rnd env 0) (bytes_of (constant_IP_String (Dest (Metadata ctx)))) pkt"
    and "Line ctx = ''''" and "send_target env token ctx d = Some (Ret (), d\<lparr>outp := outp d @ pkt\<rparr>)"
  then show thesis
    by (intro that [of pkt "[]"]) (simp_all add: packets_def bytes_of_def)
next
  fix pkt pkt' assume "packet_of (Snappy env) token (Rnd env 0) (bytes_of (constant_IP_String (Dest (Metadata ctx)))) pkt"
    and "packet_of (Snappy env) token (Rnd env 1) (bytes_of (Line ctx)) pkt'"
    and "send_target env token ctx d = Some (Ret (), d\<lparr>outp := outp d @ pkt @ pkt'\<rparr>)"
  then show thesis
    using assms(4) by (intro that [of pkt "[(pkt', bytes_of (Line ctx))]"]) (auto simp: packets_def)
qed

text \<open>The way of a request through both halves.\<close>

lemma request_path:
  assumes "snappy_ok (Snappy env)" and "fits_packet (Snappy env)" and "\<forall>i. Rnd env i < 99"
    and "Token (Local scfg) \<noteq> ''''" and "token = bytes_of (Token (Local scfg))" and "Mode scfg = ServerMode"
    and "\<forall>tls addr d. Dial env tls addr = Ret d \<longrightarrow> writable d \<and> outp d = []"
    and "handleTCPConn env cfg token ctx c = Some (Ret (Relaying Proxy True), c1, Some d1)"
    and "CHR ''['' \<notin> set (Addr (Dest (Metadata ctx)))" "CHR '']'' \<notin> set (Addr (Dest (Metadata ctx)))"
    and "0 \<le> Port (Dest (Metadata ctx))" "Port (Dest (Metadata ctx)) < 2 ^ 63"
    and "length (constant_IP_String (Dest (Metadata ctx))) \<le> bufSize" and "length (Line ctx) \<le> bufSize"
    and "(moves_to (Start Proxy (Snappy env) token))\<^sup>*\<^sup>* (relay_of True c1 d1) r"
    and "stream srv @ t = outp (r_src r)" and "length (outp d1) \<le> length (stream srv)"
    and "\<not> closed srv" and "VerifyIP scfg (raddr srv)" and "0 \<le> wg srv"
  shows "\<exists>srv1 sctx. server_serve (Snappy env) scfg uid srv = Some (Ret (), srv1) \<and> tcpIn srv1 = tcpIn srv @ [sctx] \<and>
    Dest (Metadata sctx) = Dest (Metadata ctx) \<and>
    (\<forall>senv k swapped srv2 d2 r'.
       handleTCPConn senv scfg token sctx srv1 = Some (Ret (Relaying k swapped), srv2, Some d2) \<and>
       (moves_to (Start k (Snappy env) token))\<^sup>*\<^sup>* (relay_of swapped srv2 d2) r' \<longrightarrow>
       (\<exists>v. outp (r_dest r') = outp d2 @ v \<and> prefix v (bytes_of (Line ctx) @ stream c) \<and>
          (t = [] \<and> down_pc r = Ended True \<and> up_pc r' = Ended True \<longrightarrow> v = bytes_of (Line ctx) @ stream c)))"
proof -
  let ?sn = "Snappy env" and ?dst = "Dest (Metadata ctx)"
  have tok: "token \<noteq> []" "bytes_of (Token (Local scfg)) \<noteq> []"
    using assms(4,5) by simp_all
  obtain tls addr d where d: "Dial env tls addr = Ret d" "send_target env token ctx d = Some (Ret (), d1)" "stream c1 = stream c"
    using client_hands_over [OF assms(8)] by blast
  then have fresh: "writable d" "outp d = []"
    using assms(7) by blast+
  obtain pkt ls where pkt: "packet_of ?sn token (Rnd env 0) (bytes_of (constant_IP_String ?dst)) pkt"
    and ls: "packets ?sn token ls" "concat (map snd ls) = bytes_of (Line ctx)"
    and sent: "send_target env token ctx d = Some (Ret (), d\<lparr>outp := outp d @ pkt @ concat (map fst ls)\<rparr>)"
    by (rule send_target_packets [OF assms(1) tok(1) assms(2,3,13,14) fresh(1)])
  have d1: "outp d1 = pkt @ concat (map fst ls)"
    using d(2) sent fresh(2) by auto
  obtain qs where qs: "packets ?sn token qs" "outp (r_src r) = outp d1 @ concat (map fst qs)"
    "prefix (concat (map snd qs)) (stream c)" "down_pc r = Ended True \<longrightarrow> concat (map snd qs) = stream c"
    using forward_packs [OF assms(1) tok(1) assms(2), of "rconn_of d1" "rconn_of c1" r] assms(15) d(3)
    by (auto simp: Start_def relay_of_def)
  have "stream srv @ t = pkt @ concat (map fst (ls @ qs))"
    using assms(16) qs(2) d1 by simp
  moreover have "length pkt \<le> length (stream srv)"
    using assms(17) d1 by simp
  ultimately obtain rest where rest: "stream srv = pkt @ rest" "rest @ t = concat (map fst (ls @ qs))"
    by (metis packet_or_part not_le)
  have all: "packets ?sn token (ls @ qs)"
    using ls(1) qs(1) by (auto simp: packets_def)
  obtain q where q: "concat q = rest" and serve: "server_serve ?sn scfg uid srv = Some (Ret (), srv\<lparr>inp := q, wg := wg srv + 1,
      tcpIn := tcpIn srv @ [\<lparr>Metadata = \<lparr>ID = uid, NetWork = TCP, Type = SOCKS5, Src = IP_of (raddr srv), Dest = ?dst\<rparr>,
        Line = [], PreFn = NoPreFn, PostFn = WgDone\<rparr>]\<rparr>)" (is "_ = Some (_, ?srv1)")
    by (rule server_serve_packet [OF assms(1) tok(2) assms(3)[rule_format] assms(9-12,19,20,18) pkt [unfolded assms(5)] rest(1)])
  have "\<exists>v. outp (r_dest r') = outp d2 @ v \<and> prefix v (bytes_of (Line ctx) @ stream c) \<and>
      (t = [] \<and> down_pc r = Ended True \<and> up_pc r' = Ended True \<longrightarrow> v = bytes_of (Line ctx) @ stream c)"
    if run: "handleTCPConn senv scfg token (last (tcpIn ?srv1)) ?srv1 = Some (Ret (Relaying k swapped), srv2, Some d2)"
      "(moves_to (Start k ?sn token))\<^sup>*\<^sup>* (relay_of swapped srv2 d2) r'" for senv k swapped srv2 d2 r'
  proof -
    have "k = Proxy" "\<not> swapped" "srv2 = ?srv1"
      using server_hands_over [OF run(1) assms(6)] by simp_all
    then have "(moves_to (forward_step ?sn token))\<^sup>*\<^sup>* (relay_init (rconn_of ?srv1) (rconn_of d2)) r'"
      using run(2) by (simp add: relay_of_def Start_def)
    from forward_unpacks [OF assms(1) tok(1) all _ this, of t] obtain v where "outp (r_dest r') = outp d2 @ v"
      "prefix v (bytes_of (Line ctx) @ concat (map snd qs))"
      "t = [] \<and> up_pc r' = Ended True \<longrightarrow> v = bytes_of (Line ctx) @ concat (map snd qs)"
      using q rest(2) ls(2) by auto
    then show ?thesis
      using qs(3,4) by (intro exI [of _ v]) (auto intro: prefix_order.trans)
  qed
  moreover have "tcpIn ?srv1 = tcpIn srv @ [last (tcpIn ?srv1)]" "Dest (Metadata (last (tcpIn ?srv1))) = ?dst"
    by simp_all
  ultimately show ?thesis
    using serve by blast
qed

section \<open>Properties\<close>

lemma relay_of_sides:
  "\<exists>src. relay_of swapped s d = relay_init src (if swapped then rconn_of s else rconn_of d)"
  by (auto simp: relay_of_def)



lemma direct_hands_over:
  assumes "handleTCPConn env cfg token ctx s = Some (Ret (Relaying k swapped), s', Some d')" and "Mode cfg = DirectMode"
    and "\<forall>tls addr d. Dial env tls addr = Ret d \<longrightarrow> writable d \<and> outp d = []"
  shows "k = Direct \<and> \<not> swapped \<and> outp d' = bytes_of (Line ctx) \<and> stream s' = stream s \<and>
    run_PreFn (Date env) (PreFn ctx) s = Some (Ret (), s')"
proof -
  obtain s1 where pre: "run_PreFn (Date env) (PreFn ctx) s = Some (Ret (), s1)"
    using run_PreFn_returns by blast
  have "Mode cfg \<noteq> ClientMode"
    using assms(2) by (simp add: DirectMode_def ClientMode_def)
  then show ?thesis
    using assms pre run_PreFn_inp [OF pre]
    by (auto simp: handleTCPConn_def bytes_of_def Let_def split: res.splits option.splits prod.splits if_splits)
qed

text \<open>C16. A proxied connection in direct mode. When the tunnel has started its relay, then whatever the relay and the
  API do: the target has received the redirected HTTP request, if there is one, and then a prefix of what the client
  sends, all of it if that direction ended at the end of the stream; and the client has received, behind what it had got before the
  relay, a prefix of what the target sends, again all of it in that case.\<close>

theorem direct_session_delivers:
  assumes "handleTCPConn env cfg token ctx s = Some (Ret (Relaying k swapped), s1, Some d1)" and "Mode cfg = DirectMode"
    and "\<forall>tls addr d. Dial env tls addr = Ret d \<longrightarrow> writable d \<and> outp d = []"
    and "(moves_to (Start k sn token))\<^sup>*\<^sup>* (relay_of swapped s1 d1) r"
  shows "(\<exists>v. outp (r_dest r) = bytes_of (Line ctx) @ v \<and> prefix v (stream s) \<and> (up_pc r = Ended True \<longrightarrow> v = stream s)) \<and>
    (\<exists>w. outp (r_src r) = outp s1 @ w \<and> prefix w (stream d1) \<and> (down_pc r = Ended True \<longrightarrow> w = stream d1))"
proof -
  note over = direct_hands_over [OF assms(1-3)]
  have run: "(moves_to (relay_step copy_read copy_write copy_read copy_write))\<^sup>*\<^sup>* (relay_init (rconn_of s1) (rconn_of d1)) r"
    using over assms(4) by (simp add: relay_of_def Start_cases)
  have "raw True (stream (rconn_of s1)) (stream s)" "raw True (stream (rconn_of d1)) (stream d1)"
    using over by (simp_all add: raw_def)
  from direct_up.up_prefix [OF run this(1)] direct_down.down_prefix [OF run this(2)] show ?thesis
    using over by auto
qed

text \<open>One chunk on its way from the client to the target.\<close>

lemma copied_chunk:
  assumes "inp src = bs # rest" and "bs \<noteq> []" and "length bs \<le> 32768" and "\<not> closed src" and "writable dest"
  shows "(moves_to (Start Direct sn token))\<^sup>*\<^sup>* (relay_init src dest)
    (at Reading Reading (src\<lparr>inp := rest\<rparr>) (dest\<lparr>outp := outp dest @ bs\<rparr>))"
proof -
  have "copy_read src = Some (Ret bs, src\<lparr>inp := rest\<rparr>)"
    using assms by (simp add: copy_read_def conn_Read_def)
  then have "Start Direct sn token (relay_init src dest) (at (Writing bs) Reading (src\<lparr>inp := rest\<rparr>) dest)"
    unfolding Start_cases relay_init_def by (intro step_at(1) pump_step.got) simp_all
  moreover have "copy_write 0 bs dest = Some (Ret (length bs), dest\<lparr>outp := outp dest @ bs\<rparr>)"
    using assms by (simp add: copy_write_def)
  then have "Start Direct sn token (at (Writing bs) Reading (src\<lparr>inp := rest\<rparr>) dest)
      (at Reading Reading (src\<lparr>inp := rest\<rparr>) (dest\<lparr>outp := outp dest @ bs\<rparr>))"
    unfolding Start_cases by (intro step_at(1) pump_step.put [of 0]) simp_all
  ultimately show ?thesis
    by (intro moves_to_steps) simp
qed

theorem direct_session_delivers_witness:
  "\<exists>s1 d1 r. handleTCPConn example_env initial_Config [1] example_ctx (client_session [[1, 2], [3]]) =
      Some (Ret (Relaying Direct False), s1, Some d1) \<and>
    (moves_to (Start Direct stored_snappy [1]))\<^sup>*\<^sup>* (relay_of False s1 d1) r \<and>
    outp (r_dest r) = [1, 2] \<and> (\<exists>v. outp (r_dest r) = bytes_of (Line example_ctx) @ v \<and> prefix v [1, 2, 3])"
proof -
  let ?s = "client_session [[1, 2], [3]]"
  obtain s1 d1 where run: "handleTCPConn example_env initial_Config [1] example_ctx ?s = Some (Ret (Relaying Direct False), s1, Some d1)"
    and s1: "inp s1 = [[1, 2], [3]]" "\<not> closed s1" and d1: "d1 = idle_conn []"
    by (simp add: handleTCPConn_def example_env_def example_ctx_def initial_Config_def dial_target_def DirectMode_def
        ClientMode_def run_PreFn_def client_session_def bytes_of_def)
  have env: "Mode initial_Config = DirectMode" "\<forall>tls addr d. Dial example_env tls addr = Ret d \<longrightarrow> writable d \<and> outp d = []"
    by (simp_all add: initial_Config_def example_env_def idle_conn_def writable_def)
  let ?r = "at Reading Reading ((rconn_of s1)\<lparr>inp := [[3]]\<rparr>) ((rconn_of d1)\<lparr>outp := outp (rconn_of d1) @ [1, 2]\<rparr>)"
  have moved: "(moves_to (Start Direct stored_snappy [1]))\<^sup>*\<^sup>* (relay_of False s1 d1) ?r"
    using copied_chunk [of "rconn_of s1" "[1, 2]" "[[3]]" "rconn_of d1" stored_snappy "[1]"] s1 d1
    by (simp add: relay_of_def writable_def idle_conn_def)
  have "stream ?s = [1, 2, 3]"
    by (simp add: client_session_def)
  with direct_session_delivers [OF run env moved]
  have "\<exists>v. outp (r_dest ?r) = bytes_of (Line example_ctx) @ v \<and> prefix v [1, 2, 3]"
    by auto
  moreover have "outp (r_dest ?r) = [1, 2]"
    using d1 by (simp add: idle_conn_def)
  ultimately show ?thesis
    using run moved by blast
qed

end
