(* ===== verification/Half_System.thy ===== *)
theory Half_System
  imports Accept Tunnel_Relay
begin

text \<open>
  Each half of the program as one system: the accept loop (of \<^verbatim>\<open>internal/mixed/mixed.go\<close> or \<^verbatim>\<open>internal/server/tcp.go\<close>, which are the
  same but for the \<^verbatim>\<open>handle\<close> they start), a goroutine \<^verbatim>\<open>handle\<close> for every admitted connection, the queue \<^verbatim>\<open>tunnel.TCPIn\<close> they share, its workers (\<^verbatim>\<open>internal/tunnel/tunnel.go\<close>), a goroutine \<^verbatim>\<open>handleTCPConn\<close>
  for every context, and the wait group that all of them change. The goroutines interleave; a goroutine works on its own connection
  and touches what is shared at most once in each of the steps here, so that each of them is taken as a whole. What the system
  needs of \<^verbatim>\<open>handle\<close> is the locale \<open>half_listener\<close>, which both listeners provide (\<open>lhalf\<close>, \<open>rhalf\<close>).
\<close>

text \<open>How far a connection has come: turned away, in \<^verbatim>\<open>handle\<close>, after \<^verbatim>\<open>handle\<close> (its context, if it sent one, waits in the
  queue), taken by a worker, relayed, or over. \<open>Handled s n\<close> and \<open>Over ctx n\<close> have taken \<open>n\<close> off the wait group.\<close>

datatype stage = Refused | Handling session | Handled session int | Taken TCPContext session
  | Relayed TCPContext relay_type bool session conn | Over TCPContext int

record client_conn =
  peer :: string
  stage :: stage

record half_state =
  swg :: int
  waiting :: "(nat \<times> TCPContext) list"
  clients :: "client_conn list"
  crashed :: bool

definition half_start :: half_state where
  "half_start = \<lparr>swg = 0, waiting = [], clients = [], crashed = False\<rparr>"

section \<open>The steps\<close>

definition at_stage :: "nat \<Rightarrow> stage \<Rightarrow> half_state \<Rightarrow> bool" where
  "at_stage i g st \<longleftrightarrow> i < length (clients st) \<and> stage (clients st ! i) = g"

definition goes_to :: "nat \<Rightarrow> stage \<Rightarrow> half_state \<Rightarrow> half_state" where
  "goes_to i g st = st\<lparr>clients := (clients st)[i := (clients st ! i)\<lparr>stage := g\<rparr>]\<rparr>"

text \<open>The loop of \<^verbatim>\<open>ListenAndServe\<close> with \<^verbatim>\<open>l.wg.Add(1)\<close> and the start of the handler.\<close>

definition do_accept :: "acceptor \<Rightarrow> half_state \<Rightarrow> half_state" where
  "do_accept l st = st\<lparr>swg := l_wg l, clients := clients st @
     map (\<lambda>s. \<lparr>peer = raddr s, stage = Handling s\<rparr>) (handlers l) @ map (\<lambda>s. \<lparr>peer = raddr s, stage = Refused\<rparr>) (refused l)\<rparr>"

text \<open>The return of \<^verbatim>\<open>handle\<close>, with what it has sent on the queue; a panic takes the process down.\<close>

definition do_handle :: "nat \<Rightarrow> unit res \<Rightarrow> session \<Rightarrow> half_state \<Rightarrow> half_state" where
  "do_handle i r s st = (goes_to i (Handled s (swg st - wg s)) st)\<lparr>swg := wg s, waiting := waiting st @ map (Pair i) (tcpIn s), crashed := (r = Panic)\<rparr>"

text \<open>\<^verbatim>\<open>handleTCPConn\<close> up to the relay, or to its end.\<close>

definition do_tunnel :: "nat \<Rightarrow> TCPContext \<Rightarrow> tunnel_end res \<Rightarrow> session \<Rightarrow> conn option \<Rightarrow> half_state \<Rightarrow> half_state" where
  "do_tunnel i ctx r s d st =
     (goes_to i (case (r, d) of (Ret (Relaying k swapped), Some d) \<Rightarrow> Relayed ctx k swapped s d | _ \<Rightarrow> Over ctx (swg st - wg s)) st)
       \<lparr>swg := wg s, crashed := (r = Panic)\<rparr>"

definition do_finish :: "nat \<Rightarrow> TCPContext \<Rightarrow> unit res \<Rightarrow> session \<Rightarrow> half_state \<Rightarrow> half_state" where
  "do_finish i ctx r s st = (goes_to i (Over ctx (swg st - wg s)) st)\<lparr>swg := wg s, crashed := (r = Panic)\<rparr>"

text \<open>What the system is given: the reader of PROXY headers, the configuration, the listener's \<^verbatim>\<open>handle\<close>, the
  identifiers, the token, and snappy. The resolver and the dialler of a tunnel may answer
  anything. A relay that is done has run to its end on the connections that the tunnel left.\<close>

inductive half_step :: "(session \<Rightarrow> session option) \<Rightarrow> Config \<Rightarrow> (Config \<Rightarrow> uuid \<Rightarrow> (unit, session) io) \<Rightarrow> (nat \<Rightarrow> uuid) \<Rightarrow> bytes \<Rightarrow>
    snappy \<Rightarrow> half_state \<Rightarrow> half_state \<Rightarrow> bool" for pp cfg H uid token sn where
  accept: "\<not> crashed st \<Longrightarrow> accept_round pp cfg a \<lparr>l_wg = swg st, handlers = [], refused = []\<rparr> = Some l \<Longrightarrow>
    half_step pp cfg H uid token sn st (do_accept l st)"
| handle: "\<not> crashed st \<Longrightarrow> at_stage i (Handling s) st \<Longrightarrow>
    H cfg (uid i) (s\<lparr>wg := swg st, tcpIn := []\<rparr>) = Some (r, s') \<Longrightarrow>
    half_step pp cfg H uid token sn st (do_handle i r s' st)"
| take: "\<not> crashed st \<Longrightarrow> waiting st = (i, ctx) # rest \<Longrightarrow> at_stage i (Handled s n) st \<Longrightarrow>
    half_step pp cfg H uid token sn st ((goes_to i (Taken ctx s) st)\<lparr>waiting := rest\<rparr>)"
| tunnel: "\<not> crashed st \<Longrightarrow> at_stage i (Taken ctx s) st \<Longrightarrow> Snappy env = sn \<Longrightarrow>
    handleTCPConn env cfg token ctx (s\<lparr>wg := swg st\<rparr>) = Some (r, s', d) \<Longrightarrow>
    half_step pp cfg H uid token sn st (do_tunnel i ctx r s' d st)"
| finish: "\<not> crashed st \<Longrightarrow> at_stage i (Relayed ctx k swapped s d) st \<Longrightarrow>
    (moves_to (Start k sn token))\<^sup>*\<^sup>* (relay_of swapped s d) q \<Longrightarrow> r_done q \<Longrightarrow>
    finish_relay ctx (s\<lparr>wg := swg st\<rparr>) d = Some (r, s', d') \<Longrightarrow>
    half_step pp cfg H uid token sn st (do_finish i ctx r s' st)"
| crash: "\<not> crashed st \<Longrightarrow> at_stage i (Relayed ctx k swapped s d) st \<Longrightarrow>
    (moves_to (Start k sn token))\<^sup>*\<^sup>* (relay_of swapped s d) q \<Longrightarrow> up_pc q = Panicked \<or> down_pc q = Panicked \<Longrightarrow>
    half_step pp cfg H uid token sn st (st\<lparr>crashed := True\<rparr>)"

inductive_cases half_stepE: "half_step pp cfg H uid token sn st st'"

section \<open>The invariant\<close>

text \<open>What a connection holds of the wait group, and the context it is at.\<close>

fun held :: "stage \<Rightarrow> int" where
  "held Refused = 0"
| "held (Handled s n) = 1 - n"
| "held (Over ctx n) = 1 - n"
| "held g = 1"

fun ctx_of :: "stage \<Rightarrow> TCPContext option" where
  "ctx_of (Taken ctx s) = Some ctx"
| "ctx_of (Relayed ctx k swapped s d) = Some ctx"
| "ctx_of (Over ctx n) = Some ctx"
| "ctx_of g = None"

text \<open>A context belongs to the connection \<open>i\<close> from this address, which passed access control; \<open>ok\<close> is what \<^verbatim>\<open>handle\<close> checks.\<close>

definition owned :: "(Config \<Rightarrow> string \<Rightarrow> bool) \<Rightarrow> Config \<Rightarrow> (nat \<Rightarrow> uuid) \<Rightarrow> nat \<Rightarrow> string \<Rightarrow> TCPContext \<Rightarrow> bool" where
  "owned ok cfg uid i a ctx \<longleftrightarrow> VerifyIP cfg a \<and> ok cfg a \<and> ID (Metadata ctx) = uid i \<and> Src (Metadata ctx) = IP_of a \<and>
     PostFn ctx = WgDone"

definition client_ok :: "(Config \<Rightarrow> string \<Rightarrow> bool) \<Rightarrow> Config \<Rightarrow> (nat \<Rightarrow> uuid) \<Rightarrow> nat \<Rightarrow> client_conn \<Rightarrow> bool" where
  "client_ok ok cfg uid i c \<longleftrightarrow> (stage c = Refused \<longleftrightarrow> \<not> VerifyIP cfg (peer c)) \<and> (\<forall>s. stage c = Handling s \<longrightarrow> raddr s = peer c) \<and>
     (\<forall>ctx. ctx_of (stage c) = Some ctx \<longrightarrow> owned ok cfg uid i (peer c) ctx) \<and> 0 \<le> held (stage c) \<and> held (stage c) \<le> 1"

definition half_ok :: "(Config \<Rightarrow> string \<Rightarrow> bool) \<Rightarrow> Config \<Rightarrow> (nat \<Rightarrow> uuid) \<Rightarrow> half_state \<Rightarrow> bool" where
  "half_ok ok cfg uid st \<longleftrightarrow> (\<forall>i < length (clients st). client_ok ok cfg uid i (clients st ! i)) \<and>
     swg st = (\<Sum>c\<leftarrow>clients st. held (stage c)) \<and> distinct (map fst (waiting st)) \<and>
     (\<forall>(i, ctx) \<in> set (waiting st). (\<exists>s. at_stage i (Handled s 0) st) \<and> owned ok cfg uid i (peer (clients st ! i)) ctx)"

lemma sum_update: "i < length xs \<Longrightarrow> (\<Sum>c\<leftarrow>xs[i := y]. f c :: int) = (\<Sum>c\<leftarrow>xs. f c) - f (xs ! i) + f y"
  by (induction xs arbitrary: i) (auto split: nat.splits)

lemma at_stage_length: "at_stage i g st \<Longrightarrow> i < length (clients st)"
  by (simp add: at_stage_def)

lemma at_stage_simps [simp]:
  "at_stage i g (st\<lparr>swg := w\<rparr>) = at_stage i g st" "at_stage i g (st\<lparr>waiting := q\<rparr>) = at_stage i g st"
  "at_stage i g (st\<lparr>crashed := b\<rparr>) = at_stage i g st"
  by (simp_all add: at_stage_def)

lemma at_stage_goes_to:
  "at_stage j h (goes_to i g st) \<longleftrightarrow> (if i = j \<and> j < length (clients st) then h = g else at_stage j h st)"
  by (auto simp: at_stage_def goes_to_def)

lemma goes_to_simps [simp]:
  "swg (goes_to i g st) = swg st" "waiting (goes_to i g st) = waiting st" "crashed (goes_to i g st) = crashed st"
  "length (clients (goes_to i g st)) = length (clients st)" "peer (clients (goes_to i g st) ! j) = peer (clients st ! j)"
  by (simp_all add: goes_to_def) (cases "i < length (clients st)"; cases "i = j"; simp add: list_update_beyond)

lemma half_ok_client: "half_ok ok cfg uid st \<Longrightarrow> i < length (clients st) \<Longrightarrow> client_ok ok cfg uid i (clients st ! i)"
  by (simp add: half_ok_def)

lemma half_ok_waiting:
  assumes "half_ok ok cfg uid st" and "(i, ctx) \<in> set (waiting st)"
  shows "(\<exists>s. at_stage i (Handled s 0) st) \<and> owned ok cfg uid i (peer (clients st ! i)) ctx"
  using assms unfolding half_ok_def by blast

lemma half_ok_goes_to:
  assumes "half_ok ok cfg uid st" and "at_stage i h st" and "client_ok ok cfg uid i \<lparr>peer = peer (clients st ! i), stage = g\<rparr>"
    and "w = swg st - held h + held g" and "distinct (map fst q)"
    and "\<And>ctx. (i, ctx) \<in> set q \<Longrightarrow> (\<exists>s. g = Handled s 0) \<and> owned ok cfg uid i (peer (clients st ! i)) ctx"
    and "\<And>j ctx. (j, ctx) \<in> set q \<Longrightarrow> j \<noteq> i \<Longrightarrow> (j, ctx) \<in> set (waiting st)"
  shows "half_ok ok cfg uid ((goes_to i g st)\<lparr>swg := w, waiting := q, crashed := b\<rparr>)"
proof -
  let ?st = "(goes_to i g st)\<lparr>swg := w, waiting := q, crashed := b\<rparr>"
  have i: "i < length (clients st)" "stage (clients st ! i) = h"
    using assms(2) by (simp_all add: at_stage_def)
  have "client_ok ok cfg uid j (clients ?st ! j)" if "j < length (clients ?st)" for j
    using that assms(3) half_ok_client [OF assms(1), of j] i(1) by (cases "i = j") (simp_all add: goes_to_def client_ok_def)
  moreover have "w = (\<Sum>c\<leftarrow>clients ?st. held (stage c))"
    using assms(1,4) sum_update [OF i(1), of "\<lambda>c. held (stage c)"] i(2) by (simp add: goes_to_def half_ok_def)
  moreover have "(\<exists>s. at_stage j (Handled s 0) ?st) \<and> owned ok cfg uid j (peer (clients ?st ! j)) ctx" if "(j, ctx) \<in> set q" for j ctx
  proof (cases "j = i")
    case True
    then show ?thesis
      using that assms(6) [of ctx] i(1) by (auto simp: at_stage_goes_to)
  next
    case False
    then have "(\<exists>s. at_stage j (Handled s 0) st) \<and> owned ok cfg uid j (peer (clients st ! j)) ctx"
      using that assms(7) [of j ctx] half_ok_waiting [OF assms(1)] by blast
    then show ?thesis
      using False by (auto simp: at_stage_goes_to)
  qed
  ultimately show ?thesis
    using assms(5) unfolding half_ok_def by auto
qed

section \<open>The steps keep it\<close>

lemma run_PreFn_wg: "run_PreFn date f s = Some (r, s') \<Longrightarrow> wg s' = wg s"
  using run_PreFn_returns [of date f s] tripleD [OF run_PreFn_keeps, of "tcpIn s" "wg s" "raddr s" s date f "()" s'] by (auto simp: rest_is_def)

text \<open>\<^verbatim>\<open>handleTCPConn\<close> takes at most one off the wait group, and nothing if the relay starts.\<close>

lemma handleTCPConn_ends:
  assumes "handleTCPConn env cfg token ctx s = Some (r, s', d)" and "run_PreFn (Date env) (PreFn ctx) s = Some (Ret (), s1)"
  shows "(\<exists>k swapped. r = Ret (Relaying k swapped)) \<and> s' = s1 \<and> d \<noteq> None \<or>
    (\<forall>k swapped. r \<noteq> Ret (Relaying k swapped)) \<and>
      (s' = closing s \<or> (\<exists>x s2. run_PostFn (PostFn ctx) s1 = Some (x, s2) \<and> s' = closing s2))"
  using assms(1) unfolding handleTCPConn_def Let_def assms(2)
  by (simp split: res.splits option.splits prod.splits if_splits) blast+

lemma handleTCPConn_wg:
  assumes "handleTCPConn env cfg token ctx s = Some (r, s', d)" and "0 < wg s" and "PostFn ctx = WgDone"
  shows "wg s' = wg s \<or> wg s' = wg s - 1" and "r = Ret (Relaying k swapped) \<Longrightarrow> wg s' = wg s"
proof -
  obtain s1 where pre: "run_PreFn (Date env) (PreFn ctx) s = Some (Ret (), s1)" "wg s1 = wg s"
    using run_PreFn_returns run_PreFn_wg by blast
  have "wg s2 = wg s1 - 1" if "run_PostFn (PostFn ctx) s1 = Some (x, s2)" for x s2
    using that assms(3) by (auto simp: run_PostFn_def wg_Done_def wg_Add_def split: if_splits)
  moreover have "wg (closing t) = wg t" for t
    by (simp add: closing_def)
  ultimately show "wg s' = wg s \<or> wg s' = wg s - 1" "r = Ret (Relaying k swapped) \<Longrightarrow> wg s' = wg s"
    using handleTCPConn_ends [OF assms(1) pre(1)] pre(2) by metis+
qed

lemma finish_relay_wg:
  assumes "finish_relay ctx s d = Some (r, s', d')" and "0 < wg s" and "PostFn ctx = WgDone"
  shows "wg s' = wg s - 1" and "r = Ret ()"
  using assms by (auto simp: finish_relay_def run_PostFn_def wg_Done_def wg_Add_def closing_def)

lemma half_ok_append:
  assumes "half_ok ok cfg uid st" and "client_ok ok cfg uid (length (clients st)) c"
  shows "half_ok ok cfg uid (st\<lparr>swg := swg st + held (stage c), clients := clients st @ [c]\<rparr>)" (is "half_ok ok cfg uid ?st")
proof -
  have "client_ok ok cfg uid j ((clients st @ [c]) ! j)" if "j < length (clients st @ [c])" for j
    using that assms by (cases "j = length (clients st)") (auto simp: nth_append half_ok_def)
  moreover have "(\<exists>s. at_stage j (Handled s 0) ?st) \<and> owned ok cfg uid j (peer (clients ?st ! j)) ctx" if "(j, ctx) \<in> set (waiting st)" for j ctx
  proof -
    obtain s where "at_stage j (Handled s 0) st" "owned ok cfg uid j (peer (clients st ! j)) ctx"
      using half_ok_waiting [OF assms(1)] \<open>(j, ctx) \<in> set (waiting st)\<close> by blast
    then show ?thesis
      by (auto simp: at_stage_def nth_append)
  qed
  ultimately show ?thesis
    using assms(1) unfolding half_ok_def by auto
qed

lemma half_ok_cong:
  "swg st' = swg st \<Longrightarrow> waiting st' = waiting st \<Longrightarrow> clients st' = clients st \<Longrightarrow> half_ok ok cfg uid st' = half_ok ok cfg uid st"
  by (simp add: half_ok_def at_stage_def)

lemma half_ok_accept:
  assumes "half_ok ok cfg uid st" and "accept_round pp cfg a \<lparr>l_wg = swg st, handlers = [], refused = []\<rparr> = Some l"
  shows "half_ok ok cfg uid (do_accept l st)"
proof -
  consider "l = \<lparr>l_wg = swg st, handlers = [], refused = []\<rparr>"
    | t where "\<not> VerifyIP cfg (raddr t)" "l = \<lparr>l_wg = swg st, handlers = [], refused = [t\<lparr>closed := True\<rparr>]\<rparr>"
    | t where "VerifyIP cfg (raddr t)" "l = \<lparr>l_wg = swg st + 1, handlers = [t\<lparr>wg := swg st + 1\<rparr>], refused = []\<rparr>"
    using assms(2) by (auto simp: accept_round_def split: accepted.splits option.splits if_splits)
  then show ?thesis
  proof cases
    case 1
    then show ?thesis
      using assms(1) by (subst half_ok_cong [of _ st]) (simp_all add: do_accept_def)
  next
    case (2 t)
    then show ?thesis
      using half_ok_append [OF assms(1), of "\<lparr>peer = raddr t, stage = Refused\<rparr>"] by (simp add: do_accept_def client_ok_def)
  next
    case (3 t)
    then show ?thesis
      using half_ok_append [OF assms(1), of "\<lparr>peer = raddr t, stage = Handling (t\<lparr>wg := swg st + 1\<rparr>)\<rparr>"]
      by (simp add: do_accept_def client_ok_def)
  qed
qed

lemma not_waiting:
  "half_ok ok cfg uid st \<Longrightarrow> at_stage i g st \<Longrightarrow> (\<And>s. g \<noteq> Handled s 0) \<Longrightarrow> (i, ctx) \<notin> set (waiting st)"
  by (fastforce simp: half_ok_def at_stage_def)

lemma half_ok_take:
  assumes "half_ok ok cfg uid st" and "waiting st = (i, ctx) # rest" and "at_stage i (Handled s n) st"
  shows "half_ok ok cfg uid ((goes_to i (Taken ctx s) st)\<lparr>waiting := rest\<rparr>)"
proof -
  have "owned ok cfg uid i (peer (clients st ! i)) ctx" and new: "i \<notin> fst ` set rest" "distinct (map fst rest)"
    and "\<exists>s. at_stage i (Handled s 0) st"
    using assms(1,2) half_ok_waiting [OF assms(1), of i ctx] by (auto simp: half_ok_def)
  moreover from this have "n = 0"
    using assms(3) by (auto simp: at_stage_def)
  ultimately have "half_ok ok cfg uid ((goes_to i (Taken ctx s) st)\<lparr>swg := swg st, waiting := rest, crashed := crashed st\<rparr>)"
    using assms(2) by (intro half_ok_goes_to [OF assms(1,3)]) (auto simp: client_ok_def owned_def intro: rev_image_eqI)
  then show ?thesis
    by (subst (asm) half_ok_cong) simp_all
qed

text \<open>A step of a connection that has a context and is not in the queue.\<close>

lemma half_ok_later:
  assumes "half_ok ok cfg uid st" and "at_stage i h st" and "ctx_of h = Some ctx" and "ctx_of g = Some ctx"
    and "w = swg st - held h + held g" and "0 \<le> held g" and "held g \<le> 1"
  shows "half_ok ok cfg uid ((goes_to i g st)\<lparr>swg := w, crashed := b\<rparr>)"
proof -
  have i: "i < length (clients st)" "stage (clients st ! i) = h"
    using assms(2) by (simp_all add: at_stage_def)
  then have "client_ok ok cfg uid i \<lparr>peer = peer (clients st ! i), stage = g\<rparr>"
    using half_ok_client [OF assms(1) i(1)] assms(3,4,6,7) by (cases g) (auto simp: client_ok_def owned_def)
  moreover have "(i, c) \<notin> set (waiting st)" for c
    using not_waiting [OF assms(1,2)] assms(3) by (cases h) simp_all
  ultimately have "half_ok ok cfg uid ((goes_to i g st)\<lparr>swg := w, waiting := waiting st, crashed := b\<rparr>)"
    using assms(1,5) by (intro half_ok_goes_to [OF assms(1,2)]) (auto simp: half_ok_def)
  then show ?thesis
    by (subst (asm) half_ok_cong) simp_all
qed

lemma swg_at_least:
  assumes "half_ok ok cfg uid st" and "at_stage i g st"
  shows "held g \<le> swg st"
proof -
  have i: "i < length (clients st)" "stage (clients st ! i) = g"
    using assms(2) by (simp_all add: at_stage_def)
  have "0 \<le> held (stage c)" if "c \<in> set (clients st)" for c
    using that half_ok_client [OF assms(1)] by (auto simp: in_set_conv_nth client_ok_def)
  then have "held (stage c) \<le> (\<Sum>c\<leftarrow>clients st. held (stage c))" if "c \<in> set (clients st)" for c
    using that by (intro member_le_sum_list) auto
  then show ?thesis
    using i assms(1) nth_mem [OF i(1)] unfolding half_ok_def by auto
qed

lemma half_ok_owned:
  assumes "half_ok ok cfg uid st" and "at_stage i g st" and "ctx_of g = Some ctx"
  shows "owned ok cfg uid i (peer (clients st ! i)) ctx"
  using assms half_ok_client [OF assms(1), of i] by (auto simp: at_stage_def client_ok_def)

lemma half_ok_start: "half_ok ok cfg uid half_start"
  by (simp add: half_ok_def half_start_def)

text \<open>A connection whose handler has returned without a context stays where it is, and so does one that is over.\<close>

definition stuck :: "nat \<Rightarrow> stage \<Rightarrow> half_state \<Rightarrow> bool" where
  "stuck i g st \<longleftrightarrow> at_stage i g st \<and> (\<forall>ctx. (i, ctx) \<notin> set (waiting st)) \<and> ((\<exists>s n. g = Handled s n) \<or> (\<exists>ctx n. g = Over ctx n))"

lemma stuck_step:
  assumes "half_step pp cfg H uid token sn st st'" and "stuck i g st"
  shows "stuck i g st'"
proof -
  have other: "j \<noteq> i" if "at_stage j h st" "\<And>s n. h \<noteq> Handled s n" "\<And>ctx n. h \<noteq> Over ctx n" for j h
    using that assms(2) by (auto simp: stuck_def at_stage_def)
  have stays: "stuck i g (goes_to j h st)" if "j \<noteq> i" for j h
    using that assms(2) by (simp add: stuck_def at_stage_goes_to)
  show ?thesis
    using assms(1)
  proof (cases rule: half_step.cases)
    case (accept a l)
    then show ?thesis
      using assms(2) by (simp add: stuck_def at_stage_def do_accept_def nth_append)
  next
    case (handle j s r s')
    then show ?thesis
      using stays [OF other [OF handle(3)]] other [OF handle(3)] by (auto simp: stuck_def do_handle_def)
  next
    case (take j ctx rest s n)
    then have "j \<noteq> i"
      using assms(2) by (auto simp: stuck_def)
    then show ?thesis
      using stays [of j "Taken ctx s"] take by (auto simp: stuck_def)
  next
    case (tunnel j ctx s env r s' d)
    then show ?thesis
      using stays [OF other [OF tunnel(3)]] by (simp add: stuck_def do_tunnel_def)
  next
    case (finish j ctx k swapped s d q r s' d')
    then show ?thesis
      using stays [OF other [OF finish(3)]] by (simp add: stuck_def do_finish_def)
  next
    case (crash j ctx k swapped s d q)
    then show ?thesis
      using assms(2) by (simp add: stuck_def)
  qed
qed

lemma stuck_reachable:
  assumes "(half_step pp cfg H uid token sn)\<^sup>*\<^sup>* st st'" and "stuck i g st"
  shows "stuck i g st'"
  using assms by (induction rule: rtranclp_induct) (auto intro: stuck_step)

section \<open>What the listener promises\<close>

text \<open>\<^verbatim>\<open>handle\<close> sends one context of its connection and leaves the wait group alone, or sends nothing and takes \<open>k\<close> off the wait
  group, unless it panics.\<close>

locale half_listener =
  fixes H :: "Config \<Rightarrow> uuid \<Rightarrow> (unit, session) io" and ok :: "Config \<Rightarrow> string \<Rightarrow> bool" and k :: int
  assumes handler_ends: "H cfg u s = Some (r, s') \<Longrightarrow> tcpIn s = [] \<Longrightarrow> 0 < wg s \<Longrightarrow>
      (\<exists>ctx. tcpIn s' = [ctx] \<and> wg s' = wg s \<and> ID (Metadata ctx) = u \<and> Src (Metadata ctx) = IP_of (raddr s) \<and> PostFn ctx = WgDone \<and>
         ok cfg (raddr s)) \<or>
      tcpIn s' = [] \<and> wg s' = (if r = Panic then wg s else wg s - k)"
    and releases: "k = 0 \<or> k = 1"
begin

lemma half_ok_handle:
  assumes "half_ok ok cfg uid st" and "at_stage i (Handling s) st"
    and "H cfg (uid i) (s\<lparr>wg := swg st, tcpIn := []\<rparr>) = Some (r, s')"
  shows "half_ok ok cfg uid (do_handle i r s' st)"
proof -
  have i: "i < length (clients st)" "stage (clients st ! i) = Handling s"
    using assms(2) by (simp_all add: at_stage_def)
  then have c: "raddr s = peer (clients st ! i)" "VerifyIP cfg (raddr s)"
    using half_ok_client [OF assms(1) i(1)] by (auto simp: client_ok_def)
  have "0 < swg st"
    using swg_at_least [OF assms(1,2)] by simp
  then have sent: "(\<exists>ctx. tcpIn s' = [ctx] \<and> wg s' = swg st \<and> owned ok cfg uid i (raddr s) ctx) \<or>
      tcpIn s' = [] \<and> (wg s' = swg st \<or> wg s' = swg st - 1)"
    using handler_ends [OF assms(3)] releases c(2) by (auto simp: owned_def split: if_splits)
  have free: "(i, ctx) \<notin> set (waiting st)" for ctx
    using not_waiting [OF assms(1,2)] by simp
  have "distinct (map fst (waiting st @ map (Pair i) (tcpIn s')))"
    using sent assms(1) free by (auto simp: half_ok_def)
  then show ?thesis
    unfolding do_handle_def using sent c free
    by (intro half_ok_goes_to [OF assms(1,2)]) (auto simp: client_ok_def)
qed

lemma half_ok_step:
  assumes "half_step pp cfg H uid token sn st st'" and "half_ok ok cfg uid st"
  shows "half_ok ok cfg uid st'"
  using assms(1)
proof (cases rule: half_step.cases)
  case (accept a l)
  then show ?thesis
    using half_ok_accept [OF assms(2)] by blast
next
  case (handle i s r s')
  then show ?thesis
    using half_ok_handle [OF assms(2)] by blast
next
  case (take i ctx rest s n)
  then show ?thesis
    using half_ok_take [OF assms(2)] by blast
next
  case (tunnel i ctx s env r s' d)
  let ?g = "case (r, d) of (Ret (Relaying k swapped), Some d) \<Rightarrow> Relayed ctx k swapped s' d | _ \<Rightarrow> Over ctx (swg st - wg s')"
  have pos: "0 < wg (s\<lparr>wg := swg st\<rparr>)" and post: "PostFn ctx = WgDone"
    using swg_at_least [OF assms(2) tunnel(3)] half_ok_owned [OF assms(2) tunnel(3)] by (simp_all add: owned_def)
  note wg = handleTCPConn_wg [OF tunnel(5) pos post]
  obtain s1 where pre: "run_PreFn (Date env) (PreFn ctx) (s\<lparr>wg := swg st\<rparr>) = Some (Ret (), s1)"
    using run_PreFn_returns by blast
  from handleTCPConn_ends [OF tunnel(5) pre]
  have "(\<exists>k swapped d'. r = Ret (Relaying k swapped) \<and> d = Some d') \<or> (\<forall>k swapped. r \<noteq> Ret (Relaying k swapped))"
    by auto
  then have "ctx_of ?g = Some ctx \<and> wg s' = swg st - held (Taken ctx s) + held ?g \<and> 0 \<le> held ?g \<and> held ?g \<le> 1"
    using wg by (auto split: res.splits tunnel_end.splits option.splits)
  then show ?thesis
    unfolding tunnel(1) do_tunnel_def by (intro half_ok_later [OF assms(2) tunnel(3)]) simp_all
next
  case (finish i ctx k swapped s d q r s' d')
  have pos: "0 < wg (s\<lparr>wg := swg st\<rparr>)" and post: "PostFn ctx = WgDone"
    using swg_at_least [OF assms(2) finish(3)] half_ok_owned [OF assms(2) finish(3)] by (simp_all add: owned_def)
  show ?thesis
    unfolding finish(1) do_finish_def using finish_relay_wg [OF finish(6) pos post]
    by (intro half_ok_later [OF assms(2) finish(3)]) simp_all
next
  case (crash i ctx k swapped s d q)
  then show ?thesis
    using assms(2) by (subst half_ok_cong) simp_all
qed

lemma half_ok_reachable:
  assumes "(half_step pp cfg H uid token sn)\<^sup>*\<^sup>* st st'" and "half_ok ok cfg uid st"
  shows "half_ok ok cfg uid st'"
  using assms by (induction rule: rtranclp_induct) (auto intro: half_ok_step)

text \<open>A connection whose handler returned without a context has given back \<open>k\<close>.\<close>

definition drops :: "half_state \<Rightarrow> bool" where
  "drops st \<longleftrightarrow> (\<forall>i s n. at_stage i (Handled s n) st \<and> (\<forall>ctx. (i, ctx) \<notin> set (waiting st)) \<longrightarrow> n = k \<or> crashed st \<and> n = 0)"

lemma drops_step:
  assumes "half_step pp cfg H uid token sn st st'" and "half_ok ok cfg uid st" and "drops st"
  shows "drops st'"
proof -
  have same: "drops ((goes_to j g st)\<lparr>swg := w, crashed := b\<rparr>)" if "\<not> crashed st" "\<And>s n. g \<noteq> Handled s n" for j g w b
    using that assms(3) unfolding drops_def by (auto simp: at_stage_goes_to)
  show ?thesis
    using assms(1)
  proof (cases rule: half_step.cases)
    case (accept a l)
    then show ?thesis
      using assms(3) unfolding drops_def
      by (auto simp: do_accept_def at_stage_def nth_append split: if_splits dest!: nth_mem)
  next
    case (handle i s r s')
    have "0 < swg st"
      using swg_at_least [OF assms(2) handle(3)] by simp
    then have "tcpIn s' \<noteq> [] \<or> wg s' = (if r = Panic then swg st else swg st - k)"
      using handler_ends [OF handle(4)] by auto
    then show ?thesis
      using assms(3) handle(1,2) unfolding drops_def
      by (auto simp: do_handle_def at_stage_goes_to split: if_splits) (metis image_eqI list.set_intros(1) neq_Nil_conv)+
  next
    case (take j ctx rest s n)
    then show ?thesis
      using assms(3) unfolding drops_def by (auto simp: at_stage_goes_to dest: at_stage_length split: if_splits)
  next
    case (tunnel j ctx s env r s' d)
    then show ?thesis
      using same unfolding do_tunnel_def by (simp split: prod.splits res.splits tunnel_end.splits option.splits)
  next
    case (finish j ctx k swapped s d q r s' d')
    then show ?thesis
      using same unfolding do_finish_def by simp
  next
    case (crash j ctx k swapped s d q)
    then show ?thesis
      using assms(3) unfolding drops_def by auto
  qed
qed

lemma drops_reachable:
  assumes "(half_step pp cfg H uid token sn)\<^sup>*\<^sup>* half_start st"
  shows "drops st"
  using assms
proof (induction rule: rtranclp_induct)
  case base
  then show ?case
    by (simp add: drops_def half_start_def at_stage_def)
next
  case (step st st')
  then show ?case
    using drops_step half_ok_reachable [OF step(1) half_ok_start] by blast
qed

lemma isolates:
  assumes "(half_step pp cfg H uid token sn)\<^sup>*\<^sup>* half_start st"
  shows "(\<forall>i ctx. (i, ctx) \<in> set (waiting st) \<or> (\<exists>g. at_stage i g st \<and> ctx_of g = Some ctx) \<longrightarrow>
      i < length (clients st) \<and> VerifyIP cfg (peer (clients st ! i)) \<and> ok cfg (peer (clients st ! i)) \<and> ID (Metadata ctx) = uid i \<and>
      Src (Metadata ctx) = IP_of (peer (clients st ! i)) \<and>
      (\<forall>ctx'. (i, ctx') \<in> set (waiting st) \<or> (\<exists>g. at_stage i g st \<and> ctx_of g = Some ctx') \<longrightarrow> ctx' = ctx)) \<and>
    (\<forall>i ctx rest. \<not> crashed st \<and> waiting st = (i, ctx) # rest \<longrightarrow>
      (\<exists>s. half_step pp cfg H uid token sn st ((goes_to i (Taken ctx s) st)\<lparr>waiting := rest\<rparr>))) \<and>
    swg st = (\<Sum>c\<leftarrow>clients st. held (stage c))"
proof -
  have ok: "half_ok ok cfg uid st"
    using half_ok_reachable [OF assms half_ok_start] .
  have own: "i < length (clients st) \<and> owned ok cfg uid i (peer (clients st ! i)) ctx"
    if "(i, ctx) \<in> set (waiting st) \<or> (\<exists>g. at_stage i g st \<and> ctx_of g = Some ctx)" for i ctx
    using that half_ok_waiting [OF ok] half_ok_owned [OF ok] by (auto simp: at_stage_def)
  have one: "ctx' = ctx"
    if c: "(i, ctx) \<in> set (waiting st) \<or> (\<exists>g. at_stage i g st \<and> ctx_of g = Some ctx)"
      and c': "(i, ctx') \<in> set (waiting st) \<or> (\<exists>g. at_stage i g st \<and> ctx_of g = Some ctx')" for i ctx ctx'
  proof (cases "\<exists>s n. at_stage i (Handled s n) st")
    case True
    then have "(i, ctx) \<in> set (waiting st)" "(i, ctx') \<in> set (waiting st)"
      using c c' by (auto simp: at_stage_def)
    then show ?thesis
      using ok by (auto simp: half_ok_def dest: eq_key_imp_eq_value)
  next
    case False
    then show ?thesis
      using c c' half_ok_waiting [OF ok] by (auto simp: at_stage_def)
  qed
  have "\<exists>s. half_step pp cfg H uid token sn st ((goes_to i (Taken ctx s) st)\<lparr>waiting := rest\<rparr>)"
    if "\<not> crashed st" "waiting st = (i, ctx) # rest" for i ctx rest
    using that half_ok_waiting [OF ok, of i ctx] half_step.take by fastforce
  then show ?thesis
    using own one ok unfolding owned_def half_ok_def by blast
qed

lemma holds_for_ever:
  assumes "(half_step pp cfg H uid token sn)\<^sup>*\<^sup>* half_start st" and "stuck i g st" and "held g = 1"
    and "(half_step pp cfg H uid token sn)\<^sup>*\<^sup>* st st'"
  shows "1 \<le> swg st'"
proof -
  have "at_stage i g st'"
    using stuck_reachable [OF assms(4,2)] by (simp add: stuck_def)
  with half_ok_reachable [OF assms(4) half_ok_reachable [OF assms(1) half_ok_start]] show ?thesis
    using swg_at_least assms(3) by metis
qed

lemma stuck_over:
  assumes "(half_step pp cfg H uid token sn)\<^sup>*\<^sup>* half_start st" and "at_stage i (Over ctx n) st"
  shows "stuck i (Over ctx n) st"
  using not_waiting [OF half_ok_reachable [OF assms(1) half_ok_start] assms(2)] assms(2) by (auto simp: stuck_def)

end

interpretation lhalf: half_listener "\<lambda>cfg u. mixed_handle cfg resolve udpAddr u" authorised 0 for resolve udpAddr
proof
  fix cfg u s r s'
  assume run: "mixed_handle cfg resolve udpAddr u s = Some (r, s')" and "tcpIn s = []"
  let ?p = "choose_proxy udpAddr (first_byte s)"
  consider "wg s' = wg s" "tcpIn s' = []"
    | s0 where "proxy_Handle cfg resolve ?p u s0 = Some (r, s')" "tcpIn s0 = []" "wg s0 = wg s" "raddr s0 = raddr s"
    using mixed_handle_run [OF run] \<open>tcpIn s = []\<close> by auto
  then show "(\<exists>ctx. tcpIn s' = [ctx] \<and> wg s' = wg s \<and> ID (Metadata ctx) = u \<and> Src (Metadata ctx) = IP_of (raddr s) \<and>
      PostFn ctx = WgDone \<and> authorised cfg (raddr s)) \<or>
    tcpIn s' = [] \<and> wg s' = (if r = Panic then wg s else wg s - 0)"
  proof cases
    case 2
    then show ?thesis
      using px.Handle_wg [OF 2(1)] px.Handle_sends [OF 2(1)] by (cases "tcpIn s' = []") (auto simp: ctx_for_def)
  qed simp
qed simp

interpretation rhalf: half_listener "\<lambda>cfg u. server_handle sn cfg u" "\<lambda>_ _. True" 1 for sn
proof
  fix cfg u s r s'
  assume "server_handle sn cfg u s = Some (r, s')" and "tcpIn s = []" and "0 < wg s"
  then show "(\<exists>ctx. tcpIn s' = [ctx] \<and> wg s' = wg s \<and> ID (Metadata ctx) = u \<and> Src (Metadata ctx) = IP_of (raddr s) \<and>
      PostFn ctx = WgDone \<and> True) \<or>
    tcpIn s' = [] \<and> wg s' = (if r = Panic then wg s else wg s - 1)"
    using server_handle_ends [of sn cfg u s r s'] by auto
qed simp

text \<open>A run in which a client is accepted and its handler returns.\<close>

lemma accept_and_handle:
  assumes "VerifyIP cfg (raddr s)" and "H cfg (uid 0) (s\<lparr>wg := 1, tcpIn := []\<rparr>) = Some (r, s')"
  shows "(half_step Some cfg H uid token sn)\<^sup>*\<^sup>* half_start
    \<lparr>swg = wg s', waiting = map (Pair 0) (tcpIn s'), clients = [\<lparr>peer = raddr s, stage = Handled s' (1 - wg s')\<rparr>], crashed = (r = Panic)\<rparr>"
proof -
  let ?step = "half_step Some cfg H uid token sn"
  let ?l = "\<lparr>l_wg = 1, handlers = [s\<lparr>wg := 1\<rparr>], refused = []\<rparr>"
  have "accept_round Some cfg (Accepted s) \<lparr>l_wg = swg half_start, handlers = [], refused = []\<rparr> = Some ?l"
    using assms(1) by (simp add: accept_round_def half_start_def)
  then have "?step half_start (do_accept ?l half_start)"
    by (intro half_step.accept) (simp_all add: half_start_def)
  moreover have "?step (do_accept ?l half_start) (do_handle 0 r s' (do_accept ?l half_start))"
    using assms(2) by (intro half_step.handle [where s = "s\<lparr>wg := 1\<rparr>"]) (simp_all add: do_accept_def half_start_def at_stage_def)
  ultimately have "?step\<^sup>*\<^sup>* half_start (do_handle 0 r s' (do_accept ?l half_start))"
    by simp
  then show ?thesis
    by (simp add: do_handle_def do_accept_def goes_to_def half_start_def)
qed

section \<open>Properties\<close>


text \<open>C11. The same holds for the remote half, with its white list but without users; and unlike the local half it takes a
  connection whose handler fails off the wait group at once.\<close>

theorem remote_half_isolates:
  assumes "(half_step pp cfg (\<lambda>cfg u. server_handle sn cfg u) uid token sn)\<^sup>*\<^sup>* half_start st"
  shows "((\<forall>i ctx. (i, ctx) \<in> set (waiting st) \<or> (\<exists>g. at_stage i g st \<and> ctx_of g = Some ctx) \<longrightarrow>
      i < length (clients st) \<and> VerifyIP cfg (peer (clients st ! i)) \<and> ID (Metadata ctx) = uid i \<and>
      Src (Metadata ctx) = IP_of (peer (clients st ! i)) \<and>
      (\<forall>ctx'. (i, ctx') \<in> set (waiting st) \<or> (\<exists>g. at_stage i g st \<and> ctx_of g = Some ctx') \<longrightarrow> ctx' = ctx)) \<and>
    (\<forall>i ctx rest. \<not> crashed st \<and> waiting st = (i, ctx) # rest \<longrightarrow>
      (\<exists>s. half_step pp cfg (\<lambda>cfg u. server_handle sn cfg u) uid token sn st ((goes_to i (Taken ctx s) st)\<lparr>waiting := rest\<rparr>))) \<and>
    swg st = (\<Sum>c\<leftarrow>clients st. held (stage c))) \<and>
    (\<not> crashed st \<longrightarrow> (\<forall>i s n. at_stage i (Handled s n) st \<and> (\<forall>ctx. (i, ctx) \<notin> set (waiting st)) \<longrightarrow> n = 1))"
proof (rule conjI, goal_cases)
  case 1
  show ?case
    using rhalf.isolates [OF assms] by simp
next
  case 2
  show ?case
    using rhalf.drops_reachable [OF assms] unfolding rhalf.drops_def by blast
qed




text \<open>A client of the server that hangs up within the header.\<close>

theorem remote_half_isolates_witness:
  "\<exists>st s. (half_step Some initial_Config (\<lambda>cfg u. server_handle stored_snappy cfg u) (\<lambda>_. []) [] stored_snappy)\<^sup>*\<^sup>* half_start st \<and>
     at_stage 0 (Handled s 1) st \<and> swg st = 0"
proof -
  let ?s = "(client_session [[1]])\<lparr>rend := AtEOF\<rparr>"
  let ?t = "?s\<lparr>wg := 0, tcpIn := [], inp := [], closed := True\<rparr>"
  have ip: "VerifyIP initial_Config (raddr ?s)"
    by (simp add: VerifyIP_def initial_Config_def)
  have "io_ReadFull headerLen (?s\<lparr>wg := 1, tcpIn := []\<rparr>) = Some (Fail UnexpectedEOF, ?s\<lparr>wg := 1, tcpIn := [], inp := []\<rparr>)"
    by (subst io_ReadFull_starves) (simp_all add: client_session_def headerLen_def end_error_def)
  then have "server_handle stored_snappy initial_Config [] (?s\<lparr>wg := 1, tcpIn := []\<rparr>) = Some (Ret (), ?t)"
    by (simp add: client_session_def server_handle_def io_catch_def io_bind_def protocol_ReadFull_def wg_Done_def wg_Add_def conn_Close_def)
  from accept_and_handle [where uid = "\<lambda>_. []" and H = "\<lambda>cfg u. server_handle stored_snappy cfg u", OF ip this]
  have reach: "(half_step Some initial_Config (\<lambda>cfg u. server_handle stored_snappy cfg u) (\<lambda>_. []) [] stored_snappy)\<^sup>*\<^sup>* half_start
      \<lparr>swg = 0, waiting = [], clients = [\<lparr>peer = raddr ?s, stage = Handled ?t 1\<rparr>], crashed = False\<rparr>"
    by simp
  let ?st = "\<lparr>swg = 0, waiting = [], clients = [\<lparr>peer = raddr ?s, stage = Handled ?t 1\<rparr>], crashed = False\<rparr>"
  have "swg ?st = (\<Sum>c\<leftarrow>clients ?st. held (stage c))"
    using remote_half_isolates [OF reach] by blast
  then show ?thesis
    using reach by (intro exI [of _ ?st] exI [of _ ?t]) (simp add: at_stage_def)
qed

end
