(* ===== verification/Udp.thy ===== *)
theory Udp
  imports Go_Slices Constant
begin

text \<open>
  \<^verbatim>\<open>internal/udp/udp.go\<close>: the relay of SOCKS5 UDP datagrams.

  Sockets and \<^verbatim>\<open>SrcUdpInfo\<close> objects live in heaps (an address is an index), because maps and
  goroutines share them; the datagrams received lie in arrays of the store, since \<^verbatim>\<open>originHeader\<close> and the
  payload are windows of the array of the datagram and \<^verbatim>\<open>append\<close> writes into it. Resolving and dialling are parameters
  (\<open>udp_env\<close>); an address is its text. A goroutine \<^verbatim>\<open>handleRemoteRead\<close> is an entry of \<open>readers\<close>.
  Times are seconds.
\<close>

record usock =
  u_laddr :: string
  u_raddr :: string
  u_sent :: "bytes list"
  u_open :: bool

record SrcUdpInfo =
  srcAddr :: string
  localAddr :: "string option"
  lastActiveTime :: int
  localDestCon :: "string \<rightharpoonup> nat"

record reader =
  rd_src :: string
  rd_sock :: nat
  rd_header :: slice
  rd_key :: string
  rd_info :: nat

record udp =
  associated :: "string \<rightharpoonup> nat"
  infos :: "SrcUdpInfo list"
  socks :: "usock list"
  readers :: "reader list"
  ustore :: store
  to_clients :: "(string \<times> bytes) list"

text \<open>\<^verbatim>\<open>net.DialUDP\<close> takes the local and the remote address, each possibly nil, and returns the local address of
  the new socket; a write fails or not.\<close>

record udp_env =
  ResolveUDPAddr :: "string \<Rightarrow> string res"
  DialUDP :: "string option \<Rightarrow> string option \<Rightarrow> string res"
  write_ok :: "string \<Rightarrow> bytes \<Rightarrow> bool"

section \<open>SrcUdpMap and SrcUdpInfo\<close>

definition new_udp :: udp where
  "new_udp = \<lparr>associated = Map.empty, infos = [], socks = [], readers = [], ustore = [], to_clients = []\<rparr>"

text \<open>A new object is returned, but not entered into the map.\<close>

definition SrcUdpMap_get :: "int \<Rightarrow> string \<Rightarrow> udp \<Rightarrow> nat \<times> udp" where
  "SrcUdpMap_get now src u =
     (case associated u src of
        Some i \<Rightarrow> (i, u)
      | None \<Rightarrow> (length (infos u),
          u\<lparr>infos := infos u @ [\<lparr>srcAddr = src, localAddr = None, lastActiveTime = now, localDestCon = Map.empty\<rparr>]\<rparr>))"

definition SrcUdpMap_delete :: "string \<Rightarrow> udp \<Rightarrow> udp" where
  "SrcUdpMap_delete src u = u\<lparr>associated := (associated u)(src := None)\<rparr>"

definition upd_info :: "nat \<Rightarrow> (SrcUdpInfo \<Rightarrow> SrcUdpInfo) \<Rightarrow> udp \<Rightarrow> udp" where
  "upd_info i f u = u\<lparr>infos := (infos u)[i := f (infos u ! i)]\<rparr>"

definition setLocalAddr :: "int \<Rightarrow> string \<Rightarrow> nat \<Rightarrow> udp \<Rightarrow> udp" where
  "setLocalAddr now a i = upd_info i (\<lambda>v. v\<lparr>localAddr := Some a, lastActiveTime := now\<rparr>)"

definition active :: "int \<Rightarrow> nat \<Rightarrow> udp \<Rightarrow> udp" where
  "active now i = upd_info i (\<lambda>v. v\<lparr>lastActiveTime := now\<rparr>)"

definition usock_Close :: "nat \<Rightarrow> udp \<Rightarrow> udp" where
  "usock_Close c u = u\<lparr>socks := (socks u)[c := (socks u ! c)\<lparr>u_open := False\<rparr>]\<rparr>"

definition deleteRemoteConn :: "string \<Rightarrow> nat \<Rightarrow> udp \<Rightarrow> udp" where
  "deleteRemoteConn remoteAddr i u =
     (case localDestCon (infos u ! i) remoteAddr of
        None \<Rightarrow> u
      | Some c \<Rightarrow> upd_info i (\<lambda>v. v\<lparr>localDestCon := (localDestCon v)(remoteAddr := None)\<rparr>) (usock_Close c u))"

definition addRemoteConn :: "string \<Rightarrow> nat \<Rightarrow> nat \<Rightarrow> udp \<Rightarrow> udp" where
  "addRemoteConn remoteAddr c i = upd_info i (\<lambda>v. v\<lparr>localDestCon := (localDestCon v)(remoteAddr \<mapsto> c)\<rparr>)"

definition getRemoteConn :: "string \<Rightarrow> nat \<Rightarrow> udp \<Rightarrow> nat option" where
  "getRemoteConn remoteAddr i u = localDestCon (infos u ! i) remoteAddr"

text \<open>\<^verbatim>\<open>Destroy\<close> closes every socket of the object.\<close>

definition Destroy :: "nat \<Rightarrow> udp \<Rightarrow> udp" where
  "Destroy i u = u\<lparr>socks := map (\<lambda>c. if c \<in> ran (localDestCon (infos u ! i)) then (socks u ! c)\<lparr>u_open := False\<rparr>
      else socks u ! c) [0..<length (socks u)]\<rparr>"

text \<open>\<^verbatim>\<open>(*SrcUdpMap).timeout\<close>: \<open>keys\<close> are the keys of the map in the order of the iteration.\<close>

definition SrcUdpMap_timeout :: "int \<Rightarrow> string list \<Rightarrow> udp \<Rightarrow> udp" where
  "SrcUdpMap_timeout now keys u =
     fold (\<lambda>k u. case associated u k of
         None \<Rightarrow> u
       | Some i \<Rightarrow> if lastActiveTime (infos u ! i) + 100 < now then Destroy i (SrcUdpMap_delete k u) else u) keys u"

section \<open>Datagrams of clients\<close>

datatype udp_request = Dropped | Request string "16 word" slice slice

definition parse_addr :: "store \<Rightarrow> slice \<Rightarrow> byte \<Rightarrow> (string \<times> nat) res" where
  "parse_addr st message atype =
     (if atype = ATypeIPv4 then
        bind_res (slice_between message 4 8) (\<lambda>a. Ret (IP_String (slice_bytes st a), 8))
      else if atype = ATypeDomainName then
        bind_res (slice_at st message 4) (\<lambda>addrLen.
        bind_res (slice_between message 5 (5 + unat addrLen)) (\<lambda>a.
        Ret (string_of (slice_bytes st a), 5 + unat addrLen)))
      else if atype = ATypeIPv6 then
        bind_res (slice_between message 4 20) (\<lambda>a. Ret (IP_String (slice_bytes st a), 20))
      else Ret ('''', 4))"

text \<open>\<^verbatim>\<open>handleUdpPacket\<close> up to the call of \<^verbatim>\<open>handleUdpPacket2\<close>: address, port, payload and header.\<close>

definition handleUdpPacket :: "store \<Rightarrow> slice \<Rightarrow> udp_request res" where
  "handleUdpPacket st message =
     (if slen message < 3 then Ret Dropped
      else
        bind_res (slice_at st message 0) (\<lambda>m0. bind_res (slice_at st message 1) (\<lambda>m1.
        if m0 \<noteq> 0 \<and> m1 \<noteq> 0 then Ret Dropped
        else bind_res (slice_at st message 2) (\<lambda>m2.
        if m2 \<noteq> 0 then Ret Dropped
        else bind_res (slice_at st message 3) (\<lambda>atype.
        bind_res (parse_addr st message atype) (\<lambda>(addr, index).
        bind_res (slice_between message index (index + 2)) (\<lambda>p.
        bind_res (slice_from message (index + 2)) (\<lambda>data.
        bind_res (slice_between message 0 (index + 2)) (\<lambda>originHeader.
        Ret (Request addr (getUint16 (slice_bytes st p)) data originHeader))))))))))"

text \<open>The end of \<^verbatim>\<open>handleUdpPacket2\<close>: write on the socket, give it up on an error.\<close>

definition udp_forward :: "udp_env \<Rightarrow> int \<Rightarrow> string \<Rightarrow> nat \<Rightarrow> slice \<Rightarrow> nat \<Rightarrow> udp \<Rightarrow> udp" where
  "udp_forward env now ua i message c u =
     (let bs = slice_bytes (ustore u) message
      in if u_open (socks u ! c) \<and> write_ok env (u_raddr (socks u ! c)) bs
         then active now i (u\<lparr>socks := (socks u)[c := (socks u ! c)\<lparr>u_sent := u_sent (socks u ! c) @ [bs]\<rparr>]\<rparr>)
         else deleteRemoteConn ua i u)"

definition handleUdpPacket2 ::
    "udp_env \<Rightarrow> int \<Rightarrow> string \<Rightarrow> string \<Rightarrow> 16 word \<Rightarrow> slice \<Rightarrow> slice \<Rightarrow> udp \<Rightarrow> udp" where
  "handleUdpPacket2 env now src dstAddr port message originHeader u =
     (let (i, u) = SrcUdpMap_get now src u; laddr = localAddr (infos u ! i);
          ua = dstAddr @ '':'' @ FormatUint (unat port)
      in case getRemoteConn ua i u of
           Some c \<Rightarrow> udp_forward env now ua i message c u
         | None \<Rightarrow>
             let destAddr = (case ResolveUDPAddr env ua of Ret a \<Rightarrow> Some a | _ \<Rightarrow> None)
             in case DialUDP env laddr destAddr of
                  Ret la \<Rightarrow>
                    let c = length (socks u);
                        u = u\<lparr>socks := socks u @ [\<lparr>u_laddr = la, u_raddr = (case destAddr of Some a \<Rightarrow> a | None \<Rightarrow> ''''),
                              u_sent = [], u_open = True\<rparr>]\<rparr>;
                        u = addRemoteConn ua c i u;
                        u = (if laddr = None then setLocalAddr now la i u else u);
                        u = u\<lparr>readers := readers u @
                          [\<lparr>rd_src = src, rd_sock = c, rd_header = originHeader, rd_key = ua, rd_info = i\<rparr>]\<rparr>
                    in udp_forward env now ua i message c u
                | _ \<Rightarrow> u)"

text \<open>One round of \<^verbatim>\<open>Listen\<close> on a datagram of \<open>n > 0\<close> bytes: a new array of 8192 bytes, and the handling of
  its first \<open>n\<close> bytes. A panic ends the process (\<open>None\<close>).\<close>

definition udp_receive :: "udp_env \<Rightarrow> int \<Rightarrow> string \<Rightarrow> bytes \<Rightarrow> udp \<Rightarrow> udp option" where
  "udp_receive env now src pkt u =
     (let n = min (length pkt) 8192; data = take n pkt @ replicate (8192 - n) 0;
          message = \<lparr>saddr = length (ustore u), soff = 0, slen = n, scap = 8192\<rparr>; u = u\<lparr>ustore := ustore u @ [data]\<rparr>
      in if n = 0 then Some u
         else (case handleUdpPacket (ustore u) message of
                 Ret Dropped \<Rightarrow> Some u
               | Ret (Request addr port payload hdr) \<Rightarrow> Some (handleUdpPacket2 env now src addr port payload hdr u)
               | _ \<Rightarrow> None))"

section \<open>Datagrams of targets\<close>

text \<open>One round of \<^verbatim>\<open>handleRemoteRead\<close> with a datagram \<open>b\<close>, and its end on an error. \<open>ok\<close>: the write to the client
  succeeds.\<close>

definition remote_round :: "int \<Rightarrow> bool \<Rightarrow> reader \<Rightarrow> bytes \<Rightarrow> udp \<Rightarrow> udp" where
  "remote_round now ok rd b u =
     (let u = active now (rd_info rd) u; (st, buf) = slice_append (ustore u) (rd_header rd) b; u = u\<lparr>ustore := st\<rparr>
      in if ok then u\<lparr>to_clients := to_clients u @ [(rd_src rd, slice_bytes st buf)]\<rparr> else u)"

definition remote_end :: "nat \<Rightarrow> udp \<Rightarrow> udp" where
  "remote_end j u =
     (let rd = readers u ! j
      in deleteRemoteConn (rd_key rd) (rd_info rd) (u\<lparr>readers := take j (readers u) @ drop (Suc j) (readers u)\<rparr>))"


section \<open>What a datagram asks for\<close>

text \<open>The message of a datagram: the first bytes of an array of 8192 bytes.\<close>

definition holds_message :: "store \<Rightarrow> slice \<Rightarrow> bytes \<Rightarrow> bool" where
  "holds_message st message pkt \<longleftrightarrow> saddr message < length st \<and> length pkt \<le> 8192 \<and>
     st ! saddr message = pkt @ replicate (8192 - length pkt) 0 \<and> soff message = 0 \<and> slen message = length pkt \<and> scap message = 8192"

lemma holds_message_facts:
  assumes "holds_message st message pkt"
  shows "slice_at st message i = (if i < length pkt then Ret (pkt ! i) else Panic)"
    and "i \<le> j \<Longrightarrow> j \<le> 8192 \<Longrightarrow> slice_between message i j = Ret (subslice message i j)"
    and "slice_from message i = (if i \<le> length pkt then Ret (subslice message i (length pkt)) else Panic)"
    and "i \<le> j \<Longrightarrow> j \<le> length pkt \<Longrightarrow> slice_bytes st (subslice message i j) = take (j - i) (drop i pkt)"
    and "valid_slice st message" and "slice_bytes st message = pkt"
proof -
  show v: "valid_slice st message"
    using assms by (simp add: holds_message_def valid_slice_def)
  show b: "slice_bytes st message = pkt"
    using assms by (simp add: holds_message_def slice_bytes_def)
  show "slice_at st message i = (if i < length pkt then Ret (pkt ! i) else Panic)"
    using assms by (simp add: slice_at_def slice_get_def holds_message_def nth_append)
  show "i \<le> j \<Longrightarrow> j \<le> 8192 \<Longrightarrow> slice_between message i j = Ret (subslice message i j)"
    and "slice_from message i = (if i \<le> length pkt then Ret (subslice message i (length pkt)) else Panic)"
    using assms by (simp_all add: slice_between_def slice_from_def holds_message_def)
  show "i \<le> j \<Longrightarrow> j \<le> length pkt \<Longrightarrow> slice_bytes st (subslice message i j) = take (j - i) (drop i pkt)"
    using slice_bytes_subslice [OF v, of i j] assms b by (simp add: holds_message_def)
qed

text \<open>The length of the header that the datagram's first bytes announce, and the host it names.\<close>

definition udp_header_len :: "bytes \<Rightarrow> nat" where
  "udp_header_len pkt =
     (if length pkt \<le> 3 then 4
      else if pkt ! 3 = ATypeIPv4 then 10
      else if pkt ! 3 = ATypeDomainName then (if length pkt \<le> 4 then 5 else 7 + unat (pkt ! 4))
      else if pkt ! 3 = ATypeIPv6 then 22
      else 6)"

definition udp_host :: "bytes \<Rightarrow> string" where
  "udp_host pkt =
     (if pkt ! 3 = ATypeIPv4 then IP_String (take 4 (drop 4 pkt))
      else if pkt ! 3 = ATypeDomainName then string_of (take (unat (pkt ! 4)) (drop 5 pkt))
      else if pkt ! 3 = ATypeIPv6 then IP_String (take 16 (drop 4 pkt))
      else '''')"

definition udp_accepted :: "bytes \<Rightarrow> bool" where
  "udp_accepted pkt \<longleftrightarrow> 3 \<le> length pkt \<and> (pkt ! 0 = 0 \<or> pkt ! 1 = 0) \<and> pkt ! 2 = 0"

lemma parse_addr_eq:
  assumes "holds_message st message pkt" and "3 < length pkt"
  shows "\<exists>addr. parse_addr st message (pkt ! 3) =
      (if pkt ! 3 = ATypeDomainName \<and> length pkt \<le> 4 then Panic else Ret (addr, udp_header_len pkt - 2)) \<and>
    (udp_header_len pkt \<le> length pkt \<longrightarrow> addr = udp_host pkt)"
proof -
  note H = holds_message_facts [OF assms(1)]
  have types: "ATypeDomainName \<noteq> ATypeIPv4" "ATypeIPv6 \<noteq> ATypeIPv4" "ATypeIPv6 \<noteq> ATypeDomainName"
    by (simp_all add: ATypeDomainName_def ATypeIPv4_def ATypeIPv6_def)
  have small: "5 + unat (pkt ! 4) \<le> 8192"
    using uint_lt2p_nat [of "pkt ! 4"] by simp
  consider "pkt ! 3 = ATypeIPv4" | "pkt ! 3 = ATypeDomainName" | "pkt ! 3 = ATypeIPv6"
    | "pkt ! 3 \<noteq> ATypeIPv4" "pkt ! 3 \<noteq> ATypeDomainName" "pkt ! 3 \<noteq> ATypeIPv6"
    by blast
  then show ?thesis
    by cases (use assms(2) types small in \<open>simp_all add: parse_addr_def H udp_header_len_def udp_host_def\<close>)
qed

text \<open>Everything that \<^verbatim>\<open>handleUdpPacket\<close> does with a datagram.\<close>

lemma handleUdpPacket_eq:
  assumes "holds_message st message pkt"
  shows "\<exists>data hdr. handleUdpPacket st message =
      (if \<not> udp_accepted pkt then Ret Dropped
       else if length pkt < udp_header_len pkt then Panic
       else Ret (Request (udp_host pkt) (getUint16 (drop (udp_header_len pkt - 2) pkt)) data hdr)) \<and>
    (udp_header_len pkt \<le> length pkt \<longrightarrow> hdr = subslice message 0 (udp_header_len pkt) \<and>
       slice_bytes st data = drop (udp_header_len pkt) pkt \<and> slice_bytes st hdr = take (udp_header_len pkt) pkt)"
proof (cases "udp_accepted pkt \<and> 3 < length pkt")
  case False
  have len: "slen message = length pkt"
    using assms by (simp add: holds_message_def)
  note H = holds_message_facts [OF assms]
  let ?h = "udp_header_len pkt"
  have "handleUdpPacket st message = (if udp_accepted pkt then Panic else Ret Dropped)"
  proof (cases "udp_accepted pkt")
    case True
    then have "length pkt = 3" "slice_at st message 3 = Panic"
      using False H(1) by (simp_all add: udp_accepted_def)
    then show ?thesis
      using True len H(1) [of 0] H(1) [of 1] H(1) [of 2] by (auto simp: handleUdpPacket_def udp_accepted_def)
  next
    case no: False
    show ?thesis
    proof (cases "length pkt < 3")
      case False
      then show ?thesis
        using no len H(1) [of 0] H(1) [of 1] H(1) [of 2] by (cases pkt) (auto simp: handleUdpPacket_def udp_accepted_def)
    qed (simp add: handleUdpPacket_def no len)
  qed
  moreover have "length pkt < ?h" if "udp_accepted pkt"
    using False that by (simp add: udp_header_len_def)
  ultimately show ?thesis
    using H(4) [of ?h "length pkt"] H(4) [of 0 ?h]
    by (intro exI [of _ "subslice message ?h (length pkt)"] exI [of _ "subslice message 0 ?h"]) simp
next
  case True
  note H = holds_message_facts [OF assms]
  let ?h = "udp_header_len pkt"
  have len: "slen message = length pkt" "length pkt \<le> 8192"
    using assms by (simp_all add: holds_message_def)
  obtain addr where addr: "parse_addr st message (pkt ! 3) =
      (if pkt ! 3 = ATypeDomainName \<and> length pkt \<le> 4 then Panic else Ret (addr, ?h - 2))"
    and host: "?h \<le> length pkt \<Longrightarrow> addr = udp_host pkt"
    using parse_addr_eq [OF assms] True by blast
  have h2: "2 \<le> ?h" "?h \<le> 8192" "Suc (Suc (?h - 2)) = ?h"
    using uint_lt2p_nat [of "pkt ! 4"] by (simp_all add: udp_header_len_def)
  have small: "length pkt < ?h" if "pkt ! 3 = ATypeDomainName" "length pkt \<le> 4"
    using that True by (simp add: udp_header_len_def ATypeDomainName_def ATypeIPv4_def)
  have port: "getUint16 (take 2 xs) = getUint16 xs" for xs
    by (cases xs; cases "tl xs") (auto simp: numeral_2_eq_2)
  have run: "handleUdpPacket st message = bind_res (parse_addr st message (pkt ! 3)) (\<lambda>(addr, index).
      bind_res (slice_between message index (index + 2)) (\<lambda>p.
      bind_res (slice_from message (index + 2)) (\<lambda>data.
      bind_res (slice_between message 0 (index + 2)) (\<lambda>originHeader.
      Ret (Request addr (getUint16 (slice_bytes st p)) data originHeader)))))"
    using True len by (auto simp: handleUdpPacket_def udp_accepted_def H)
  show ?thesis
  proof (cases "length pkt < ?h")
    case short: True
    then show ?thesis
      using True h2 by (auto simp: run addr H)
  next
    case False
    then have "handleUdpPacket st message = Ret (Request (udp_host pkt) (getUint16 (drop (?h - 2) pkt))
        (subslice message ?h (length pkt)) (subslice message 0 ?h))"
      using small h2 host port by (auto simp: run addr H not_less)
    then show ?thesis
      using True False h2 H(4) [of ?h "length pkt"] H(4) [of 0 ?h] by auto
  qed
qed


section \<open>Runs of the relay\<close>

text \<open>The datagrams received (\<open>ps\<close>, a history), the rounds and ends of the readers, and the clean-up every 100
  seconds, in any order.\<close>

inductive udp_run :: "udp_env \<Rightarrow> (string \<times> bytes) list \<Rightarrow> udp \<Rightarrow> bool" for env where
  start: "udp_run env [] new_udp"
| packet: "udp_run env ps u \<Longrightarrow> udp_receive env now src pkt u = Some u' \<Longrightarrow> udp_run env (ps @ [(src, pkt)]) u'"
| reply: "udp_run env ps u \<Longrightarrow> rd \<in> set (readers u) \<Longrightarrow> udp_run env ps (remote_round now ok rd b u)"
| finish: "udp_run env ps u \<Longrightarrow> j < length (readers u) \<Longrightarrow> udp_run env ps (remote_end j u)"
| cleanup: "udp_run env ps u \<Longrightarrow> udp_run env ps (SrcUdpMap_timeout now keys u)"

text \<open>The header of a received datagram, as far as it was read.\<close>

definition header_of :: "bytes \<Rightarrow> bytes" where
  "header_of pkt = take (udp_header_len (take 8192 pkt)) (take 8192 pkt)"

definition reader_ok :: "(string \<times> bytes) list \<Rightarrow> store \<Rightarrow> reader \<Rightarrow> bool" where
  "reader_ok ps st rd \<longleftrightarrow> valid_slice st (rd_header rd) \<and>
     (\<exists>pkt. (rd_src rd, pkt) \<in> set ps \<and> udp_accepted (take 8192 pkt) \<and> slice_bytes st (rd_header rd) = header_of pkt)"

definition udp_inv :: "(string \<times> bytes) list \<Rightarrow> udp \<Rightarrow> bool" where
  "udp_inv ps u \<longleftrightarrow> associated u = Map.empty \<and> (\<forall>rd \<in> set (readers u). reader_ok ps (ustore u) rd) \<and>
     distinct (map (\<lambda>rd. saddr (rd_header rd)) (readers u)) \<and> (\<forall>sk \<in> set (socks u). length (u_sent sk) \<le> 1)"

lemma udp_invD:
  assumes "udp_inv ps u"
  shows "associated u = Map.empty" and "rd \<in> set (readers u) \<Longrightarrow> reader_ok ps (ustore u) rd"
    and "distinct (map (\<lambda>rd. saddr (rd_header rd)) (readers u))" and "sk \<in> set (socks u) \<Longrightarrow> length (u_sent sk) \<le> 1"
  using assms by (auto simp: udp_inv_def)

lemma reader_ok_mono:
  assumes "reader_ok ps st rd" and "set ps \<subseteq> set ps'" and "length st \<le> length st'"
    and "st' ! saddr (rd_header rd) = st ! saddr (rd_header rd)"
  shows "reader_ok ps' st' rd"
  using assms by (auto simp: reader_ok_def valid_slice_def slice_bytes_def)

lemma upd_info_frame [simp]:
  "associated (upd_info i f u) = associated u" "socks (upd_info i f u) = socks u" "readers (upd_info i f u) = readers u"
  "ustore (upd_info i f u) = ustore u" "to_clients (upd_info i f u) = to_clients u" "length (infos (upd_info i f u)) = length (infos u)"
  "i < length (infos u) \<Longrightarrow> infos (upd_info i f u) ! i = f (infos u ! i)"
  by (simp_all add: upd_info_def)

lemma usock_Close_sent: "map u_sent (socks (usock_Close c u)) = map u_sent (socks u)"
  by (cases "c < length (socks u)")
    (auto intro!: nth_equalityI simp: usock_Close_def nth_list_update list_update_beyond)

lemma deleteRemoteConn_frame:
  "associated (deleteRemoteConn a i u) = associated u" "readers (deleteRemoteConn a i u) = readers u"
  "ustore (deleteRemoteConn a i u) = ustore u" "to_clients (deleteRemoteConn a i u) = to_clients u"
  "map u_sent (socks (deleteRemoteConn a i u)) = map u_sent (socks u)"
  using usock_Close_sent by (simp_all add: deleteRemoteConn_def usock_Close_def split: option.splits)

lemma udp_forward_new:
  assumes "i < length (infos u)" and "localDestCon (infos u ! i) ua = Some c" and "socks u = ss @ [sk]" and "c = length ss"
    and "u_open sk" and "u_sent sk = []" and v: "v = udp_forward env now ua i msg c u"
  shows "(\<exists>sk'. socks v = ss @ [sk'] \<and>
      (u_sent sk' = [slice_bytes (ustore u) msg] \<and> u_open sk' \<or> u_sent sk' = [] \<and> \<not> u_open sk') \<and> u_raddr sk' = u_raddr sk) \<and>
    associated v = associated u \<and> readers v = readers u \<and> ustore v = ustore u \<and> to_clients v = to_clients u"
proof (cases "write_ok env (u_raddr sk) (slice_bytes (ustore u) msg)")
  case True
  then show ?thesis
    using assms by (simp add: udp_forward_def active_def Let_def)
next
  case False
  then have "v = deleteRemoteConn ua i u"
    using assms by (simp add: udp_forward_def Let_def)
  then show ?thesis
    using assms by (simp add: deleteRemoteConn_frame) (simp add: deleteRemoteConn_def usock_Close_def)
qed

text \<open>As the map is always empty, a request is always handled with a new object and, if it can be dialled,
  with a new socket.\<close>

lemma handleUdpPacket2_new:
  assumes "associated u = Map.empty" and ua: "ua = addr @ '':'' @ FormatUint (unat port)"
    and dest: "dest = (case ResolveUDPAddr env ua of Ret a \<Rightarrow> Some a | _ \<Rightarrow> None)"
    and u'_eq: "u' = handleUdpPacket2 env now src addr port msg hdr u"
  shows "associated u' = Map.empty \<and> ustore u' = ustore u \<and> to_clients u' = to_clients u \<and>
    (case DialUDP env None dest of
       Ret la \<Rightarrow> (\<exists>sk. socks u' = socks u @ [sk] \<and>
           (u_sent sk = [slice_bytes (ustore u) msg] \<and> u_open sk \<or> u_sent sk = [] \<and> \<not> u_open sk) \<and>
           u_raddr sk = (case dest of Some a \<Rightarrow> a | None \<Rightarrow> '''')) \<and>
         readers u' = readers u @ [\<lparr>rd_src = src, rd_sock = length (socks u), rd_header = hdr, rd_key = ua, rd_info = length (infos u)\<rparr>]
     | _ \<Rightarrow> socks u' = socks u \<and> readers u' = readers u)"
proof -
  let ?i = "length (infos u)" let ?c = "length (socks u)"
  define u1 where "u1 = u\<lparr>infos := infos u @ [\<lparr>srcAddr = src, localAddr = None, lastActiveTime = now, localDestCon = Map.empty\<rparr>]\<rparr>"
  have get: "SrcUdpMap_get now src u = (?i, u1)"
    using assms(1) by (simp add: SrcUdpMap_get_def u1_def)
  have info: "infos u1 ! ?i = \<lparr>srcAddr = src, localAddr = None, lastActiveTime = now, localDestCon = Map.empty\<rparr>" "?i < length (infos u1)"
    by (simp_all add: u1_def)
  have run: "u' = (case DialUDP env None dest of
      Ret la \<Rightarrow> udp_forward env now ua ?i msg (length (socks u1))
        (let v = setLocalAddr now la ?i (addRemoteConn ua (length (socks u1)) ?i (u1\<lparr>socks := socks u1 @
           [\<lparr>u_laddr = la, u_raddr = (case dest of Some a \<Rightarrow> a | None \<Rightarrow> ''''), u_sent = [], u_open = True\<rparr>]\<rparr>))
         in v\<lparr>readers := readers v @
           [\<lparr>rd_src = src, rd_sock = length (socks u1), rd_header = hdr, rd_key = ua, rd_info = ?i\<rparr>]\<rparr>)
    | _ \<Rightarrow> u1)"
    unfolding u'_eq handleUdpPacket2_def get Let_def prod.case ua [symmetric] dest [symmetric] getRemoteConn_def info
    by (simp split: res.splits)
  show ?thesis
  proof (cases "DialUDP env None dest")
    case (Ret la)
    let ?sk = "\<lparr>u_laddr = la, u_raddr = (case dest of Some a \<Rightarrow> a | None \<Rightarrow> ''''), u_sent = [], u_open = True\<rparr>"
    let ?rd = "\<lparr>rd_src = src, rd_sock = ?c, rd_header = hdr, rd_key = ua, rd_info = ?i\<rparr>"
    define u2 where "u2 = u1\<lparr>socks := socks u1 @ [?sk]\<rparr>"
    define u3 where "u3 = setLocalAddr now la ?i (addRemoteConn ua ?c ?i u2)"
    define u4 where "u4 = u3\<lparr>readers := readers u3 @ [?rd]\<rparr>"
    have u': "u' = udp_forward env now ua ?i msg ?c u4"
      unfolding run u4_def u3_def u2_def Ret by (simp add: u1_def Let_def)
    have i4: "?i < length (infos u4)" "localDestCon (infos u4 ! ?i) ua = Some ?c"
      using info by (simp_all add: u4_def u3_def u2_def setLocalAddr_def addRemoteConn_def)
    have s4: "socks u4 = socks u @ [?sk]" "associated u4 = Map.empty" "ustore u4 = ustore u" "to_clients u4 = to_clients u"
      "readers u4 = readers u @ [?rd]"
      using assms(1) by (simp_all add: u4_def u3_def u2_def u1_def setLocalAddr_def addRemoteConn_def)
    show ?thesis
      using udp_forward_new [OF i4 s4(1) refl _ _ u'] Ret s4 by simp
  next
    case (Fail e)
    then have "u' = u1"
      by (simp add: run)
    with Fail assms(1) show ?thesis
      by (simp add: u1_def)
  next
    case Panic
    then have "u' = u1"
      by (simp add: run)
    with Panic assms(1) show ?thesis
      by (simp add: u1_def)
  qed
qed


lemma udp_receive_new:
  assumes "associated u = Map.empty" and "udp_receive env now src pkt u = Some u'"
  defines "p \<equiv> take 8192 pkt" and "a \<equiv> length (ustore u)"
  shows "associated u' = Map.empty \<and> to_clients u' = to_clients u \<and>
    ustore u' = ustore u @ [p @ replicate (8192 - length p) 0] \<and>
    (socks u' = socks u \<and> readers u' = readers u \<or>
     (\<exists>sk rd. socks u' = socks u @ [sk] \<and> readers u' = readers u @ [rd] \<and> length (u_sent sk) \<le> 1 \<and> rd_src rd = src \<and>
        udp_accepted p \<and> saddr (rd_header rd) = a \<and> valid_slice (ustore u') (rd_header rd) \<and>
        slice_bytes (ustore u') (rd_header rd) = header_of pkt))"
proof -
  let ?msg = "\<lparr>saddr = a, soff = 0, slen = length p, scap = 8192\<rparr>"
  define v where "v = u\<lparr>ustore := ustore u @ [p @ replicate (8192 - length p) 0]\<rparr>"
  have p: "length p = min (length pkt) 8192"
    by (simp add: p_def)
  have tk: "take (min (length pkt) 8192) pkt = p"
    by (simp add: p_def min_def)
  have h: "holds_message (ustore v) ?msg p"
    by (simp add: holds_message_def v_def a_def p)
  have run: "udp_receive env now src pkt u = (if length p = 0 then Some v
      else (case handleUdpPacket (ustore v) ?msg of
              Ret Dropped \<Rightarrow> Some v
            | Ret (Request addr port payload hdr) \<Rightarrow> Some (handleUdpPacket2 env now src addr port payload hdr v)
            | _ \<Rightarrow> None))"
    unfolding udp_receive_def Let_def tk unfolding p [symmetric] v_def a_def by simp
  obtain data hdr where q: "handleUdpPacket (ustore v) ?msg = (if \<not> udp_accepted p then Ret Dropped
       else if length p < udp_header_len p then Panic
       else Ret (Request (udp_host p) (getUint16 (drop (udp_header_len p - 2) p)) data hdr))"
    and hdr: "udp_header_len p \<le> length p \<Longrightarrow> hdr = subslice ?msg 0 (udp_header_len p) \<and> slice_bytes (ustore v) hdr = take (udp_header_len p) p"
    using handleUdpPacket_eq [OF h] by blast
  have v: "associated v = Map.empty" "to_clients v = to_clients u" "socks v = socks u" "readers v = readers u"
    using assms(1) by (simp_all add: v_def)
  show ?thesis
  proof (cases "length p \<noteq> 0 \<and> udp_accepted p")
    case False
    then have "u' = v"
      using assms(2) run q by (auto split: if_splits)
    then show ?thesis
      using v by (simp add: v_def)
  next
    case True
    then have ok: "udp_header_len p \<le> length p"
      using assms(2) run q by (auto split: if_splits)
    then have "u' = handleUdpPacket2 env now src (udp_host p) (getUint16 (drop (udp_header_len p - 2) p)) data hdr v"
      using assms(2) run q True by simp
    note n = handleUdpPacket2_new [OF v(1) refl refl this]
    have valid: "valid_slice (ustore v) hdr" "slice_bytes (ustore v) hdr = header_of pkt" "saddr hdr = a"
      using hdr [OF ok] valid_subslice [OF holds_message_facts(5) [OF h], of 0 "udp_header_len p"] ok
      by (auto simp: header_of_def p_def subslice_def)
    have st: "ustore v = ustore u @ [p @ replicate (8192 - length p) 0]"
      by (simp add: v_def)
    show ?thesis
      using n v valid True st by (auto split: res.splits)
  qed
qed

lemma udp_inv_receive:
  assumes "udp_inv ps u" and "udp_receive env now src pkt u = Some u'"
  shows "udp_inv (ps @ [(src, pkt)]) u'"
proof -
  note r = udp_receive_new [OF udp_invD(1) [OF assms(1)] assms(2)]
  have old: "reader_ok (ps @ [(src, pkt)]) (ustore u') rd" "saddr (rd_header rd) < length (ustore u)" if "rd \<in> set (readers u)" for rd
  proof -
    have ok: "reader_ok ps (ustore u) rd"
      using udp_invD(2) [OF assms(1) that] .
    then show lt: "saddr (rd_header rd) < length (ustore u)"
      by (simp add: reader_ok_def valid_slice_def)
    show "reader_ok (ps @ [(src, pkt)]) (ustore u') rd"
      by (rule reader_ok_mono [OF ok]) (use r lt in \<open>auto simp: nth_append\<close>)
  qed
  from r consider "socks u' = socks u" "readers u' = readers u" | sk rd where "socks u' = socks u @ [sk]" "readers u' = readers u @ [rd]"
    "length (u_sent sk) \<le> 1" "rd_src rd = src" "udp_accepted (take 8192 pkt)" "saddr (rd_header rd) = length (ustore u)"
    "valid_slice (ustore u') (rd_header rd)" "slice_bytes (ustore u') (rd_header rd) = header_of pkt"
    by blast
  then show ?thesis
  proof cases
    case 1
    then show ?thesis
      using r old udp_invD(3,4) [OF assms(1)] by (auto simp: udp_inv_def)
  next
    case (2 sk rd)
    have "reader_ok (ps @ [(src, pkt)]) (ustore u') rd"
      using 2 by (auto simp: reader_ok_def)
    moreover have "saddr (rd_header rd) \<notin> (\<lambda>rd. saddr (rd_header rd)) ` set (readers u)"
      using old(2) 2(6) by fastforce
    ultimately show ?thesis
      using r old 2 udp_invD(3,4) [OF assms(1)] by (auto simp: udp_inv_def)
  qed
qed

lemma remote_round_run:
  assumes "slice_append (ustore u) (rd_header rd) b = (st, buf)"
  shows "associated (remote_round now ok rd b u) = associated u" "readers (remote_round now ok rd b u) = readers u"
    "socks (remote_round now ok rd b u) = socks u" "ustore (remote_round now ok rd b u) = st"
    "to_clients (remote_round now ok rd b u) = to_clients u @ (if ok then [(rd_src rd, slice_bytes st buf)] else [])"
  using assms by (simp_all add: remote_round_def active_def Let_def split: prod.splits)

lemma slice_append_grows: "slice_append st s bs = (st', s') \<Longrightarrow> length st \<le> length st'"
  by (auto simp: slice_append_def new_slice_def split: if_splits)

lemma udp_inv_round:
  assumes "udp_inv ps u" and "rd \<in> set (readers u)"
  shows "udp_inv ps (remote_round now ok rd b u)"
proof -
  obtain st buf where app: "slice_append (ustore u) (rd_header rd) b = (st, buf)"
    by (rule prod.exhaust)
  note R = remote_round_run [OF app, of now ok]
  have "reader_ok ps st rd'" if "rd' \<in> set (readers u)" for rd'
  proof (cases "rd' = rd")
    case True
    then show ?thesis
      using udp_invD(2) [OF assms] slice_append_keeps [OF _ app] by (auto simp: reader_ok_def)
  next
    case False
    have ok': "reader_ok ps (ustore u) rd'"
      using udp_invD(2) [OF assms(1) that] .
    have "saddr (rd_header rd') \<noteq> saddr (rd_header rd)" "saddr (rd_header rd') < length (ustore u)"
      using False udp_invD(3) [OF assms(1)] assms(2) that ok' by (auto simp: distinct_map inj_on_def reader_ok_def valid_slice_def)
    then show ?thesis
      using slice_append_other [OF app] slice_append_grows [OF app] by (intro reader_ok_mono [OF ok']) auto
  qed
  then show ?thesis
    using udp_invD(1,3,4) [OF assms(1)] by (simp add: udp_inv_def R)
qed

lemma distinct_map_remove:
  assumes "distinct (map f xs)"
  shows "distinct (map f (take j xs @ drop (Suc j) xs))"
proof (cases "j < length xs")
  case True
  then have "distinct (map f (take j xs @ xs ! j # drop (Suc j) xs))"
    using assms id_take_nth_drop [OF True] by metis
  then show ?thesis
    by auto
qed (use assms in simp)

lemma udp_inv_end:
  assumes "udp_inv ps u"
  shows "udp_inv ps (remote_end j u)"
proof -
  let ?u = "u\<lparr>readers := take j (readers u) @ drop (Suc j) (readers u)\<rparr>"
  have sub: "set (take j (readers u) @ drop (Suc j) (readers u)) \<subseteq> set (readers u)"
    by (auto dest: in_set_takeD in_set_dropD)
  have "distinct (map (\<lambda>rd. saddr (rd_header rd)) (take j (readers u) @ drop (Suc j) (readers u)))"
    by (rule distinct_map_remove [OF udp_invD(3) [OF assms]])
  moreover have "\<forall>sk \<in> set (socks (remote_end j u)). length (u_sent sk) \<le> 1"
  proof -
    have "map u_sent (socks (remote_end j u)) = map u_sent (socks u)"
      by (simp add: remote_end_def Let_def deleteRemoteConn_frame)
    then have "u_sent ` set (socks (remote_end j u)) = u_sent ` set (socks u)"
      by (metis set_map)
    then show ?thesis
      using udp_invD(4) [OF assms] by (metis (no_types, opaque_lifting) image_iff)
  qed
  ultimately show ?thesis
    using udp_invD(1,2) [OF assms] sub
    by (auto simp: udp_inv_def remote_end_def Let_def deleteRemoteConn_frame)
qed

lemma SrcUdpMap_timeout_empty: "associated u = Map.empty \<Longrightarrow> SrcUdpMap_timeout now keys u = u"
  by (induction keys) (simp_all add: SrcUdpMap_timeout_def)

lemma udp_run_inv: "udp_run env ps u \<Longrightarrow> udp_inv ps u"
proof (induction rule: udp_run.induct)
  case start
  then show ?case
    by (simp add: udp_inv_def new_udp_def)
next
  case (cleanup ps u now keys)
  then show ?case
    using SrcUdpMap_timeout_empty [OF udp_invD(1)] by simp
qed (auto intro: udp_inv_receive udp_inv_round udp_inv_end)


section \<open>Properties\<close>

text \<open>The SOCKS5 UDP header (RFC 1928) for a destination.\<close>

datatype udp_dst = D4 bytes | D6 bytes | DName string

fun udp_encode :: "byte \<Rightarrow> byte \<Rightarrow> udp_dst \<Rightarrow> 16 word \<Rightarrow> bytes" where
  "udp_encode r0 r1 (D4 ip) port = [r0, r1, 0, ATypeIPv4] @ ip @ putUint16 port"
| "udp_encode r0 r1 (D6 ip) port = [r0, r1, 0, ATypeIPv6] @ ip @ putUint16 port"
| "udp_encode r0 r1 (DName s) port = [r0, r1, 0, ATypeDomainName, of_nat (length s)] @ bytes_of s @ putUint16 port"

fun wf_dst :: "udp_dst \<Rightarrow> bool" where
  "wf_dst (D4 ip) = (length ip = 4)"
| "wf_dst (D6 ip) = (length ip = 16)"
| "wf_dst (DName s) = (length s < 256)"

fun dst_text :: "udp_dst \<Rightarrow> string" where
  "dst_text (D4 ip) = IP_String ip"
| "dst_text (D6 ip) = IP_String ip"
| "dst_text (DName s) = s"

lemma udp_encode_facts:
  assumes "wf_dst d" and "pkt = udp_encode r0 r1 d port @ payload"
  shows "udp_header_len pkt = length (udp_encode r0 r1 d port)" and "udp_host pkt = dst_text d"
    and "getUint16 (drop (udp_header_len pkt - 2) pkt) = port" and "3 < length pkt" and "pkt ! 0 = r0" "pkt ! 1 = r1" "pkt ! 2 = 0"
proof -
  have types: "ATypeDomainName \<noteq> ATypeIPv4" "ATypeIPv6 \<noteq> ATypeIPv4" "ATypeIPv6 \<noteq> ATypeDomainName"
    by (simp_all add: ATypeDomainName_def ATypeIPv4_def ATypeIPv6_def)
  show len: "udp_header_len pkt = length (udp_encode r0 r1 d port)"
    using assms types by (cases d) (auto simp: udp_header_len_def unat_of_nat_small)
  show "udp_host pkt = dst_text d"
    using assms types by (cases d) (auto simp: udp_host_def unat_of_nat_small)
  have "drop (length (udp_encode r0 r1 d port) - 2) pkt = putUint16 port @ payload"
    using assms by (cases d) simp_all
  then show "getUint16 (drop (udp_header_len pkt - 2) pkt) = port"
    by (simp add: len)
  show "3 < length pkt" and "pkt ! 0 = r0" "pkt ! 1 = r1" "pkt ! 2 = 0"
    using assms by (cases d; simp)+
qed

text \<open>C29. A well-formed datagram is understood as its client meant it: the destination, the port, the payload and
  the header are recovered exactly, for IPv4, IPv6 and domain name destinations. Of the two
  reserved bytes one may be anything, since the code refuses a datagram only if both are non-zero.\<close>

theorem udp_packet_roundtrip:
  assumes "wf_dst d" and "r0 = 0 \<or> r1 = 0" and "pkt = udp_encode r0 r1 d port @ payload" and "holds_message st message pkt"
  shows "\<exists>data hdr. handleUdpPacket st message = Ret (Request (dst_text d) port data hdr) \<and>
    slice_bytes st data = payload \<and> slice_bytes st hdr = udp_encode r0 r1 d port"
proof -
  note E = udp_encode_facts [OF assms(1,3)]
  have "udp_accepted pkt" "udp_header_len pkt \<le> length pkt"
    using E assms(2,3) by (simp_all add: udp_accepted_def)
  then show ?thesis
    using handleUdpPacket_eq [OF assms(4)] E assms(3) by auto
qed

theorem udp_packet_roundtrip_witness:
  "\<exists>data hdr. handleUdpPacket [udp_encode 0 0 (DName ''a.b'') 53 @ [1, 2, 3] @ replicate 8179 0]
     \<lparr>saddr = 0, soff = 0, slen = 13, scap = 8192\<rparr> = Ret (Request ''a.b'' 53 data hdr)"
proof -
  have "holds_message [udp_encode 0 0 (DName ''a.b'') 53 @ [1, 2, 3] @ replicate 8179 0] \<lparr>saddr = 0, soff = 0, slen = 13, scap = 8192\<rparr>
    (udp_encode 0 0 (DName ''a.b'') 53 @ [1, 2, 3])"
    by (simp add: holds_message_def)
  from udp_packet_roundtrip [OF _ _ refl this] show ?thesis
    by auto
qed

text \<open>A datagram that ends inside its own header brings the process down: once the reserved bytes and the
  fragment number are accepted, \<^verbatim>\<open>handleUdpPacket\<close> panics exactly when the datagram is shorter than
  the header it announces; three zero bytes are enough. No other datagram makes it panic.\<close>

theorem udp_truncated_panics:
  assumes "holds_message st message pkt"
  shows "handleUdpPacket st message = Panic \<longleftrightarrow> udp_accepted pkt \<and> length pkt < udp_header_len pkt"
  using handleUdpPacket_eq [OF assms] by (auto split: if_splits)

theorem udp_truncated_panics_witness:
  "\<forall>env now src. udp_receive env now src [0, 0, 0] new_udp = None"
proof -
  have "holds_message [[0, 0, 0] @ replicate 8189 0] \<lparr>saddr = 0, soff = 0, slen = 3, scap = 8192\<rparr> [0, 0, 0]"
    by (simp add: holds_message_def)
  from udp_truncated_panics [OF this]
  have "handleUdpPacket [[0, 0, 0] @ replicate 8189 0] \<lparr>saddr = 0, soff = 0, slen = 3, scap = 8192\<rparr> = Panic"
    by (simp add: udp_accepted_def udp_header_len_def)
  then show ?thesis
    by (simp add: udp_receive_def new_udp_def Let_def numeral_3_eq_3)
qed

text \<open>C30. Replies carry the right header. In every run, whatever the other goroutines have done to
  their buffers in between, a datagram \<open>b\<close> of a target is sent to the client of its request, preceded by
  exactly the header of one datagram that this client sent, although \<^verbatim>\<open>append\<close> writes the reply into the
  array that the header lies in.\<close>

theorem udp_replies_framed:
  assumes "udp_run env ps u" and "rd \<in> set (readers u)"
  shows "\<exists>pkt. (rd_src rd, pkt) \<in> set ps \<and> udp_accepted (take 8192 pkt) \<and>
    to_clients (remote_round now True rd b u) = to_clients u @ [(rd_src rd, header_of pkt @ b)]"
proof -
  obtain st buf where app: "slice_append (ustore u) (rd_header rd) b = (st, buf)"
    by (rule prod.exhaust)
  have ok: "reader_ok ps (ustore u) rd"
    by (rule udp_invD(2) [OF udp_run_inv [OF assms(1)] assms(2)])
  then have "valid_slice (ustore u) (rd_header rd)"
    by (simp add: reader_ok_def)
  then show ?thesis
    using ok slice_bytes_append [OF _ app] remote_round_run(5) [OF app, of now True] by (auto simp: reader_ok_def)
qed

text \<open>No association is ever kept. In every run the table of clients is empty and every socket has carried at
  most one datagram: two datagrams of one client to the same target leave from two
  sockets, and the periodic clean-up never finds anything to close.\<close>

theorem udp_never_associates:
  assumes "udp_run env ps u"
  shows "associated u = Map.empty \<and> (\<forall>sk \<in> set (socks u). length (u_sent sk) \<le> 1) \<and> SrcUdpMap_timeout now keys u = u"
  using udp_invD(1,4) [OF udp_run_inv [OF assms]] SrcUdpMap_timeout_empty by blast


definition example_udp_env :: udp_env where
  "example_udp_env = \<lparr>ResolveUDPAddr = (\<lambda>a. if a = ''a.b:53'' then Ret ''10.0.0.1:53'' else Fail (NetErr ''lookup'')),
     DialUDP = (\<lambda>l r. case r of Some _ \<Rightarrow> Ret ''10.0.0.9:4000'' | None \<Rightarrow> Fail (NetErr ''missing address'')),
     write_ok = (\<lambda>_ _. True)\<rparr>"

text \<open>One datagram to \<open>a.b:53\<close> is relayed.\<close>

lemma example_udp_run:
  obtains u rd where "udp_run example_udp_env [(''c'', udp_encode 0 0 (DName ''a.b'') 53 @ [7])] u" and "readers u = [rd]"
    and "rd_src rd = ''c''" and "to_clients u = []"
    and "\<exists>sk. socks u = [sk] \<and> u_sent sk = [[7]] \<and> u_raddr sk = ''10.0.0.1:53''"
proof -
  let ?pkt = "udp_encode 0 0 (DName ''a.b'') 53 @ [7]"
  let ?msg = "\<lparr>saddr = 0, soff = 0, slen = 11, scap = 8192\<rparr>" let ?st = "[?pkt @ replicate 8181 0]"
  have h: "holds_message ?st ?msg ?pkt"
    by (simp add: holds_message_def)
  have acc: "udp_accepted ?pkt" "udp_header_len ?pkt = 10" "udp_host ?pkt = ''a.b''" "getUint16 (drop 8 ?pkt) = 53"
    using udp_encode_facts [of "DName ''a.b''" ?pkt 0 0 53 "[7]"] by (simp_all add: udp_accepted_def)
  have len: "length ?pkt = 11"
    by simp
  from handleUdpPacket_eq [OF h] acc len obtain data hdr where
    q: "handleUdpPacket ?st ?msg = Ret (Request ''a.b'' 53 data hdr)" and data: "slice_bytes ?st data = [7]"
    by auto
  define v where "v = new_udp\<lparr>ustore := ?st\<rparr>"
  define u where "u = handleUdpPacket2 example_udp_env 0 ''c'' ''a.b'' 53 data hdr v"
  have "udp_receive example_udp_env 0 ''c'' ?pkt new_udp = Some u"
  proof -
    have "min (length ?pkt) 8192 = 11" "take 11 ?pkt = ?pkt" "ustore new_udp = []"
      by (simp_all add: new_udp_def)
    then show ?thesis
      using q unfolding udp_receive_def Let_def by (simp add: u_def v_def)
  qed
  from udp_run.packet [OF udp_run.start this] have run: "udp_run example_udp_env [(''c'', ?pkt)] u"
    by simp
  have v: "associated v = Map.empty" "socks v = []" "readers v = []" "to_clients v = []" "ustore v = ?st"
    by (simp_all add: v_def new_udp_def)
  have ua: "''a.b'' @ '':'' @ FormatUint (unat (53 :: 16 word)) = ''a.b:53''"
    by code_simp
  have "\<exists>rd. readers u = [rd] \<and> rd_src rd = ''c'' \<and> to_clients u = [] \<and>
      (\<exists>sk. socks u = [sk] \<and> (u_sent sk = [[7]] \<and> u_open sk \<or> u_sent sk = [] \<and> \<not> u_open sk) \<and> u_raddr sk = ''10.0.0.1:53'')"
    using handleUdpPacket2_new [OF v(1) ua [symmetric] refl u_def] v data by (auto simp: example_udp_env_def)
  moreover have "sk \<in> set (socks u) \<Longrightarrow> u_sent sk \<noteq> []" for sk
    unfolding u_def using v ua
    by (auto simp: handleUdpPacket2_def SrcUdpMap_get_def getRemoteConn_def example_udp_env_def udp_forward_def active_def
        addRemoteConn_def setLocalAddr_def Let_def)
  ultimately show thesis
    using that [OF run] by force
qed

theorem udp_replies_framed_witness:
  "\<exists>u rd. udp_run example_udp_env [(''c'', udp_encode 0 0 (DName ''a.b'') 53 @ [7])] u \<and>
     to_clients (remote_round 0 True rd [8, 9] u) = [(''c'', udp_encode 0 0 (DName ''a.b'') 53 @ [8, 9])]"
proof -
  obtain u rd where r: "udp_run example_udp_env [(''c'', udp_encode 0 0 (DName ''a.b'') 53 @ [7])] u" "readers u = [rd]"
    "rd_src rd = ''c''" "to_clients u = []"
    by (rule example_udp_run)
  have "header_of (udp_encode 0 0 (DName ''a.b'') 53 @ [7]) = udp_encode 0 0 (DName ''a.b'') 53"
    using udp_encode_facts(1) [of "DName ''a.b''" _ 0 0 53 "[7]", OF _ refl] by (simp add: header_of_def)
  then show ?thesis
    using udp_replies_framed [OF r(1), of rd 0 "[8, 9]"] r by auto
qed

theorem udp_never_associates_witness:
  "\<exists>u sk. udp_run example_udp_env [(''c'', udp_encode 0 0 (DName ''a.b'') 53 @ [7])] u \<and> associated u ''c'' = None \<and>
     socks u = [sk] \<and> u_sent sk = [[7]]"
proof -
  obtain u where r: "udp_run example_udp_env [(''c'', udp_encode 0 0 (DName ''a.b'') 53 @ [7])] u"
    "\<exists>sk. socks u = [sk] \<and> u_sent sk = [[7]] \<and> u_raddr sk = ''10.0.0.1:53''"
    by (rule example_udp_run)
  then show ?thesis
    using udp_never_associates [OF r(1), of 0 "[]"] by auto
qed

text \<open>The text of an IPv6 address has a colon and no bracket.\<close>

lemma hex_char_ok:
  assumes "(d :: nat) < 16"
  shows "(if d < 10 then char_of (48 + d) else char_of (87 + d)) \<noteq> CHR ''[''"
proof
  assume "(if d < 10 then char_of (48 + d) else char_of (87 + d)) = CHR ''[''"
  then have "of_char (if d < 10 then char_of (48 + d) else char_of (87 + d)) = (of_char (CHR ''['') :: nat)"
    by simp
  then show False
    using assms by (simp split: if_splits)
qed

lemma hex_chars_ok: "CHR ''['' \<notin> set (hex_chars n)"
proof (induction n rule: hex_chars.induct)
  case (1 n)
  then show ?case
    using hex_char_ok [of "n mod 16"] by (subst hex_chars.simps) (auto simp: Let_def)
qed

lemma v6_groups_ok: "CHR ''['' \<notin> set (v6_groups gs)"
  by (induction gs rule: v6_groups.induct) (simp_all add: hex_chars_ok)

lemma v6_groups_colon: "2 \<le> length gs \<Longrightarrow> CHR '':'' \<in> set (v6_groups gs)"
  by (induction gs rule: v6_groups.induct) simp_all

lemma v6_String_chars: "CHR '':'' \<in> set (v6_String ip)" "CHR ''['' \<notin> set (v6_String ip)"
proof -
  define gs where "gs = map (\<lambda>i. 256 * unat (ip ! (2 * i)) + unat (ip ! (2 * i + 1))) [0..<8]"
  obtain e l where "longest_run gs = (e, l)"
    by (rule prod.exhaust)
  then have "v6_String ip = (if l \<le> 1 then v6_groups gs else v6_groups (take e gs) @ ''::'' @ v6_groups (drop (e + l) gs))"
    by (simp add: v6_String_def Let_def gs_def)
  then show "CHR '':'' \<in> set (v6_String ip)" "CHR ''['' \<notin> set (v6_String ip)"
    by (simp_all add: v6_groups_ok v6_groups_colon gs_def)
qed

lemma SplitHostPort_v6:
  "net_SplitHostPort (v6_String ip @ '':'' @ FormatUint n) = addrErr ''too many colons in address''"
proof -
  have "CHR '':'' \<notin> set (FormatUint n)"
    by (simp add: FormatUint_not_in not_digit)
  from LastIndexByte_app [OF this, of "v6_String ip"] show ?thesis
    using v6_String_chars [of ip] by (cases "v6_String ip") (auto simp: net_SplitHostPort_def)
qed

text \<open>IPv6 destinations are never reached: the address text and the port are joined without brackets, so that
  the name is refused (as \<^verbatim>\<open>net.SplitHostPort\<close> refuses it), its error is dropped, and dialling a nil
  address fails. The datagram is lost and no socket is opened.\<close>

theorem udp_ipv6_never_dialled:
  assumes "associated u = Map.empty" and "length ip = 16" and "To4 ip = []"
    and "\<forall>a e. net_SplitHostPort a = Fail e \<longrightarrow> (\<exists>e'. ResolveUDPAddr env a = Fail e')"
    and "\<forall>l. \<exists>e. DialUDP env l None = Fail e"
  shows "socks (handleUdpPacket2 env now src (dst_text (D6 ip)) port msg hdr u) = socks u \<and>
    readers (handleUdpPacket2 env now src (dst_text (D6 ip)) port msg hdr u) = readers u"
proof -
  have "dst_text (D6 ip) = v6_String ip"
    using assms(2,3) by (auto simp: IP_String_def)
  then have "net_SplitHostPort (dst_text (D6 ip) @ '':'' @ FormatUint (unat port)) = Fail (NetErr ''too many colons in address'')"
    using SplitHostPort_v6 [of ip "unat port"] by (simp add: addrErr_def)
  then obtain e' where "ResolveUDPAddr env (dst_text (D6 ip) @ '':'' @ FormatUint (unat port)) = Fail e'"
    using assms(4) by blast
  moreover obtain e where "DialUDP env None None = Fail e"
    using assms(5) by blast
  ultimately show ?thesis
    using handleUdpPacket2_new [OF assms(1) refl refl refl, where addr = "dst_text (D6 ip)" and env = env and port = port] by simp
qed

theorem udp_ipv6_never_dialled_witness:
  "socks (handleUdpPacket2 (example_udp_env\<lparr>ResolveUDPAddr := \<lambda>a. case net_SplitHostPort a of Fail e \<Rightarrow> Fail e | _ \<Rightarrow> Ret a\<rparr>) 0 ''c''
     (dst_text (D6 (0x20 # 1 # replicate 14 0))) 53 \<lparr>saddr = 0, soff = 0, slen = 0, scap = 0\<rparr>
     \<lparr>saddr = 0, soff = 0, slen = 0, scap = 0\<rparr> new_udp) = []"
proof -
  let ?env = "example_udp_env\<lparr>ResolveUDPAddr := \<lambda>a. case net_SplitHostPort a of Fail e \<Rightarrow> Fail e | _ \<Rightarrow> Ret a\<rparr>"
  have "\<forall>l. \<exists>e. DialUDP ?env l None = Fail e" "\<forall>a e. net_SplitHostPort a = Fail e \<longrightarrow> (\<exists>e'. ResolveUDPAddr ?env a = Fail e')"
    by (simp_all add: example_udp_env_def)
  moreover have "length (0x20 # 1 # replicate 14 0 :: bytes) = 16" "To4 (0x20 # 1 # replicate 14 0) = []"
    by (simp_all add: To4_def v4InV6Prefix_def numeral_eq_Suc)
  ultimately show ?thesis
    using udp_ipv6_never_dialled [of new_udp "0x20 # 1 # replicate 14 0" ?env] by (simp add: new_udp_def)
qed

end
