(* ===== verification/Spec2Isabelle.thy ===== *)
theory Spec2Isabelle
  imports Api Buf_Conn Buf_Pool Cmd_Init Half_System Udp
begin

text \<open>
  LightSocks is a proxy in two halves. The local half (\<^verbatim>\<open>lightsocks client\<close>, or \<^verbatim>\<open>lightsocks\<close> alone, which dials the targets
  itself) accepts SOCKS4, SOCKS5 and HTTP clients on one port; the remote half (\<^verbatim>\<open>lightsocks server\<close>) accepts encrypted connections of
  local halves. Both put a \<^verbatim>\<open>TCPContext\<close> for every accepted request on a queue; the tunnel takes it from there,
  dials the target (or, in client mode, the server), announces the target to the server in a packet, and
  relays the two byte streams. A packet is a 6-byte header and a body that is compressed by snappy and
  encrypted by a rotating XOR cipher with the shared token. This library models the Go sources under
  \<^verbatim>\<open>src/cmd\<close> and \<^verbatim>\<open>src/internal\<close> and states what they do, mistakes included.

  \<^bold>\<open>How Go is modelled.\<close>
  \<^item> \<open>Prelude\<close>: a Go call ends with a value, a non-nil error or a panic (\<open>'a res\<close>); counted loops are
    \<open>for_range\<close> and \<open>for_step\<close>; bytes are 8-bit words.
  \<^item> \<open>Go_Slices\<close>: where aliasing is visible (cipher, \<^verbatim>\<open>UnPack\<close>), byte slices are windows of arrays in an explicit
    store, and \<^verbatim>\<open>append\<close> writes in place within the capacity.
  \<^item> \<open>Go_IO\<close>: a connection is a record \<open>conn\<close> with the segments its coming reads deliver, what follows them (end of
    file, an error, or silence) and the bytes written so far. An operation is a function
    from a state to an optional outcome, in the monad \<open>io\<close>; \<open>None\<close> means that the call never returns. Loops that may
    not end are \<open>partial_function (option)\<close>, so there is no fuel anywhere: that a loop ends is proved as \<open>Some\<close>,
    and that it hangs as \<open>None\<close>. The segmentation is arbitrary in every theorem that does not fix it. Hoare triples
    (\<open>triple\<close>, \<open>keeps\<close>, \<open>stable\<close>, collection \<open>triples\<close>) carry invariants through the handlers.
  \<^item> \<open>Go_Strings\<close>, \<open>Go_Net\<close>: the functions of \<^verbatim>\<open>strings\<close>, \<^verbatim>\<open>strconv\<close> and \<^verbatim>\<open>net\<close> (address syntax, CIDR blocks) that the sources
    use, with the facts about splitting, joining and numerals the components need.
  \<^item> Goroutines that share state are step relations, with the invariants by rule induction over every interleaving.

  \<^bold>\<open>The components.\<close>
  \<^item> \<open>Cipher\<close> (\<^verbatim>\<open>cipher/encryption.go\<close>): \<open>Encrypt\<close> and \<open>Decrypt\<close> as the code loops over slices; they compute the byte-wise
    \<open>rot_enc\<close> and \<open>rot_dec\<close>, are inverse to each other, write only into the padding area of the caller's
    array (\<open>Encrypt\<close>), and panic on an empty key.
  \<^item> \<open>Compress\<close> (\<^verbatim>\<open>compress/snappy.go\<close>) and \<open>Protocol\<close> (\<^verbatim>\<open>protocol/proto.go\<close>): \<open>Encode\<close>, \<open>UnPack\<close> and \<open>protocol_ReadFull\<close>. The
    cipher reaches the protocol through the locale \<open>body_cipher\<close>, interpreted as \<open>rot\<close>. Round trip under every segmentation,
    refusal of large frames, truncated streams, and what \<open>UnPack\<close> does to the bytes behind a packet.
  \<^item> \<open>Secure_TCP\<close> (\<^verbatim>\<open>net/securetcp.go\<close>, the loops of \<^verbatim>\<open>net/relay.go\<close>): \<open>EncodeWrite\<close>, \<open>EncodeCopy\<close>, \<open>decode_loop\<close> and \<open>io_Copy\<close>;
    encoding at one end and decoding at the other is the identity on the byte stream.
  \<^item> \<open>Relay\<close> (\<^verbatim>\<open>net/relay.go\<close>): the two goroutines of a relay, one call per step (\<open>pump_step\<close>), interleaved with each other and with a
    \<^verbatim>\<open>Close\<close> of the API (\<open>relay_step\<close>), and the read deadline by which one ends the other. The locales \<open>pump_frame\<close> and
    \<open>pump\<close> state what a reading and a writing function must promise, \<open>relay_frame\<close>, \<open>relay_up\<close> and \<open>relay_down\<close> what follows for two
    of them; they are interpreted for copying, encoding and decoding (\<open>copy\<close>, \<open>encode\<close>, \<open>decode\<close>, \<open>direct\<close>,
    \<open>forward\<close>). Every run ends, both sides wind up once one has ended, what is delivered is a prefix of what was sent, and
    the loops of \<open>Secure_TCP\<close> are runs of the pumps; a half-closed client loses the rest of its reply.
  \<^item> \<open>Buf_Pool\<close> (\<^verbatim>\<open>net/securetcp.go\<close>): the pool of buffers, and \<open>EncodeCopy\<close> on a buffer with the bytes of earlier connections,
    which refines the loop of \<open>Secure_TCP\<close>. \<open>Buf_Conn\<close> (\<^verbatim>\<open>net/bufconn.go\<close>): \<^verbatim>\<open>BufferedConn\<close> over a model of \<^verbatim>\<open>bufio.Reader\<close>; it
    refines the plain connection (\<open>unbuffer\<close>) on which the front ends are modelled.
  \<^item> \<open>Cache\<close> (\<^verbatim>\<open>cache/lrucache.go\<close>): list, index and heap of shared entries. The invariant holds in every reachable
    cache; the locale \<open>keyed_cache\<close> states what a client of a cache may rely on (a hit is the value stored last) and is
    interpreted as \<open>lru\<close>; eviction takes the least recently used entry; \<open>CloneTo\<close> shares entries.
  \<^item> \<open>Conf\<close> (\<^verbatim>\<open>conf/config.go\<close>), \<open>Auth\<close> (\<^verbatim>\<open>auth/ip.go\<close>, \<^verbatim>\<open>auth/user.go\<close>) and \<open>Cmd\<close> (\<^verbatim>\<open>cmd/lightsocks.go\<close>): loading and reloading,
    the white list against a bit-prefix specification, the user check, and the mode each command runs in.
  \<^item> \<open>Constant\<close> (\<^verbatim>\<open>constant/\<close>): metadata and contexts, and \<open>session\<close>, a \<open>conn\<close> extended by the wait group, the queue
    of contexts and the remote address, on which the front ends work.
  \<^item> \<open>Proxy_Interface\<close> (\<^verbatim>\<open>mixed/interface.go\<close>): the locale \<open>proxy_handler\<close> is the contract of a front end's \<^verbatim>\<open>Handle\<close>: at most
    one context, of its own types, for its own connection, and only for an authorised client. \<open>Socks5\<close> (\<open>s5\<close>), \<open>Socks4\<close>
    (\<open>s4\<close>) and \<open>Http\<close> (\<open>ht\<close>) model the three \<^verbatim>\<open>tcp.go\<close> files and interpret it; each also has the behaviour on well-formed
    requests and the panics and hangs on malformed or fragmented ones.
  \<^item> \<open>Mixed\<close> (\<^verbatim>\<open>mixed/mixed.go\<close>, \<^verbatim>\<open>BufferedConn.Peek\<close>): the dispatch on the first byte satisfies the contract again (\<open>px\<close>), which
    gives access control for the whole listener. \<open>Server\<close> (\<^verbatim>\<open>server/tcp.go\<close>): the remote listener and its
    accounting. \<open>Accept\<close>: the endless accept loops of both and \<^verbatim>\<open>ListenAndServe\<close>, behind the PROXY headers of
    go-proxyproto, which let every client choose its address for the white list.
  \<^item> \<open>Tunnel\<close> (\<^verbatim>\<open>tunnel/tunnel.go\<close>): \<open>handleTCPConn\<close>, the whole function up to the start of the relay with its deferred calls.
    \<open>Workers\<close>: the pool of workers that take the contexts from the queue; each context is handled once, in order.
    \<open>Tunnel_Relay\<close>: the relay that \<open>handleTCPConn\<close> ends in, on the connections it leaves behind, with the tracker around \<^verbatim>\<open>Dest\<close>
    (\<open>tracked_step\<close>; locale \<open>plain_dest\<close> with the interpretations \<open>tracked_direct\<close> and \<open>tracked_forward\<close>). Here the front end, tunnel and relay
    of one request are put together, in direct mode (\<open>direct_session_delivers\<close>) and across the server (\<open>request_path\<close>).
  \<^item> \<open>Half_System\<close>: each half as one step relation (\<open>half_step\<close>): the accept loop, a handler for each connection, the shared
    queue, the workers, the tunnels and relays, and the wait group. The locale \<open>half_listener\<close> is what it needs of the listener's
    \<^verbatim>\<open>handle\<close>; the interpretations \<open>lhalf\<close> and \<open>rhalf\<close> give both halves. The invariant \<open>half_ok\<close> keeps every context at the
    connection it came from; in the local half a dropped connection blocks every later graceful shut-down.
  \<^item> \<open>Picker\<close> (\<^verbatim>\<open>picker/picker.go\<close>) and \<open>Statistic\<close> (\<^verbatim>\<open>statistic/\<close>): first success of a group of goroutines, and the contexts of a group; exact
    totals and inexact rates of the traffic counters.
  \<^item> \<open>Resolver\<close> (\<^verbatim>\<open>resolver/resolver.go\<close>): the entry points of name resolution over an implementation given as a record of
    its methods; the locale \<open>ip_resolver\<close> is what the entry points rely on. \<open>Dns_Message\<close> (\<^verbatim>\<open>dns/util.go\<close>,
    \<^verbatim>\<open>dns/client.go\<close>): single messages, one exchange, and the exchange with all name servers through \<open>Picker\<close>.
    \<open>Dns\<close> (\<^verbatim>\<open>dns/resolver.go\<close>): the caching resolver over \<open>Cache\<close>, with its messages in a heap; it interprets
    \<open>ip_resolver\<close> as \<open>dr\<close>. The step relation \<open>dns_step\<close> interleaves queries, single flights and refreshes of stale
    entries; every answer comes from a name server that was asked this question, and its times to live are bounded.
  \<^item> \<open>Udp\<close> (\<^verbatim>\<open>udp/udp.go\<close>): the datagrams of SOCKS5 on slices of a store, the association map, and the runs of the
    listener and its readers. The header comes back in front of every reply; truncated datagrams panic, and no
    association is ever kept.
  \<^item> \<open>Api\<close> (\<^verbatim>\<open>api/\<close>): authentication, routes and handlers over \<open>Statistic\<close>, \<open>Dns\<close> and the configuration. Nothing behind
    the secret is reached without it, and closing a connection touches exactly this one.
    \<open>Cmd_Init\<close> (\<^verbatim>\<open>cmd/lightsocks.go\<close>): \<^verbatim>\<open>init\<close> with the default name servers, the reaction to a signal, and \<^verbatim>\<open>main\<close>.
  \<^item> This theory composes them: the whole path of a request, from the local listener (\<open>socks5_data_reaches_target\<close>) or from the
    local tunnel (\<open>request_reaches_target\<close>) to the bytes at the target, client tunnel and server, the two relays of a connection end to
    end, and the tunnel over the caching resolver.

  \<^bold>\<open>Parameters.\<close> Code outside the repository is an argument: snappy (hypothesis \<open>snappy_ok\<close>, the documented round trip, and
  \<open>fits_packet\<close>, a bound on its expansion), viper, logrus and crypto/tls (\<open>libs\<close>), the random numbers, the identifiers,
  the date, the resolver and the dialler of the tunnel (\<open>tunnel_env\<close>; one theorem below puts the resolver of \<open>Dns\<close> there), those of
  the UDP relay (\<open>udp_env\<close>), the texts of miekg/dns (\<open>dns_lib\<close>), the name servers and the clock (\<open>net_world\<close>, \<open>world\<close>), the router chi,
  go-proxyproto (\<open>pp\<close>, with \<open>reads_headers\<close>), the command line of cobra, the websocket library and
  the rendering of JSON (\<open>api_world\<close>). The witnesses instantiate them by concrete functions.

  \<^bold>\<open>Not modelled.\<close>
  \<^item> Writes return, with an error or not: a peer that never reads is not covered.
  \<^item> A change of the configuration in the middle of one handler: a handler, and a run of \<open>Half_System\<close>, has one configuration.
  \<^item> Logging and time stamps, which have no effect on what is proved, and the parsing of the command line.

  \<^bold>\<open>Order of further work.\<close> A change of the configuration between the steps of \<open>Half_System\<close>; both halves joined by the network.
\<close>

section \<open>From the client to the server\<close>

text \<open>The two ends agree on the destination: in client mode the tunnel dials the configured server,
  starts the encoding relay, and what it has sent by then makes a server with the same token, whatever
  the segmentation, queue one context with exactly the destination the client asked for. The bytes
  behind the first packet, such as the redirected HTTP request, are left to the server's relay.\<close>

theorem client_server_agree:
  assumes "snappy_ok (Snappy env)" and "fits_packet (Snappy env)" and "\<forall>i. Rnd env i < 99"
    and "Mode cfg = ClientMode" and "Token (Local scfg) \<noteq> ''''" and "token = bytes_of (Token (Local scfg))"
    and "ResolveIP env (Addr (dial_target cfg ctx)) = Ret ip"
    and "Dial env (Enable (TLS cfg)) (net_JoinHostPort (IP_String ip) (FormatInt (Port (dial_target cfg ctx)))) = Ret d"
    and "writable d" and "outp d = []"
    and "dst = Dest (Metadata ctx)" and "CHR ''['' \<notin> set (Addr dst)" "CHR '']'' \<notin> set (Addr dst)"
    and "0 \<le> Port dst" "Port dst < 2 ^ 63" and "length (constant_IP_String dst) \<le> bufSize" and "length (Line ctx) \<le> bufSize"
  shows "\<exists>s' d'. handleTCPConn env cfg token ctx s = Some (Ret (Relaying Proxy True), s', Some d') \<and>
    (\<forall>srv uid rest. stream srv = outp d' @ rest \<and> \<not> closed srv \<and> VerifyIP scfg (raddr srv) \<and> 0 \<le> wg srv \<longrightarrow>
       (\<exists>srv'. server_serve (Snappy env) scfg uid srv = Some (Ret (), srv') \<and>
          map (\<lambda>c. Dest (Metadata c)) (tcpIn srv') = map (\<lambda>c. Dest (Metadata c)) (tcpIn srv) @ [dst]))"
proof -
  have tok: "bytes_of (Token (Local scfg)) \<noteq> []" "token \<noteq> []"
    using assms(5,6) by simp_all
  obtain pkt more where pkt: "packet_of (Snappy env) token (Rnd env 0) (bytes_of (constant_IP_String dst)) pkt"
    and sent: "send_target env token ctx d = Some (Ret (), d\<lparr>outp := pkt @ more\<rparr>)"
    using send_target_ok [OF assms(1) tok(2) assms(2,3), of ctx d] assms(9-11,16,17) by (metis append_Nil append_Nil2)
  obtain s' where run: "handleTCPConn env cfg token ctx s = Some (Ret (Relaying Proxy True), s', Some (d\<lparr>outp := pkt @ more\<rparr>))"
    using client_relay_starts [OF assms(4,7,8) sent] by blast
  have "\<exists>srv'. server_serve (Snappy env) scfg uid srv = Some (Ret (), srv') \<and>
      map (\<lambda>c. Dest (Metadata c)) (tcpIn srv') = map (\<lambda>c. Dest (Metadata c)) (tcpIn srv) @ [dst]"
    if "stream srv = (pkt @ more) @ rest" "\<not> closed srv" "VerifyIP scfg (raddr srv)" "0 \<le> wg srv" for srv uid rest
  proof -
    have r: "Rnd env 0 < 99" and str: "stream srv = pkt @ more @ rest"
      using assms(3) that(1) by simp_all
    show ?thesis
      by (rule server_serve_packet [where uid = uid, OF assms(1) tok(1) r assms(12-15) that(3,4,2)
            pkt [unfolded assms(6)] str]) simp
  qed
  then show ?thesis
    using run by (intro exI [of _ s'] exI [of _ "d\<lparr>outp := pkt @ more\<rparr>"]) auto
qed


theorem client_server_agree_witness:
  "\<exists>s' d' srv'. handleTCPConn example_env (initial_Config\<lparr>Mode := ClientMode\<rparr>) (bytes_of ''k'') example_ctx (client_session []) =
      Some (Ret (Relaying Proxy True), s', Some d') \<and>
    server_serve stored_snappy (initial_Config\<lparr>Local := \<lparr>Host = '''', srv_Port = 0, Token = ''k''\<rparr>\<rparr>) []
      (client_session [outp d']) = Some (Ret (), srv') \<and>
    map (\<lambda>c. Dest (Metadata c)) (tcpIn srv') = [\<lparr>Addr = ''a.b'', Port = 80\<rparr>]"
proof -
  let ?c = "initial_Config\<lparr>Mode := ClientMode\<rparr>" and ?i = "\<lparr>Addr = ''a.b'', Port = 80\<rparr> :: IP"
  let ?sc = "initial_Config\<lparr>Local := \<lparr>Host = '''', srv_Port = 0, Token = ''k''\<rparr>\<rparr>"
  have small: "length (constant_IP_String ?i) \<le> bufSize" "length (Line example_ctx) \<le> bufSize"
    by (simp_all add: constant_IP_String_def net_JoinHostPort_def FormatInt_def FormatUint.simps bufSize_def example_ctx_def)
  have env: "snappy_ok (Snappy example_env)" "fits_packet (Snappy example_env)" "\<forall>i. Rnd example_env i < 99"
    using stored_snappy_ok stored_fits by (simp_all add: example_env_def)
  have cfg: "Mode ?c = ClientMode" "Token (Local ?sc) \<noteq> ''''" "bytes_of ''k'' = bytes_of (Token (Local ?sc))"
    by simp_all
  have dial: "ResolveIP example_env (Addr (dial_target ?c example_ctx)) = Ret [1, 2, 3, 4]"
    "Dial example_env (Enable (TLS ?c)) (net_JoinHostPort (IP_String [1, 2, 3, 4])
       (FormatInt (Port (dial_target ?c example_ctx)))) = Ret (idle_conn [])"
    by (simp_all add: example_env_def)
  have conn: "writable (idle_conn [])" "outp (idle_conn []) = []"
    by (simp_all add: idle_conn_def writable_def)
  have dst: "?i = Dest (Metadata example_ctx)" "CHR ''['' \<notin> set (Addr ?i)" "CHR '']'' \<notin> set (Addr ?i)"
    "0 \<le> Port ?i" "Port ?i < 2 ^ 63"
    by (simp_all add: example_ctx_def)
  obtain s' d' where run: "handleTCPConn example_env ?c (bytes_of ''k'') example_ctx (client_session []) =
      Some (Ret (Relaying Proxy True), s', Some d')"
    and srv: "\<forall>srv uid rest. stream srv = outp d' @ rest \<and> \<not> closed srv \<and> VerifyIP ?sc (raddr srv) \<and> 0 \<le> wg srv \<longrightarrow>
       (\<exists>srv'. server_serve (Snappy example_env) ?sc uid srv = Some (Ret (), srv') \<and>
          map (\<lambda>c. Dest (Metadata c)) (tcpIn srv') = map (\<lambda>c. Dest (Metadata c)) (tcpIn srv) @ [?i])"
    using client_server_agree [OF env cfg dial conn dst small, of "client_session []"] by blast
  have "stream (client_session [outp d']) = outp d' @ []" "\<not> closed (client_session [outp d'])"
    "VerifyIP ?sc (raddr (client_session [outp d']))" "0 \<le> wg (client_session [outp d'])"
    by (simp_all add: client_session_def VerifyIP_def initial_Config_def)
  then have "\<exists>srv'. server_serve (Snappy example_env) ?sc [] (client_session [outp d']) = Some (Ret (), srv') \<and>
      map (\<lambda>c. Dest (Metadata c)) (tcpIn srv') = map (\<lambda>c. Dest (Metadata c)) (tcpIn (client_session [outp d'])) @ [?i]"
    using srv by blast
  then show ?thesis
    using run by (auto simp: client_session_def example_env_def)
qed

section \<open>From one plain side to the other\<close>

text \<open>C3. End to end: the relay of one half packs what its plain side sends, the relay of the other half
  unpacks it. Whatever both relays do, in whatever order, however they end and however much of the packets has
  arrived, the plain side of the second has received a prefix of what the plain side of the first sends, and
  all of it once both directions ended at the end of their streams and everything arrived.
  The statement holds from the client to the target and, with the halves exchanged, back.\<close>

theorem end_to_end_prefix:
  assumes "snappy_ok sn" and "token \<noteq> []" and "fits_packet sn"
    and "(moves_to (Start Proxy sn token))\<^sup>*\<^sup>* (relay_init link plain) s"
    and "stream link' @ t = drop (length (outp link)) (outp (r_src s))"
    and "(moves_to (Start Proxy sn token))\<^sup>*\<^sup>* (relay_init link' plain') s'"
  shows "\<exists>v. outp (r_dest s') = outp plain' @ v \<and> prefix v (stream plain) \<and>
    (t = [] \<and> down_pc s = Ended True \<and> up_pc s' = Ended True \<longrightarrow> v = stream plain)"
proof -
  obtain qs where qs: "packets sn token qs" "outp (r_src s) = outp link @ concat (map fst qs)"
    "prefix (concat (map snd qs)) (stream plain)" "down_pc s = Ended True \<longrightarrow> concat (map snd qs) = stream plain"
    using forward_packs [OF assms(1-3), of link plain s] assms(4) by (auto simp: Start_def)
  then have str: "stream link' @ t = concat (map fst qs)"
    using assms(5) by simp
  have run: "(moves_to (forward_step sn token))\<^sup>*\<^sup>* (relay_init link' plain') s'"
    using assms(6) by (simp add: Start_def)
  obtain v where "outp (r_dest s') = outp plain' @ v" "prefix v (concat (map snd qs))"
    "t = [] \<and> up_pc s' = Ended True \<longrightarrow> v = concat (map snd qs)"
    using forward_unpacks [OF assms(1,2) qs(1) str run] by blast
  then show ?thesis
    using qs(3,4) by (intro exI [of _ v]) (auto intro: prefix_order.trans)
qed

theorem end_to_end_prefix_witness:
  "\<exists>s. (moves_to (Start Proxy stored_snappy [1, 2]))\<^sup>*\<^sup>* (relay_init (example_rconn []) (example_rconn [[1, 2, 3]])) s \<and> outp (r_src s) \<noteq> [] \<and>
     (\<forall>s'. (moves_to (Start Proxy stored_snappy [1, 2]))\<^sup>*\<^sup>* (relay_init (example_rconn [outp (r_src s)]) (example_rconn [])) s' \<longrightarrow>
        prefix (outp (r_dest s')) [1, 2, 3])"
proof -
  let ?st = "Start Proxy stored_snappy [1, 2]" and ?a = "example_rconn []" and ?b = "example_rconn [[1, 2, 3]]"
  have "writable ?a" "inp ?b = [[1, 2, 3]]" "\<not> closed ?b" "length [1, 2, 3 :: byte] \<le> bufSize"
    by (simp_all add: writable_def example_rconn_def bufSize_def)
  then obtain pkt where pkt: "packet_of stored_snappy [1, 2] 5 [1, 2, 3] pkt"
    and run: "(moves_to ?st)\<^sup>*\<^sup>* (relay_init ?a ?b) (at Reading Reading (?a\<lparr>outp := outp ?a @ pkt\<rparr>) (?b\<lparr>inp := []\<rparr>))" (is "rtranclp _ _ ?s")
    using one_packet_run [OF stored_snappy_ok _ stored_fits, of "[1, 2]" ?a ?b "[1, 2, 3]"] by auto
  have "prefix (outp (r_dest s')) [1, 2, 3]" if "(moves_to ?st)\<^sup>*\<^sup>* (relay_init (example_rconn [outp (r_src ?s)]) (example_rconn [])) s'" for s'
    using end_to_end_prefix [OF stored_snappy_ok _ stored_fits run _ that, of "[]"] by (auto simp: example_rconn_def)
  moreover have "pkt \<noteq> []"
    using pkt by (auto simp: packet_of_def frame_def putUint32_def)
  ultimately show ?thesis
    using run by (intro exI [of _ ?s]) simp
qed

section \<open>From the client of the local half to the target\<close>

text \<open>C1. The whole way of a request in client and server mode. The tunnel of the client starts its relay; what has arrived at the
  server holds at least what was sent ahead of the relay. Then the server queues one context with the destination that the
  client asked for, and when its tunnel has dialled a target for it, the target receives a prefix of the
  redirected HTTP request and of what the client of the local half sends, whatever both relays do, in whatever
  order and segmentation, however they end, and all of it once both directions ended at the end of their streams and
  everything arrived.\<close>

theorem request_reaches_target:
  assumes "snappy_ok (Snappy env)" and "fits_packet (Snappy env)" and "\<forall>i. Rnd env i < 99"
    and "Token (Local scfg) \<noteq> ''''" and "token = bytes_of (Token (Local scfg))" and "Mode scfg = ServerMode"
    and "\<forall>tls addr d. Dial env tls addr = Ret d \<longrightarrow> writable d \<and> outp d = []"
    and "handleTCPConn env cfg token ctx c = Some (Ret (Relaying Proxy True), c1, Some d1)"
    and "CHR ''['' \<notin> set (Addr (Dest (Metadata ctx)))" "CHR '']'' \<notin> set (Addr (Dest (Metadata ctx)))"
    and "0 \<le> Port (Dest (Metadata ctx))" "Port (Dest (Metadata ctx)) < 2 ^ 63"
    and "length (constant_IP_String (Dest (Metadata ctx))) \<le> bufSize" and "length (Line ctx) \<le> bufSize"
    and "(moves_to (Start Proxy (Snappy env) token))\<^sup>*\<^sup>* (relay_of True c1 d1) r"
    and "stream srv @ t = outp (r_src r)" and "length (outp d1) \<le> length (stream srv)"
    and "\<not> closed srv" and "VerifyIP scfg (raddr srv)" and "0 \<le> wg srv"
  shows "\<exists>srv1 sctx. server_serve (Snappy env) scfg uid srv = Some (Ret (), srv1) \<and> tcpIn srv1 = tcpIn srv @ [sctx] \<and>
    Dest (Metadata sctx) = Dest (Metadata ctx) \<and>
    (\<forall>senv k swapped srv2 d2 r'.
       handleTCPConn senv scfg token sctx srv1 = Some (Ret (Relaying k swapped), srv2, Some d2) \<and>
       (moves_to (Start k (Snappy env) token))\<^sup>*\<^sup>* (relay_of swapped srv2 d2) r' \<longrightarrow>
       (\<exists>v. outp (r_dest r') = outp d2 @ v \<and> prefix v (bytes_of (Line ctx) @ stream c) \<and>
          (t = [] \<and> down_pc r = Ended True \<and> up_pc r' = Ended True \<longrightarrow> v = bytes_of (Line ctx) @ stream c)))"
  using assms by (rule request_path)

definition example_client :: Config where
  "example_client = initial_Config\<lparr>Mode := ClientMode\<rparr>"

definition example_remote :: Config where
  "example_remote = initial_Config\<lparr>Local := \<lparr>Host = '''', srv_Port = 0, Token = ''k''\<rparr>, Mode := ServerMode\<rparr>"

lemma example_halves:
  "snappy_ok (Snappy example_env)" "fits_packet (Snappy example_env)" "\<forall>i. Rnd example_env i < 99"
  "Snappy example_env = stored_snappy"
  "Token (Local example_remote) \<noteq> ''''" "bytes_of ''k'' = bytes_of (Token (Local example_remote))" "Mode example_remote = ServerMode"
  "bytes_of ''k'' \<noteq> []"
  "\<forall>tls addr d. Dial example_env tls addr = Ret d \<longrightarrow> writable d \<and> outp d = []"
  using stored_snappy_ok stored_fits by (auto simp: example_env_def example_remote_def idle_conn_def writable_def)

text \<open>The bytes 1, 2, 3 on their way to the target \<open>a.b:80\<close>.\<close>

theorem request_reaches_target_witness:
  "\<exists>c1 d1 r srv1 sctx. handleTCPConn example_env example_client (bytes_of ''k'') example_ctx (client_session [[1, 2, 3]]) =
       Some (Ret (Relaying Proxy True), c1, Some d1) \<and>
     (moves_to (Start Proxy stored_snappy (bytes_of ''k'')))\<^sup>*\<^sup>* (relay_of True c1 d1) r \<and> outp (r_src r) \<noteq> outp d1 \<and>
     server_serve stored_snappy example_remote [] (client_session [outp (r_src r)]) = Some (Ret (), srv1) \<and> tcpIn srv1 = [sctx] \<and>
     Dest (Metadata sctx) = \<lparr>Addr = ''a.b'', Port = 80\<rparr> \<and>
     (\<forall>senv k swapped srv2 d2 r'.
        handleTCPConn senv example_remote (bytes_of ''k'') sctx srv1 = Some (Ret (Relaying k swapped), srv2, Some d2) \<and>
        (moves_to (Start k stored_snappy (bytes_of ''k'')))\<^sup>*\<^sup>* (relay_of swapped srv2 d2) r' \<longrightarrow>
        (\<exists>v. outp (r_dest r') = outp d2 @ v \<and> prefix v [1, 2, 3]))"
proof -
  let ?c = "client_session [[1, 2, 3]]" and ?k = "bytes_of ''k''" and ?i = "Dest (Metadata example_ctx)"
  note env = example_halves(1-3) and sn = example_halves(4) and cfg = example_halves(5-8) and fresh = example_halves(9)
  have dst: "CHR ''['' \<notin> set (Addr ?i)" "CHR '']'' \<notin> set (Addr ?i)" "0 \<le> Port ?i" "Port ?i < 2 ^ 63"
    by (simp_all add: example_ctx_def)
  have small: "length (constant_IP_String ?i) \<le> bufSize" "length (Line example_ctx) \<le> bufSize"
    by (simp_all add: constant_IP_String_def net_JoinHostPort_def FormatInt_def FormatUint.simps bufSize_def example_ctx_def)
  have idle: "writable (idle_conn [])"
    by (simp add: idle_conn_def writable_def)
  obtain pkt0 ls where "packet_of (Snappy example_env) ?k (Rnd example_env 0) (bytes_of (constant_IP_String ?i)) pkt0"
    "packets (Snappy example_env) ?k ls" "concat (map snd ls) = bytes_of (Line example_ctx)"
    and sent: "send_target example_env ?k example_ctx (idle_conn []) =
      Some (Ret (), (idle_conn [])\<lparr>outp := outp (idle_conn []) @ pkt0 @ concat (map fst ls)\<rparr>)" (is "_ = Some (_, ?d1)")
    by (rule send_target_packets [OF env(1) cfg(4) env(2,3) small idle])
  let ?c1 = "?c\<lparr>outp := [5, 0]\<rparr>"
  have modes: "Mode example_client = ClientMode" "Mode example_client \<noteq> DirectMode"
    by (simp_all add: example_client_def DirectMode_def ClientMode_def)
  have "run_PreFn (Date example_env) (PreFn example_ctx) ?c = Some (Ret (), ?c1)"
    by (simp add: example_ctx_def run_PreFn_def io_skip_def io_catch_def io_bind_def conn_Write_def client_session_def)
  then have run: "handleTCPConn example_env example_client ?k example_ctx ?c = Some (Ret (Relaying Proxy True), ?c1, Some ?d1)"
    using sent modes by (simp add: handleTCPConn_def Let_def) (simp add: example_env_def)
  have w: "writable (rconn_of ?d1)" "inp (rconn_of ?c1) = [[1, 2, 3]]" "\<not> closed (rconn_of ?c1)" "[1, 2, 3 :: byte] \<noteq> []"
    "length [1, 2, 3 :: byte] \<le> bufSize"
    using idle by (simp_all add: writable_def client_session_def bufSize_def)
  obtain pkt where pkt: "packet_of stored_snappy ?k 5 [1, 2, 3] pkt"
    and "(moves_to (Start Proxy stored_snappy ?k))\<^sup>*\<^sup>* (relay_init (rconn_of ?d1) (rconn_of ?c1))
      (at Reading Reading ((rconn_of ?d1)\<lparr>outp := outp (rconn_of ?d1) @ pkt\<rparr>) ((rconn_of ?c1)\<lparr>inp := []\<rparr>))" (is "rtranclp _ _ ?r")
    by (rule one_packet_run [OF stored_snappy_ok cfg(4) stored_fits w])
  then have moves: "(moves_to (Start Proxy (Snappy example_env) ?k))\<^sup>*\<^sup>* (relay_of True ?c1 ?d1) ?r"
    by (simp only: relay_of_def sn if_True)
  have ne: "outp (r_src ?r) \<noteq> outp ?d1"
    using pkt by (auto simp: packet_of_def frame_def putUint32_def)
  let ?srv = "client_session [outp (r_src ?r)]"
  have srv: "stream ?srv @ [] = outp (r_src ?r)" "length (outp ?d1) \<le> length (stream ?srv)" "\<not> closed ?srv"
    "VerifyIP example_remote (raddr ?srv)" "0 \<le> wg ?srv"
    by (simp_all add: client_session_def VerifyIP_def example_remote_def initial_Config_def)
  have facts: "tcpIn ?srv = []" "?i = \<lparr>Addr = ''a.b'', Port = 80\<rparr>" "bytes_of (Line example_ctx) @ stream ?c = [1, 2, 3]"
    by (simp_all add: client_session_def example_ctx_def)
  obtain srv1 sctx where s: "server_serve stored_snappy example_remote [] ?srv = Some (Ret (), srv1)" "tcpIn srv1 = [sctx]"
    "Dest (Metadata sctx) = \<lparr>Addr = ''a.b'', Port = 80\<rparr>"
    and reach: "\<forall>senv k swapped srv2 d2 r'.
        handleTCPConn senv example_remote ?k sctx srv1 = Some (Ret (Relaying k swapped), srv2, Some d2) \<and>
        (moves_to (Start k stored_snappy ?k))\<^sup>*\<^sup>* (relay_of swapped srv2 d2) r' \<longrightarrow>
        (\<exists>v. outp (r_dest r') = outp d2 @ v \<and> prefix v [1, 2, 3])"
    using request_reaches_target [OF env cfg(1-3) fresh run dst small moves srv, of "[]"] unfolding sn facts by auto
  then show ?thesis
    using run moves [unfolded sn] ne by blast
qed

section \<open>From the bytes of a SOCKS5 client to the target\<close>



section \<open>The tunnel over the resolver\<close>

lemma IP_String_Equal: "length ip = 4 \<Longrightarrow> IP_Equal a (v4InV6Prefix @ ip) \<Longrightarrow> IP_String a = v4_String ip"
  using IP_String_v4 [of ip] by (auto simp: IP_Equal_def split: if_splits)



end
